(* ===== verification/Prelude.thy ===== *)
theory Prelude
  imports Main "HOL-Library.Word"
begin

text \<open>
  Shared vocabulary of the development.

  The C++ program works on bytes (\<open>std::string\<close>, \<open>std::string_view\<close>), on the
  machine integers \<open>int\<close>, \<open>std::int64_t\<close> and \<open>std::uint64_t\<close>, and on
  \<open>std::optional\<close> values. Here a byte string is a \<^typ>\<open>string\<close> (an Isabelle
  \<^typ>\<open>char\<close> is eight bits), an unsigned 64-bit value is a \<open>64 word\<close>, and a
  signed 32-bit \<open>int\<close> is an \<^typ>\<open>int\<close> kept inside its range by
  \<open>wrap_i32\<close>. Exceptions are the left side of a sum.

  The theory also holds the notion of a transducer (a step function that consumes one
  input and returns a list of outputs with the next state) which the event detector, the
  semantic resolver and the live pipeline all are, and the facts about their runs.
\<close>

subsection \<open>Machine integers\<close>

type_synonym u64 = "64 word"
type_synonym u32 = "32 word"
type_synonym u8 = "8 word"
type_synonym i32 = int
type_synonym i64 = int

definition wrap_i32 :: "int \<Rightarrow> i32" where
  "wrap_i32 i = (i + 2147483648) mod 4294967296 - 2147483648"

definition in_i32 :: "int \<Rightarrow> bool" where
  "in_i32 i \<longleftrightarrow> - 2147483648 \<le> i \<and> i \<le> 2147483647"

definition in_i64 :: "int \<Rightarrow> bool" where
  "in_i64 i \<longleftrightarrow> - 9223372036854775808 \<le> i \<and> i \<le> 9223372036854775807"

definition i32_sub :: "i32 \<Rightarrow> i32 \<Rightarrow> i32" where
  "i32_sub a b = wrap_i32 (a - b)"

named_theorems width_simps

lemma wrap_i32_in_range [width_simps, simp]: "in_i32 (wrap_i32 i)"
  unfolding in_i32_def wrap_i32_def
  using pos_mod_bound [of 4294967296 "i + 2147483648"] pos_mod_sign [of 4294967296 "i + 2147483648"]
  by linarith

lemma wrap_i32_id [width_simps]: "in_i32 i \<Longrightarrow> wrap_i32 i = i"
  by (simp add: in_i32_def wrap_i32_def)

text \<open>
  Signed overflow is undefined in C++. Every difference the program takes is between a
  larger and a smaller counter, so it is exact as soon as the smaller one is not negative.
\<close>

lemma i32_sub_exact [width_simps]:
  "in_i32 a \<Longrightarrow> 0 \<le> b \<Longrightarrow> b \<le> a \<Longrightarrow> i32_sub a b = a - b"
  by (simp add: i32_sub_def in_i32_def wrap_i32_def)

lemma i32_sub_exact_abs [width_simps]:
  "in_i32 a \<Longrightarrow> in_i32 b \<Longrightarrow> 0 \<le> a \<Longrightarrow> 0 \<le> b \<Longrightarrow> i32_sub a b = a - b"
  by (simp add: i32_sub_def in_i32_def wrap_i32_def)

subsection \<open>Optional values\<close>

definition value_or :: "'a option \<Rightarrow> 'a \<Rightarrow> 'a" where
  "value_or x d = (case x of None \<Rightarrow> d | Some v \<Rightarrow> v)"

lemma value_or_simps [simp]: "value_or None d = d" "value_or (Some v) d = v"
  by (simp_all add: value_or_def)

definition opt_holds :: "('a \<Rightarrow> bool) \<Rightarrow> 'a option \<Rightarrow> bool" where
  "opt_holds P x = (case x of None \<Rightarrow> False | Some v \<Rightarrow> P v)"

lemma opt_holds_simps [simp]: "opt_holds P None = False" "opt_holds P (Some v) = P v"
  by (simp_all add: opt_holds_def)

lemma opt_holds_iff: "opt_holds P x \<longleftrightarrow> (\<exists>v. x = Some v \<and> P v)"
  by (cases x) auto

definition opt_rel :: "('a \<Rightarrow> 'b \<Rightarrow> bool) \<Rightarrow> 'a option \<Rightarrow> 'b option \<Rightarrow> bool" where
  "opt_rel P x y = (case x of None \<Rightarrow> False | Some a \<Rightarrow> opt_holds (P a) y)"

lemma opt_rel_simps [simp]:
  "opt_rel P None y = False" "opt_rel P x None = False" "opt_rel P (Some a) (Some b) = P a b"
  by (cases x; simp add: opt_rel_def)+

lemma opt_rel_iff: "opt_rel P x y \<longleftrightarrow> (\<exists>a b. x = Some a \<and> y = Some b \<and> P a b)"
  by (cases x; cases y) auto

text \<open>The idiom \<open>if (current) memory = current\<close>: keep the old value when there is no new one.\<close>

definition remember :: "'a option \<Rightarrow> 'a option \<Rightarrow> 'a option" where
  "remember new old = (case new of None \<Rightarrow> old | Some v \<Rightarrow> Some v)"

lemma remember_simps [simp]: "remember None old = old" "remember (Some v) old = Some v"
  by (simp_all add: remember_def)

definition emit_if :: "bool \<Rightarrow> 'a \<Rightarrow> 'a list" where
  "emit_if b e = (if b then [e] else [])"

lemma set_emit_if [simp]: "x \<in> set (emit_if b e) \<longleftrightarrow> b \<and> x = e"
  by (auto simp: emit_if_def)

lemma filter_emit_if [simp]: "filter P (emit_if b e) = emit_if (b \<and> P e) e"
  by (simp add: emit_if_def)

lemma emit_if_simps [simp]: "emit_if True e = [e]" "emit_if False e = []"
  by (simp_all add: emit_if_def)

lemma emit_if_eq_Nil [simp]: "emit_if b e = [] \<longleftrightarrow> \<not> b"
  by (simp add: emit_if_def)

subsection \<open>Results\<close>

text \<open>
  Sequencing of fallible steps: an exception skips the rest. \<open>map_result\<close> is a loop that
  stops at the first exception.
\<close>

definition rbind :: "'e + 'a \<Rightarrow> ('a \<Rightarrow> 'e + 'b) \<Rightarrow> 'e + 'b" where
  "rbind x f = (case x of Inl e \<Rightarrow> Inl e | Inr v \<Rightarrow> f v)"

lemma rbind_simps [simp]: "rbind (Inl e) f = Inl e" "rbind (Inr v) f = f v"
  by (simp_all add: rbind_def)

lemma rbind_Inr: "rbind x f = Inr y \<longleftrightarrow> (\<exists>v. x = Inr v \<and> f v = Inr y)"
  by (cases x) simp_all

fun map_result :: "('a \<Rightarrow> 'e + 'b) \<Rightarrow> 'a list \<Rightarrow> 'e + 'b list" where
  "map_result f [] = Inr []"
| "map_result f (x # xs) = rbind (f x) (\<lambda>y. rbind (map_result f xs) (\<lambda>ys. Inr (y # ys)))"

lemma map_result_all_Inr:
  "(\<And>x. x \<in> set xs \<Longrightarrow> f x = Inr (g x)) \<Longrightarrow> map_result f xs = Inr (map g xs)"
  by (induction xs) simp_all

end
