(* ===== verification/Decimal.thy ===== *)
theory Decimal
  imports Prelude
begin

text \<open>
  The decimal text of the C++ standard library, as far as the sources use it:
  \<open>std::to_string\<close> and \<open>operator<<\<close> on integers, and the digit strings that
  \<open>std::from_chars\<close>, \<open>std::stoull\<close> and \<open>std::stoi\<close> read.
\<close>

definition is_digit :: "char \<Rightarrow> bool" where
  "is_digit c \<longleftrightarrow> (48::nat) \<le> of_char c \<and> of_char c \<le> (57::nat)"

definition digit_value :: "char \<Rightarrow> nat" where
  "digit_value c = of_char c - 48"

definition digit_char :: "nat \<Rightarrow> char" where
  "digit_char n = char_of (48 + n)"

definition digits_value :: "string \<Rightarrow> nat" where
  "digits_value ds = foldl (\<lambda>acc c. 10 * acc + digit_value c) 0 ds"

fun nat_to_string :: "nat \<Rightarrow> string" where
  "nat_to_string n =
     (if n < 10 then [digit_char n] else nat_to_string (n div 10) @ [digit_char (n mod 10)])"

declare nat_to_string.simps [simp del]

definition int_to_string :: "int \<Rightarrow> string" where
  "int_to_string i =
     (if i < 0 then CHR ''-'' # nat_to_string (nat (- i)) else nat_to_string (nat i))"

lemma of_char_digit_char: "n < 10 \<Longrightarrow> of_char (digit_char n) = (48 + n :: nat)"
  by (simp add: digit_char_def)

lemma is_digit_digit_char [simp]: "n < 10 \<Longrightarrow> is_digit (digit_char n)"
  by (simp add: is_digit_def of_char_digit_char)

lemma digit_value_digit_char [simp]: "n < 10 \<Longrightarrow> digit_value (digit_char n) = n"
  by (simp add: digit_value_def of_char_digit_char)

lemma digits_value_Nil [simp]: "digits_value [] = 0"
  by (simp add: digits_value_def)

lemma digits_value_snoc [simp]: "digits_value (ds @ [c]) = 10 * digits_value ds + digit_value c"
  by (simp add: digits_value_def)

lemma nat_to_string_nonempty [simp]: "nat_to_string n \<noteq> []"
  by (subst nat_to_string.simps) simp

lemma nat_to_string_digits: "c \<in> set (nat_to_string n) \<Longrightarrow> is_digit c"
proof (induction n rule: nat_to_string.induct)
  case (1 n)
  then show ?case
    by (subst (asm) nat_to_string.simps) (auto split: if_splits)
qed

lemma digits_value_nat_to_string [simp]: "digits_value (nat_to_string n) = n"
proof (induction n rule: nat_to_string.induct)
  case (1 n)
  show ?case
  proof (cases "n < 10")
    case True
    then show ?thesis
      using digits_value_snoc [of "[]" "digit_char n"] by (simp add: nat_to_string.simps [of n])
  next
    case False
    with 1 show ?thesis by (simp add: nat_to_string.simps [of n])
  qed
qed

lemma not_digit_minus [simp]: "\<not> is_digit (CHR ''-'')"
  by (simp add: is_digit_def)

lemma nat_to_string_hd: "nat_to_string n = c # cs \<Longrightarrow> is_digit c"
  using nat_to_string_digits [of c n] by simp

lemma takeWhile_digits [simp]: "takeWhile is_digit (nat_to_string n) = nat_to_string n"
  by (simp add: takeWhile_eq_all_conv nat_to_string_digits)

lemma nat_to_string_inject [simp]: "nat_to_string m = nat_to_string n \<longleftrightarrow> m = n"
  by (metis digits_value_nat_to_string)

lemma nat_to_string_not_minus [simp]: "nat_to_string n \<noteq> CHR ''-'' # cs"
  using nat_to_string_hd [of n "CHR ''-''" cs] by auto

lemma int_to_string_inject [simp]: "int_to_string i = int_to_string j \<longleftrightarrow> i = j"
  by (auto simp: int_to_string_def split: if_splits dest: sym)

lemma int_to_string_nonempty [simp]: "int_to_string i \<noteq> []"
  by (simp add: int_to_string_def)

text \<open>Numbers in a field of a fixed width.\<close>

definition pad_left :: "nat \<Rightarrow> string \<Rightarrow> string" where
  "pad_left k s = replicate (k - length s) CHR ''0'' @ s"

lemma length_nat_to_string:
  "10 ^ (length (nat_to_string n) - 1) \<le> max 1 n" "n < 10 ^ length (nat_to_string n)"
proof (induction n rule: nat_to_string.induct)
  case (1 n)
  {
    case 1
    show ?case
    proof (cases "n < 10")
      case True
      then show ?thesis by (subst nat_to_string.simps) simp
    next
      case False
      then have len: "length (nat_to_string n) = Suc (length (nat_to_string (n div 10)))"
        by (subst nat_to_string.simps) simp
      have pos: "0 < length (nat_to_string (n div 10))" by simp
      then have "10 ^ length (nat_to_string (n div 10))
          = 10 * 10 ^ (length (nat_to_string (n div 10)) - (1 :: nat))"
        by (metis Suc_diff_1 power_Suc)
      also have "\<dots> \<le> 10 * (n div 10)" using "1.IH"(1) [OF False] False by simp
      also have "\<dots> \<le> n" by simp
      finally show ?thesis by (simp add: len)
    qed
  next
    case 2
    show ?case
    proof (cases "n < 10")
      case True
      then show ?thesis by (subst nat_to_string.simps) simp
    next
      case False
      with "1.IH"(2) show ?thesis by (subst nat_to_string.simps) simp
    qed
  }
qed

lemma zero_char [simp]: "digit_char 0 = CHR ''0''"
  by code_simp

lemma digits_value_pad_left: "digits_value (pad_left j ds) = digits_value ds"
proof -
  have "digits_value (replicate i CHR ''0'' @ ds) = digits_value ds" for i
    by (induction i) (simp_all add: digits_value_def digit_value_def)
  then show ?thesis by (simp add: pad_left_def)
qed

lemma length_pad_left: "n < 10 ^ k \<Longrightarrow> 0 < k \<Longrightarrow> length (pad_left k (nat_to_string n)) = k"
proof -
  assume n: "n < 10 ^ k" and k: "0 < k"
  have "length (nat_to_string n) \<le> k"
  proof (rule ccontr)
    assume "\<not> ?thesis"
    then have "(10 :: nat) ^ k \<le> 10 ^ (length (nat_to_string n) - 1)"
      by (intro power_increasing) simp_all
    also have "\<dots> \<le> max 1 n" by (rule length_nat_to_string)
    finally have "(10 :: nat) ^ k \<le> 1" using n by (simp add: max_def split: if_splits)
    moreover have "(10 :: nat) ^ 1 \<le> 10 ^ k" using k by (intro power_increasing) simp_all
    ultimately show False by simp
  qed
  then show ?thesis by (simp add: pad_left_def)
qed

text \<open>Evaluation goes through \<open>int\<close>, whose numerals are binary.\<close>

function int_digits :: "int \<Rightarrow> string" where
  "int_digits i = (if i < 10 then [digit_char (nat i)] else int_digits (i div 10) @ [digit_char (nat (i mod 10))])"
  by pat_completeness auto
termination int_digits
  by (relation "measure nat") auto

declare int_digits.simps [simp del]

lemma nat_to_string_int_digits: "nat_to_string n = int_digits (int n)"
proof (induction n rule: nat_to_string.induct)
  case (1 n)
  show ?case
  proof (cases "n < 10")
    case True
    then show ?thesis by (subst nat_to_string.simps, subst int_digits.simps) simp
  next
    case False
    moreover have "int n div 10 = int (n div 10)" "nat (int n mod 10) = n mod 10"
      by (simp_all add: zdiv_int nat_mod_distrib)
    ultimately show ?thesis
      using 1 by (subst nat_to_string.simps, subst int_digits.simps) simp
  qed
qed

lemma int_to_string_code [code]:
  "int_to_string i = (if i < 0 then CHR ''-'' # int_digits (- i) else int_digits i)"
  by (simp add: int_to_string_def nat_to_string_int_digits)

end
