(* ===== verification/Session_Text.thy ===== *)
theory Session_Text
  imports Decimal
begin

text \<open>
  The text level of a session: \<open>split_tsv\<close>, \<open>json_escape\<close> and the optional fields of
  \<open>src/session.cpp\<close>, with the standard library functions they use (\<open>std::getline\<close>,
  \<open>std::stoull\<close>, \<open>std::stoi\<close>) by their documented behaviour. The contract of a field that
  is written and read back is the locale \<open>field_codec\<close>.
\<close>

datatype session_error =
    CannotOpen
  | MalformedRow
  | UnsupportedSchema
  | UnknownSource
  | InvalidCounts
  | NotANumber
  | NumberOutOfRange
  | ShortRead

abbreviation tab :: char where "tab \<equiv> CHR 0x09"
abbreviation newline :: char where "newline \<equiv> CHR 0x0A"

subsection \<open>Fields and lines\<close>

function split_tsv :: "string \<Rightarrow> string list" where
  "split_tsv line =
     (case dropWhile (\<lambda>c. c \<noteq> tab) line of
        [] \<Rightarrow> [line]
      | _ # rest \<Rightarrow> takeWhile (\<lambda>c. c \<noteq> tab) line # split_tsv rest)"
  by pat_completeness auto
termination split_tsv
proof (relation "measure length")
  fix line rest :: string and c
  assume "dropWhile (\<lambda>c. c \<noteq> tab) line = c # rest"
  then show "(rest, line) \<in> measure length"
    using length_dropWhile_le [of "\<lambda>c. c \<noteq> tab" line] by simp
qed simp

declare split_tsv.simps [simp del]

text \<open>\<open>while (std::getline(input, line))\<close>: a last line without a newline still counts.\<close>

function getlines :: "string \<Rightarrow> string list" where
  "getlines input =
     (if input = [] then []
      else takeWhile (\<lambda>c. c \<noteq> newline) input #
        (case dropWhile (\<lambda>c. c \<noteq> newline) input of
           [] \<Rightarrow> []
         | _ # rest \<Rightarrow> getlines rest))"
  by pat_completeness auto
termination getlines
proof (relation "measure length")
  fix input rest :: string and c
  assume "dropWhile (\<lambda>c. c \<noteq> newline) input = c # rest"
  then show "(rest, input) \<in> measure length"
    using length_dropWhile_le [of "\<lambda>c. c \<noteq> newline" input] by simp
qed simp

declare getlines.simps [simp del]

fun join_tsv :: "string list \<Rightarrow> string" where
  "join_tsv [] = []"
| "join_tsv [f] = f"
| "join_tsv (f # g # fs) = f @ tab # join_tsv (g # fs)"

lemma until_first:
  "x \<notin> set f \<Longrightarrow> takeWhile (\<lambda>c. c \<noteq> x) (f @ x # rest) = f"
  "x \<notin> set f \<Longrightarrow> dropWhile (\<lambda>c. c \<noteq> x) (f @ x # rest) = x # rest"
  "x \<notin> set f \<Longrightarrow> takeWhile (\<lambda>c. c \<noteq> x) f = f"
  "x \<notin> set f \<Longrightarrow> dropWhile (\<lambda>c. c \<noteq> x) f = []"
  by (induction f) auto

lemma split_tsv_plain: "tab \<notin> set f \<Longrightarrow> split_tsv f = [f]"
  by (subst split_tsv.simps) (simp add: until_first)

lemma split_tsv_cons: "tab \<notin> set f \<Longrightarrow> split_tsv (f @ tab # rest) = f # split_tsv rest"
  by (subst split_tsv.simps) (simp add: until_first)

lemma split_join_tsv:
  assumes "fs \<noteq> []" "\<forall>f\<in>set fs. tab \<notin> set f"
  shows "split_tsv (join_tsv fs) = fs"
  using assms by (induction fs rule: join_tsv.induct) (simp_all add: split_tsv_plain split_tsv_cons)

lemma getlines_Nil [simp]: "getlines [] = []"
  by (simp add: getlines.simps)

lemma getlines_cons: "newline \<notin> set l \<Longrightarrow> getlines (l @ newline # rest) = l # getlines rest"
  by (subst getlines.simps) (simp add: until_first)

lemma getlines_concat:
  assumes "\<forall>l\<in>set ls. newline \<notin> set l"
  shows "getlines (concat (map (\<lambda>l. l @ [newline]) ls)) = ls"
  using assms by (induction ls) (simp_all add: getlines_cons)

subsection \<open>Numbers\<close>

definition is_space :: "char \<Rightarrow> bool" where
  "is_space c \<longleftrightarrow> c = CHR '' '' \<or> (9 \<le> (of_char c :: nat) \<and> of_char c \<le> (13 :: nat))"

text \<open>
  What \<open>strtoull\<close> and \<open>strtol\<close> have in common: skip white space, read a sign and the longest
  run of digits, ignore what follows. \<open>None\<close> when there is no digit.
\<close>

definition scan_decimal :: "string \<Rightarrow> (bool \<times> nat) option" where
  "scan_decimal s =
     (let t = dropWhile is_space s;
          (negative, u) =
            (case t of
               [] \<Rightarrow> (False, [])
             | c # r \<Rightarrow> if c = CHR ''-'' then (True, r) else if c = CHR ''+'' then (False, r) else (False, t));
          digits = takeWhile is_digit u
      in if digits = [] then None else Some (negative, digits_value digits))"

definition stoull :: "string \<Rightarrow> session_error + u64" where
  "stoull s =
     (case scan_decimal s of
        None \<Rightarrow> Inl NotANumber
      | Some (negative, n) \<Rightarrow>
          if n \<ge> 2 ^ 64 then Inl NumberOutOfRange
          else Inr (if negative then - of_nat n else of_nat n))"

lemma stoull_code [code]:
  "stoull s =
     (case scan_decimal s of
        None \<Rightarrow> Inl NotANumber
      | Some (negative, n) \<Rightarrow>
          if int n \<ge> 18446744073709551616 then Inl NumberOutOfRange
          else Inr (if negative then - of_nat n else of_nat n))"
proof -
  have "(2 ^ 64 \<le> n) = (18446744073709551616 \<le> int n)" for n :: nat by simp
  then show ?thesis by (simp only: stoull_def)
qed

definition stoi :: "string \<Rightarrow> session_error + i32" where
  "stoi s =
     (case scan_decimal s of
        None \<Rightarrow> Inl NotANumber
      | Some (negative, n) \<Rightarrow>
          (let v = if negative then - int n else int n
           in if in_i32 v then Inr v else Inl NumberOutOfRange))"

definition u64_to_string :: "u64 \<Rightarrow> string" where
  "u64_to_string w = nat_to_string (unat w)"

lemma u64_to_string_code [code]: "u64_to_string w = int_digits (uint w)"
  by (simp add: u64_to_string_def nat_to_string_int_digits)

definition optional_int :: "i32 option \<Rightarrow> string" where
  "optional_int v = (case v of None \<Rightarrow> [] | Some i \<Rightarrow> int_to_string i)"

definition optional_u64 :: "u64 option \<Rightarrow> string" where
  "optional_u64 v = (case v of None \<Rightarrow> [] | Some w \<Rightarrow> u64_to_string w)"

definition parse_optional_int :: "string \<Rightarrow> session_error + i32 option" where
  "parse_optional_int s = (if s = [] then Inr None else rbind (stoi s) (\<lambda>i. Inr (Some i)))"

definition parse_optional_u64 :: "string \<Rightarrow> session_error + u64 option" where
  "parse_optional_u64 s = (if s = [] then Inr None else rbind (stoull s) (\<lambda>w. Inr (Some w)))"

lemma digit_not_space: "is_digit c \<Longrightarrow> \<not> is_space c"
  by (auto simp: is_digit_def is_space_def)

lemma digit_not_sign: "is_digit c \<Longrightarrow> c \<noteq> CHR ''-'' \<and> c \<noteq> CHR ''+''"
  by (auto simp: is_digit_def)

lemma scan_decimal_nat: "scan_decimal (nat_to_string n) = Some (False, n)"
proof -
  obtain c cs where s: "nat_to_string n = c # cs" by (cases "nat_to_string n") auto
  then have "is_digit c" by (rule nat_to_string_hd)
  then have "dropWhile is_space (nat_to_string n) = nat_to_string n"
    using digit_not_space by (simp add: s)
  moreover have "c \<noteq> CHR ''-''" "c \<noteq> CHR ''+''" using \<open>is_digit c\<close> digit_not_sign by auto
  ultimately show ?thesis
    using takeWhile_digits [of n] digits_value_nat_to_string [of n]
    by (simp add: scan_decimal_def s del: takeWhile_digits digits_value_nat_to_string)
qed

lemma minus_not_space: "\<not> is_space CHR ''-''"
  by (simp add: is_space_def)

lemma scan_decimal_int:
  "scan_decimal (int_to_string i) = Some (i < 0, nat \<bar>i\<bar>)"
  using scan_decimal_nat [of "nat i"]
  by (auto simp: int_to_string_def scan_decimal_def minus_not_space)

lemma stoull_u64 [simp]: "stoull (u64_to_string w) = Inr w"
proof -
  have "unat w < 2 ^ LENGTH(64)" by (rule unsigned_less)
  then show ?thesis by (simp add: stoull_def u64_to_string_def scan_decimal_nat)
qed

lemma stoi_int [simp]: "in_i32 i \<Longrightarrow> stoi (int_to_string i) = Inr i"
  by (simp add: stoi_def scan_decimal_int)

subsection \<open>Fields that are written and read back\<close>

definition plain_field :: "string \<Rightarrow> bool" where
  "plain_field f \<longleftrightarrow> tab \<notin> set f \<and> newline \<notin> set f"

locale field_codec =
  fixes print :: "'a \<Rightarrow> string" and parse :: "string \<Rightarrow> session_error + 'a" and ok :: "'a \<Rightarrow> bool"
  assumes parse_print: "ok v \<Longrightarrow> parse (print v) = Inr v"
    and print_plain: "ok v \<Longrightarrow> plain_field (print v)"
begin

lemma print_inject: "ok v \<Longrightarrow> ok w \<Longrightarrow> print v = print w \<longleftrightarrow> v = w"
  by (metis parse_print sum.inject(2))

lemma map_parse_print: "list_all ok vs \<Longrightarrow> map_result parse (map print vs) = Inr vs"
  by (induction vs) (simp_all add: parse_print)

end

lemma digit_plain: "is_digit c \<Longrightarrow> c \<noteq> tab \<and> c \<noteq> newline"
  by (auto simp: is_digit_def)

lemma nat_to_string_plain: "plain_field (nat_to_string n)"
  using nat_to_string_digits digit_plain by (fastforce simp: plain_field_def)

lemma int_to_string_plain: "plain_field (int_to_string i)"
  using nat_to_string_plain by (auto simp: int_to_string_def plain_field_def)

lemma u64_to_string_plain: "plain_field (u64_to_string w)"
  by (simp add: u64_to_string_def nat_to_string_plain)

interpretation u64_field: field_codec u64_to_string stoull "\<lambda>_. True"
  by unfold_locales (simp_all add: u64_to_string_plain)

interpretation int_field: field_codec int_to_string stoi in_i32
  by unfold_locales (simp_all add: int_to_string_plain)

interpretation optional_u64_field: field_codec optional_u64 parse_optional_u64 "\<lambda>_. True"
proof unfold_locales
  fix v :: "u64 option"
  show "parse_optional_u64 (optional_u64 v) = Inr v"
    by (cases v) (simp_all add: optional_u64_def parse_optional_u64_def, simp add: u64_to_string_def)
  show "plain_field (optional_u64 v)"
    using u64_field.print_plain by (cases v) (simp_all add: optional_u64_def, simp add: plain_field_def)
qed

interpretation optional_int_field: field_codec optional_int parse_optional_int "pred_option in_i32"
proof unfold_locales
  fix v :: "i32 option"
  assume "pred_option in_i32 v"
  then show "parse_optional_int (optional_int v) = Inr v"
    by (cases v) (simp_all add: optional_int_def parse_optional_int_def)
  show "plain_field (optional_int v)"
    by (cases v) (simp_all add: optional_int_def int_to_string_plain, simp add: plain_field_def)
qed

subsection \<open>Text inside JSON\<close>

definition json_escape_char :: "char \<Rightarrow> string" where
  "json_escape_char ch =
     (if ch = CHR 0x5C then [CHR 0x5C, CHR 0x5C]
      else if ch = CHR 0x22 then [CHR 0x5C, CHR 0x22]
      else if ch = newline then [CHR 0x5C, CHR ''n'']
      else if ch = CHR 0x0D then [CHR 0x5C, CHR ''r'']
      else if ch = tab then [CHR 0x5C, CHR ''t'']
      else if (of_char ch :: nat) < 0x20 then ''?''
      else [ch])"

definition json_escape :: "string \<Rightarrow> string" where
  "json_escape input = concat (map json_escape_char input)"

end
