(* ===== verification/Clock.thy ===== *)
theory Clock
  imports Prelude "HOL-Library.Log_Nat"
begin

text \<open>
  Class \<open>MonotonicClock\<close> (\<open>src/clock.cpp\<close>) and the session time computed from it. The
  program goes through \<open>double\<close>: ticks are converted, divided by the frequency, multiplied by
  a million and truncated. Binary64 values are exact rationals here and every operation is
  the exact one followed by \<open>fl\<close>, rounding to 53 significant bits, ties to even. No value
  of the program leaves the normal range: a tick difference is below \<open>2\<^sup>6\<^sup>4\<close>.
\<close>

subsection \<open>Binary64 rounding\<close>

definition round_half_even :: "rat \<Rightarrow> int" where
  "round_half_even x =
     (let f = \<lfloor>x\<rfloor>; r = x - of_int f
      in if r < 1 / 2 then f
         else if 1 / 2 < r then f + 1
         else if even f then f else f + 1)"

definition binary_exponent :: "rat \<Rightarrow> int" where
  "binary_exponent x =
     (let (n, d) = quotient_of x;
          e = int (floorlog 2 (nat n)) - int (floorlog 2 (nat d))
      in if 2 powi e \<le> x then e else e - 1)"

definition fl :: "rat \<Rightarrow> rat" where
  "fl x = (if x \<le> 0 then 0
           else let u = 2 powi (binary_exponent x - 52)
                in of_int (round_half_even (x / u)) * u)"

text \<open>Evaluation counts the bits of an \<open>int\<close>.\<close>

function bits_of :: "int \<Rightarrow> int" where
  "bits_of i = (if i \<le> 0 then 0 else bits_of (i div 2) + 1)"
  by pat_completeness auto
termination bits_of
  by (relation "measure nat") auto

declare bits_of.simps [simp del]

lemma floorlog_bits_of: "int (floorlog 2 (nat i)) = bits_of i"
proof (induction i rule: bits_of.induct)
  case (1 i)
  then show ?case
    by (cases "i \<le> 0")
      (simp_all add: bits_of.simps [of i] compute_floorlog [of 2 "nat i"] compute_floorlog [of 2 0] nat_div_distrib)
qed

lemma binary_exponent_code [code]:
  "binary_exponent x =
     (let (n, d) = quotient_of x; e = bits_of n - bits_of d
      in if 2 powi e \<le> x then e else e - 1)"
  by (simp add: binary_exponent_def floorlog_bits_of case_prod_beta Let_def)

lemma round_half_even_bounds:
  "\<bar>of_int (round_half_even x) - x\<bar> \<le> 1 / 2"
proof -
  have "of_int \<lfloor>x\<rfloor> \<le> x" "x < of_int \<lfloor>x\<rfloor> + 1" by linarith+
  then show ?thesis
    unfolding round_half_even_def Let_def abs_le_iff
    by (auto simp del: floor_of_int) linarith+
qed

lemma round_half_even_of_int [simp]: "round_half_even (of_int i) = i"
  by (simp add: round_half_even_def Let_def)

lemma round_half_even_mono:
  assumes "x \<le> y"
  shows "round_half_even x \<le> round_half_even y"
proof (cases "\<lfloor>x\<rfloor> = \<lfloor>y\<rfloor>")
  case True
  with assms show ?thesis by (auto simp: round_half_even_def Let_def)
next
  case False
  then have "\<lfloor>x\<rfloor> + 1 \<le> \<lfloor>y\<rfloor>" using floor_mono [OF assms] by linarith
  moreover have "round_half_even x \<le> \<lfloor>x\<rfloor> + 1" "\<lfloor>y\<rfloor> \<le> round_half_even y"
    by (auto simp: round_half_even_def Let_def)
  ultimately show ?thesis by linarith
qed

lemma powi_add_rat: "(2::rat) powi (m + n) = 2 powi m * 2 powi n"
  by (simp add: power_int_add)

lemma powi_diff_rat: "(2::rat) powi (m - n) = 2 powi m / 2 powi n"
  by (simp add: power_int_diff)

lemma powi_mono_rat: "m \<le> n \<Longrightarrow> (2::rat) powi m \<le> 2 powi n"
  by (rule power_int_increasing) simp_all

lemma powi_pos_rat [simp]: "0 < (2::rat) powi n"
  by (rule zero_less_power_int) simp

lemma powi_of_nat_rat: "(2::rat) powi int n = 2 ^ n"
  by simp

lemma binary_exponent_bounds:
  assumes "0 < x"
  shows "2 powi binary_exponent x \<le> x" "x < 2 powi (binary_exponent x + 1)"
proof -
  obtain n d where q: "quotient_of x = (n, d)" by fastforce
  have d: "0 < d" using quotient_of_denom_pos [OF q] .
  have x: "x = of_int n / of_int d" using quotient_of_div [OF q] .
  with assms d have n: "0 < n" by (simp add: zero_less_divide_iff)
  define fn where "fn = floorlog 2 (nat n)"
  define fd where "fd = floorlog 2 (nat d)"
  have nb: "2 ^ (fn - 1) \<le> nat n" "nat n < 2 ^ fn" and db: "2 ^ (fd - 1) \<le> nat d" "nat d < 2 ^ fd"
    using floorlog_bounds [of "nat n" 2] floorlog_bounds [of "nat d" 2] n d
    by (simp_all add: fn_def fd_def)
  have fpos: "0 < fn" "0 < fd"
    using nb(2) db(2) n d by (auto intro: gr0I)
  have n1: "2 powi (int fn - 1) \<le> (of_int n :: rat)" "(of_int n :: rat) < 2 powi int fn"
    and d1: "2 powi (int fd - 1) \<le> (of_int d :: rat)" "(of_int d :: rat) < 2 powi int fd"
  proof -
    have "2 ^ (fn - 1) \<le> n" "n < 2 ^ fn" "2 ^ (fd - 1) \<le> d" "d < 2 ^ fd"
      using nb db n d by (simp_all add: le_nat_iff nat_less_iff)
    then have "(of_int (2 ^ (fn - 1)) :: rat) \<le> of_int n" "(of_int n :: rat) < of_int (2 ^ fn)"
      "(of_int (2 ^ (fd - 1)) :: rat) \<le> of_int d" "(of_int d :: rat) < of_int (2 ^ fd)"
      by (simp_all only: of_int_le_iff of_int_less_iff)
    moreover have "int fn - 1 = int (fn - 1)" "int fd - 1 = int (fd - 1)" using fpos by simp_all
    ultimately show "2 powi (int fn - 1) \<le> (of_int n :: rat)" "(of_int n :: rat) < 2 powi int fn"
      "2 powi (int fd - 1) \<le> (of_int d :: rat)" "(of_int d :: rat) < 2 powi int fd"
      by (simp_all only: powi_of_nat_rat of_int_power of_int_numeral)
  qed
  let ?e = "int fn - int fd"
  have upper: "x < 2 powi (?e + 1)"
  proof -
    have "x < 2 powi int fn / 2 powi (int fd - 1)"
      unfolding x using n1(2) d1(1) d n by (intro frac_less) (simp_all add: less_imp_le)
    also have "\<dots> = 2 powi (int fn - (int fd - 1))" by (simp only: powi_diff_rat)
    finally show ?thesis by (simp add: algebra_simps)
  qed
  have lower: "2 powi (?e - 1) \<le> x"
  proof -
    have "2 powi (int fn - 1) / 2 powi int fd \<le> x"
      unfolding x using n1(1) d1(2) d n by (intro frac_le) (simp_all add: less_imp_le)
    moreover have "2 powi (?e - 1) = 2 powi (int fn - 1) / (2 powi int fd :: rat)"
      by (simp only: powi_diff_rat [symmetric]) (simp add: algebra_simps)
    ultimately show ?thesis by simp
  qed
  have "binary_exponent x = (if 2 powi ?e \<le> x then ?e else ?e - 1)"
    by (simp add: binary_exponent_def q fn_def fd_def)
  with upper lower show "2 powi binary_exponent x \<le> x" "x < 2 powi (binary_exponent x + 1)"
    by (simp_all split: if_splits)
qed

lemma binary_exponent_mono:
  assumes "0 < x" "x \<le> y"
  shows "binary_exponent x \<le> binary_exponent y"
proof (rule ccontr)
  assume "\<not> ?thesis"
  then have "2 powi (binary_exponent y + 1) \<le> (2::rat) powi binary_exponent x"
    by (intro powi_mono_rat) simp
  then show False
    using binary_exponent_bounds(2) [of y] binary_exponent_bounds(1) [of x] assms by linarith
qed

lemma fl_nonneg [simp]: "0 \<le> fl x"
proof (cases "x \<le> 0")
  case False
  then have "0 \<le> x / 2 powi (binary_exponent x - 52)" by simp
  then have "round_half_even (of_int 0) \<le> round_half_even (x / 2 powi (binary_exponent x - 52))"
    by (intro round_half_even_mono) simp
  then have "0 \<le> round_half_even (x / 2 powi (binary_exponent x - 52))"
    by (simp only: round_half_even_of_int)
  then have "(0::rat) \<le> of_int (round_half_even (x / 2 powi (binary_exponent x - 52)))"
    by (simp only: of_int_0_le_iff)
  then show ?thesis by (simp add: fl_def Let_def)
qed (simp add: fl_def)

lemma fl_zero [simp]: "fl 0 = 0"
  by (simp add: fl_def)

lemma fl_binade:
  assumes "0 < x"
  shows "2 powi binary_exponent x \<le> fl x" "fl x \<le> 2 powi (binary_exponent x + 1)"
proof -
  let ?e = "binary_exponent x" let ?u = "2 powi (?e - 52) :: rat"
  have low: "(of_int (2 ^ 52) :: rat) \<le> x / ?u" and high: "x / ?u \<le> of_int (2 ^ 53)"
  proof -
    have "(2 powi 52 :: rat) * ?u = 2 powi ?e" "(2 powi 53 :: rat) * ?u = 2 powi (?e + 1)"
      by (simp_all only: powi_add_rat [symmetric]) (simp_all add: algebra_simps)
    then show "(of_int (2 ^ 52) :: rat) \<le> x / ?u" "x / ?u \<le> of_int (2 ^ 53)"
      using binary_exponent_bounds [OF assms] by (simp_all add: le_divide_eq divide_le_eq)
  qed
  have "2 ^ 52 \<le> round_half_even (x / ?u)" "round_half_even (x / ?u) \<le> 2 ^ 53"
    using round_half_even_mono [OF low] round_half_even_mono [OF high] by (simp_all only: round_half_even_of_int)
  then have "(of_int (2 ^ 52) :: rat) * ?u \<le> fl x" "fl x \<le> of_int (2 ^ 53) * ?u"
    using assms by (simp_all add: fl_def Let_def del: of_int_power)
  moreover have "(of_int (2 ^ 52) :: rat) * ?u = 2 powi ?e" "(of_int (2 ^ 53) :: rat) * ?u = 2 powi (?e + 1)"
    by (simp_all only: of_int_power of_int_numeral powi_of_nat_rat [symmetric] powi_add_rat [symmetric])
      (simp_all add: algebra_simps)
  ultimately show "2 powi ?e \<le> fl x" "fl x \<le> 2 powi (?e + 1)" by simp_all
qed

lemma fl_mono:
  assumes "x \<le> y"
  shows "fl x \<le> fl y"
proof (cases "x \<le> 0")
  case True
  then show ?thesis using fl_nonneg [of y] by (simp add: fl_def)
next
  case False
  then have pos: "0 < x" "0 < y" using assms by simp_all
  show ?thesis
  proof (cases "binary_exponent x = binary_exponent y")
    case True
    let ?u = "2 powi (binary_exponent y - 52) :: rat"
    have "round_half_even (x / ?u) \<le> round_half_even (y / ?u)"
      using assms by (intro round_half_even_mono divide_right_mono) simp_all
    then show ?thesis using pos True by (simp add: fl_def Let_def)
  next
    case False
    with binary_exponent_mono [OF pos(1) assms] have "binary_exponent x + 1 \<le> binary_exponent y" by simp
    then have "(2 powi (binary_exponent x + 1) :: rat) \<le> 2 powi binary_exponent y" by (rule powi_mono_rat)
    then show ?thesis using fl_binade(2) [OF pos(1)] fl_binade(1) [OF pos(2)] by linarith
  qed
qed

lemma fl_relative_error:
  assumes "0 \<le> x"
  shows "\<bar>fl x - x\<bar> \<le> x / 2 ^ 53"
proof (cases "x = 0")
  case False
  then have pos: "0 < x" using assms by simp
  let ?u = "2 powi (binary_exponent x - 52) :: rat"
  have "\<bar>of_int (round_half_even (x / ?u)) - x / ?u\<bar> * ?u \<le> 1 / 2 * ?u"
    by (intro mult_right_mono round_half_even_bounds) simp
  moreover have "\<bar>of_int (round_half_even (x / ?u)) - x / ?u\<bar> * ?u
      = \<bar>(of_int (round_half_even (x / ?u)) - x / ?u) * ?u\<bar>"
    by (simp add: abs_mult)
  moreover have "(of_int (round_half_even (x / ?u)) - x / ?u) * ?u = fl x - x"
    using pos by (simp add: fl_def Let_def left_diff_distrib)
  ultimately have "\<bar>fl x - x\<bar> \<le> ?u / 2" by simp
  moreover have "?u / 2 = 2 powi binary_exponent x / 2 ^ 53"
    by (simp add: powi_diff_rat)
  ultimately show ?thesis
    using binary_exponent_bounds(1) [OF pos] by (simp add: field_simps)
qed (simp add: fl_def)

lemma fl_of_nat:
  assumes "n < 2 ^ 53"
  shows "fl (of_nat n) = of_nat n"
proof (cases "n = 0")
  case False
  let ?x = "of_nat n :: rat" and ?e = "binary_exponent (of_nat n)"
  have pos: "0 < ?x" using False by simp
  have "?x < 2 ^ 53" using assms by (metis of_nat_less_iff of_nat_numeral of_nat_power)
  then have "?x < 2 powi 53" by simp
  then have "2 powi ?e < (2 powi 53 :: rat)"
    using binary_exponent_bounds(1) [OF pos] by linarith
  then have e: "?e \<le> 52"
    using powi_mono_rat [of 53 ?e] by linarith
  define k where "k = nat (52 - ?e)"
  have k: "?e - 52 = - int k" using e by (simp add: k_def)
  have u: "(2::rat) powi (?e - 52) = 1 / 2 ^ k"
    unfolding k by (simp add: power_int_minus divide_inverse)
  have "?x / (1 / 2 ^ k) = of_int (int n * 2 ^ k)" by simp
  then have "round_half_even (?x / (1 / 2 ^ k)) = int n * 2 ^ k"
    by (simp only: round_half_even_of_int)
  then show ?thesis
    using pos by (simp add: fl_def u Let_def)
qed simp

subsection \<open>The clock\<close>

record clock_info =
  ci_name :: string
  ci_frequency :: u64

text \<open>
  The two builds. On Windows the frequency is what \<open>QueryPerformanceFrequency\<close> stores, a signed
  64-bit number, and whether it succeeded; on POSIX a tick is a nanosecond. \<open>now\<close> reinterprets
  the signed number that either source gives.
\<close>

datatype clock_build = WindowsBuild | PosixBuild

definition construct_clock :: "clock_build \<Rightarrow> bool \<Rightarrow> int \<Rightarrow> string + u64" where
  "construct_clock build queried quad_part =
     (case build of
        WindowsBuild \<Rightarrow>
          if \<not> queried \<or> quad_part \<le> 0 then Inl ''QueryPerformanceFrequency failed''
          else Inr (word_of_int quad_part)
      | PosixBuild \<Rightarrow> Inr 1000000000)"

definition clock_now :: "int \<Rightarrow> u64" where
  "clock_now ticks = word_of_int ticks"

definition clock_info_of :: "clock_build \<Rightarrow> u64 \<Rightarrow> clock_info" where
  "clock_info_of build frequency =
     (case build of
        WindowsBuild \<Rightarrow> \<lparr>ci_name = ''QueryPerformanceCounter'', ci_frequency = frequency\<rparr>
      | PosixBuild \<Rightarrow> \<lparr>ci_name = ''std::chrono::steady_clock(test-host)'', ci_frequency = frequency\<rparr>)"

text \<open>A clock that has been constructed never divides by zero.\<close>

lemma constructed_frequency:
  assumes "construct_clock build queried quad_part = Inr frequency" "in_i64 quad_part"
  shows "0 < frequency"
proof (cases build)
  case WindowsBuild
  with assms have "frequency = word_of_int quad_part" "0 < quad_part" "quad_part < 2 ^ 63"
    by (auto simp: construct_clock_def in_i64_def split: if_splits)
  then have "uint frequency = quad_part" by (simp add: uint_word_of_int_eq take_bit_int_eq_self)
  with \<open>0 < quad_part\<close> show ?thesis by (simp add: word_less_def)
qed (use assms in \<open>simp add: construct_clock_def\<close>)

definition seconds_between :: "u64 \<Rightarrow> u64 \<Rightarrow> u64 \<Rightarrow> rat" where
  "seconds_between frequency earlier later =
     (if later < earlier then 0
      else fl (fl (of_nat (unat (later - earlier))) / fl (of_nat (unat frequency))))"

lemma of_nat_unat_uint: "of_nat (unat w) = (of_int (uint w) :: rat)"
  by (simp only: uint_nat of_int_of_nat_eq)

lemma seconds_between_code [code]:
  "seconds_between frequency earlier later =
     (if later < earlier then 0
      else fl (fl (of_int (uint (later - earlier))) / fl (of_int (uint frequency))))"
  by (simp only: seconds_between_def of_nat_unat_uint)

text \<open>\<open>static_cast<std::uint64_t>(seconds * 1'000'000.0)\<close> truncates.\<close>

definition relative_us_of :: "u64 \<Rightarrow> u64 \<Rightarrow> u64 \<Rightarrow> u64" where
  "relative_us_of frequency start_tick tick =
     word_of_int \<lfloor>fl (seconds_between frequency start_tick tick * 1000000)\<rfloor>"

text \<open>Nothing is rounded up to the session start, which evaluation need not find out.\<close>

lemma relative_us_of_code [code]:
  "relative_us_of frequency start_tick tick =
     (if tick \<le> start_tick then 0
      else word_of_int \<lfloor>fl (seconds_between frequency start_tick tick * 1000000)\<rfloor>)"
  by (cases "tick = start_tick") (auto simp: relative_us_of_def seconds_between_def)

subsection \<open>Accuracy\<close>

definition session_double :: "u64 \<Rightarrow> u64 \<Rightarrow> u64 \<Rightarrow> rat" where
  "session_double frequency start_tick tick =
     fl (seconds_between frequency start_tick tick * 1000000)"

definition exact_us :: "u64 \<Rightarrow> u64 \<Rightarrow> u64 \<Rightarrow> rat" where
  "exact_us frequency start_tick tick =
     of_nat (unat (tick - start_tick)) * 1000000 / of_nat (unat frequency)"

lemma unat_lt_len: "unat (w :: u64) < 2 ^ 64"
proof -
  have "unat w < 2 ^ LENGTH(64)" by (rule unsigned_less)
  then show ?thesis by simp
qed

lemma fl_bounds:
  assumes "0 \<le> x"
  shows "x * (1 - 1 / 2 ^ 53) \<le> fl x" "fl x \<le> x * (1 + 1 / 2 ^ 53)"
proof -
  have "fl x - x \<le> x / 2 ^ 53" "x - fl x \<le> x / 2 ^ 53"
    using fl_relative_error [OF assms] by linarith+
  then show "x * (1 - 1 / 2 ^ 53) \<le> fl x" "fl x \<le> x * (1 + 1 / 2 ^ 53)"
    by (simp_all add: field_simps)
qed

lemma binary_exponent_unique:
  assumes "2 powi e \<le> x" "x < 2 powi (e + 1)"
  shows "binary_exponent x = e"
proof -
  have pos: "0 < x" using assms(1) powi_pos_rat [of e] by linarith
  note b = binary_exponent_bounds [OF pos]
  have "\<not> binary_exponent x + 1 \<le> e"
    using powi_mono_rat [of "binary_exponent x + 1" e] b assms by linarith
  moreover have "\<not> e + 1 \<le> binary_exponent x"
    using powi_mono_rat [of "e + 1" "binary_exponent x"] b assms by linarith
  ultimately show ?thesis by linarith
qed

lemma round_half_even_nearest:
  assumes "\<bar>of_int m - x\<bar> < 1 / 2"
  shows "round_half_even x = m"
proof -
  have "\<bar>of_int (round_half_even x) - x\<bar> \<le> 1 / 2" by (rule round_half_even_bounds)
  with assms have "\<bar>(of_int (round_half_even x) :: rat) - of_int m\<bar> < 1" by linarith
  then show ?thesis by linarith
qed

text \<open>The value of one rounding, with the significand and the exponent given.\<close>

lemma fl_eqI:
  assumes "2 powi (e + 52) \<le> x" "x < 2 powi (e + 53)" "\<bar>of_int m - x / 2 powi e\<bar> < 1 / 2"
  shows "fl x = of_int m * 2 powi e"
proof -
  have "binary_exponent x = e + 52"
    by (rule binary_exponent_unique) (use assms in \<open>simp_all add: add.assoc\<close>)
  moreover have "0 < x" using assms(1) powi_pos_rat [of "e + 52"] by linarith
  ultimately show ?thesis
    using round_half_even_nearest [OF assms(3)] by (simp add: fl_def Let_def)
qed

lemma session_double_bounds:
  assumes "start_tick \<le> tick" "0 < unat frequency"
  shows "exact_us frequency start_tick tick * (1 - 1 / 2 ^ 50) \<le> session_double frequency start_tick tick"
    and "session_double frequency start_tick tick \<le> exact_us frequency start_tick tick * (1 + 1 / 2 ^ 50)"
proof -
  define e where "e = (1 :: rat) / 2 ^ 53"
  define d where "d = (of_nat (unat (tick - start_tick)) :: rat)"
  define f where "f = (of_nat (unat frequency) :: rat)"
  define x where "x = d * 1000000 / f"
  have e: "0 < e" "e < 1" by (simp_all add: e_def)
  have d0: "0 \<le> d" unfolding d_def by (rule of_nat_0_le_iff)
  have f0: "0 < f" unfolding f_def using assms(2) by (simp only: of_nat_0_less_iff)
  have x0: "0 \<le> x" using d0 f0 by (simp add: x_def)
  have fd: "d * (1 - e) \<le> fl d" "fl d \<le> d * (1 + e)" and ff: "f * (1 - e) \<le> fl f" "fl f \<le> f * (1 + e)"
    using fl_bounds [OF d0] fl_bounds [of f] f0 by (simp_all add: e_def)
  have f1: "0 < f * (1 - e)" using f0 e by simp
  have flf: "0 < fl f" using ff(1) f1 by linarith
  have q: "d * (1 - e) / (f * (1 + e)) \<le> fl d / fl f" "fl d / fl f \<le> d * (1 + e) / (f * (1 - e))"
    using fd ff f1 flf d0 e f0 by (auto intro!: frac_le mult_nonneg_nonneg)
  define q where "q = fl d / fl f"
  have q0: "0 \<le> q" by (simp add: q_def)
  have s: "q * (1 - e) \<le> fl q" "fl q \<le> q * (1 + e)"
    using fl_bounds [OF q0] by (simp_all add: e_def)
  have s1: "d * (1 - e) / (f * (1 + e)) * (1 - e) \<le> fl q"
    using s(1) mult_right_mono [OF q(1) [folded q_def], of "1 - e"] e by linarith
  have s2: "fl q \<le> d * (1 + e) / (f * (1 - e)) * (1 + e)"
    using s(2) mult_right_mono [OF q(2) [folded q_def], of "1 + e"] e by linarith
  have y: "fl q * 1000000 * (1 - e) \<le> fl (fl q * 1000000)" "fl (fl q * 1000000) \<le> fl q * 1000000 * (1 + e)"
    using fl_bounds [of "fl q * 1000000"] by (simp_all add: e_def)
  have y': "session_double frequency start_tick tick = fl (fl q * 1000000)"
    using leD [OF assms(1)] by (simp add: session_double_def seconds_between_def q_def d_def f_def)
  have ex: "exact_us frequency start_tick tick = x"
    by (simp only: exact_us_def x_def d_def f_def)
  have "d * (1 + e) / (f * (1 - e)) * (1 + e) * 1000000 * (1 + e) = x * ((1 + e) ^ 3 / (1 - e))"
    using f0 e by (simp add: x_def field_simps power3_eq_cube)
  moreover have "fl q * 1000000 * (1 + e) \<le> d * (1 + e) / (f * (1 - e)) * (1 + e) * 1000000 * (1 + e)"
    using s2 e by (intro mult_right_mono) simp_all
  moreover have "(1 + e) ^ 3 / (1 - e) \<le> 1 + 1 / 2 ^ 50" by (simp add: e_def power_divide)
  then have "x * ((1 + e) ^ 3 / (1 - e)) \<le> x * (1 + 1 / 2 ^ 50)" using x0 by (rule mult_left_mono)
  ultimately show "session_double frequency start_tick tick \<le> exact_us frequency start_tick tick * (1 + 1 / 2 ^ 50)"
    unfolding ex y' using y(2) by linarith
  have "d * (1 - e) / (f * (1 + e)) * (1 - e) * 1000000 * (1 - e) = x * ((1 - e) ^ 3 / (1 + e))"
    using f0 e by (simp add: x_def field_simps power3_eq_cube)
  moreover have "d * (1 - e) / (f * (1 + e)) * (1 - e) * 1000000 * (1 - e) \<le> fl q * 1000000 * (1 - e)"
    using s1 e by (intro mult_right_mono) simp_all
  moreover have "1 - 1 / 2 ^ 50 \<le> (1 - e) ^ 3 / (1 + e)" by (simp add: e_def power_divide)
  then have "x * (1 - 1 / 2 ^ 50) \<le> x * ((1 - e) ^ 3 / (1 + e))" using x0 by (rule mult_left_mono)
  ultimately show "exact_us frequency start_tick tick * (1 - 1 / 2 ^ 50) \<le> session_double frequency start_tick tick"
    unfolding ex y' using y(1) by linarith
qed

lemma session_double_mono:
  assumes "a \<le> b"
  shows "session_double frequency start_tick a \<le> session_double frequency start_tick b"
proof (cases "a < start_tick")
  case True
  then show ?thesis by (simp add: session_double_def seconds_between_def)
next
  case False
  then have "unat (a - start_tick) \<le> unat (b - start_tick)"
    using assms by (simp add: unat_sub not_less word_le_nat_alt diff_le_mono)
  then have "fl (of_nat (unat (a - start_tick))) \<le> fl (of_nat (unat (b - start_tick)))"
    by (intro fl_mono) (simp only: of_nat_le_iff)
  then have "fl (of_nat (unat (a - start_tick))) / fl (of_nat (unat frequency))
      \<le> fl (of_nat (unat (b - start_tick))) / fl (of_nat (unat frequency))"
    by (rule divide_right_mono) (rule fl_nonneg)
  moreover have "\<not> b < start_tick" using False assms by (simp add: not_less)
  ultimately have "seconds_between frequency start_tick a \<le> seconds_between frequency start_tick b"
    unfolding seconds_between_def using False by (simp only: if_False) (rule fl_mono)
  then show ?thesis unfolding session_double_def by (intro fl_mono) simp
qed

text \<open>Frequencies of at least two ticks per microsecond keep the session time inside 64 bits.\<close>

lemma session_double_in_range:
  assumes "2000000 \<le> unat frequency"
  shows "session_double frequency start_tick tick < 2 ^ 64"
proof (cases "tick < start_tick")
  case True
  then show ?thesis by (simp add: session_double_def seconds_between_def)
next
  case False
  have f: "(2000000 :: rat) \<le> of_nat (unat frequency)"
    using assms by (metis of_nat_le_iff of_nat_numeral)
  have "unat (tick - start_tick) < 2 ^ 64"
    using unat_lt_len [of "tick - start_tick"] by simp
  then have d: "(of_nat (unat (tick - start_tick)) :: rat) \<le> 2 ^ 64"
    by (metis less_imp_le of_nat_le_iff of_nat_numeral of_nat_power)
  have "exact_us frequency start_tick tick \<le> 2 ^ 64 * 1000000 / 2000000"
    unfolding exact_us_def using f d by (intro frac_le mult_right_mono) simp_all
  then have "exact_us frequency start_tick tick * (1 + 1 / 2 ^ 50) \<le> 2 ^ 63 * (1 + 1 / 2 ^ 50)"
    by (intro mult_right_mono) simp_all
  moreover have "(2 :: rat) ^ 63 * (1 + 1 / 2 ^ 50) < 2 ^ 64" by simp
  ultimately show ?thesis
    using session_double_bounds(2) [of start_tick tick frequency] False assms
    by (simp add: not_less del: power_numeral)
qed

lemma unat_relative_us:
  assumes "2000000 \<le> unat frequency"
  shows "uint (relative_us_of frequency start_tick tick) = \<lfloor>session_double frequency start_tick tick\<rfloor>"
proof -
  have "0 \<le> session_double frequency start_tick tick" by (simp add: session_double_def)
  moreover have "\<lfloor>session_double frequency start_tick tick\<rfloor> < 2 ^ 64"
    using session_double_in_range [OF assms, of start_tick tick] by (simp add: floor_less_iff)
  ultimately show ?thesis
    by (simp add: relative_us_of_def session_double_def uint_word_of_int_eq take_bit_int_eq_self)
qed

text \<open>
  Session time is monotone in the tick and zero up to the session start: observations
  that were made later never get an earlier time stamp, through all three roundings of the
  \<open>double\<close> computation.
\<close>

theorem session_time_monotone:
  assumes "2000000 \<le> unat frequency" "a \<le> b"
  shows "relative_us_of frequency start_tick a \<le> relative_us_of frequency start_tick b
     \<and> relative_us_of frequency start_tick (min a start_tick) = 0"
proof -
  have "\<lfloor>session_double frequency start_tick a\<rfloor> \<le> \<lfloor>session_double frequency start_tick b\<rfloor>"
    using session_double_mono [OF assms(2)] by (rule floor_mono)
  then have "relative_us_of frequency start_tick a \<le> relative_us_of frequency start_tick b"
    by (simp only: word_le_def unat_relative_us [OF assms(1)])
  moreover have "fl 0 = 0" by (simp add: fl_def)
  then have "relative_us_of frequency start_tick (min a start_tick) = 0"
    by (simp add: relative_us_of_def seconds_between_def min_def)
  ultimately show ?thesis ..
qed

theorem session_time_monotone_witness:
  "relative_us_of 1000000000 500 1000 \<le> relative_us_of 1000000000 500 2000000"
  using session_time_monotone [of 1000000000 1000 2000000 500] by simp

text \<open>
  C40: For a clock of at least 2 MHz and a tick not before the start the recorded time is the exact number of microseconds up to a relative error of
  \<open>2\<^sup>-\<^sup>5\<^sup>0\<close> and the truncation: it is at most the exact time plus that error, and less than one
  microsecond below the exact time minus that error.
\<close>

theorem session_time_accurate:
  assumes "2000000 \<le> unat frequency" "start_tick \<le> tick"
  shows "of_int (uint (relative_us_of frequency start_tick tick))
       \<le> exact_us frequency start_tick tick * (1 + 1 / 2 ^ 50)
     \<and> exact_us frequency start_tick tick * (1 - 1 / 2 ^ 50) - 1
       < of_int (uint (relative_us_of frequency start_tick tick))"
proof -
  have "0 < unat frequency" using assms(1) by simp
  note b = session_double_bounds [OF assms(2) this]
  have "of_int \<lfloor>session_double frequency start_tick tick\<rfloor> \<le> session_double frequency start_tick tick"
    "session_double frequency start_tick tick < of_int \<lfloor>session_double frequency start_tick tick\<rfloor> + 1"
    by linarith+
  with b show ?thesis unfolding unat_relative_us [OF assms(1)] by linarith
qed

theorem session_time_accurate_witness:
  "of_int (uint (relative_us_of 1000000000 0 249000)) \<le> exact_us 1000000000 0 249000 * (1 + 1 / 2 ^ 50)"
  using session_time_accurate [of 1000000000 0 249000] by simp

text \<open>
  The truncation loses a whole microsecond where the exact time is a whole number: after
  249 microseconds of a 10 MHz counter the session time is 248, because 2490 / 10000000 rounds
  down and the product with a million is truncated.
\<close>

theorem session_time_off_by_one:
  "exact_us 10000000 0 2490 = 249 \<and> relative_us_of 10000000 0 2490 = 248"
proof -
  have ticks: "fl 2490 = 2490" "fl 10000000 = 10000000"
    using fl_eqI [of "- 41" 2490 5475567906324480] fl_eqI [of "- 29" 10000000 5368709120000000]
    by (simp_all add: power_int_def power_one_over)
  have quot: "fl (2490 / 10000000) = of_int 4593239274353678 * 2 powi (- 64)"
    by (rule fl_eqI) (simp_all add: power_int_def power_one_over)
  have prod: "fl (of_int 4593239274353678 * 2 powi (- 64) * 1000000) = of_int 8760908650119167 * 2 powi (- 45)"
    by (rule fl_eqI) (simp_all add: power_int_def power_one_over)
  have trunc: "\<lfloor>(of_int 8760908650119167 * 2 powi (- 45) :: rat)\<rfloor> = 248"
    by (simp add: power_int_def power_one_over floor_eq_iff)
  have "seconds_between 10000000 0 2490 = fl (2490 / 10000000)"
    by (simp add: seconds_between_def ticks)
  then have "relative_us_of 10000000 0 2490 = word_of_int 248"
    by (simp only: relative_us_of_def quot prod trunc)
  then show ?thesis by (simp add: exact_us_def)
qed

end
