(* ===== verification/Supplementary.thy ===== *)
theory Supplementary
  imports Prelude
begin

text \<open>
  Supplementary team counts: \<open>include/cspromator/supplementary_state.hpp\<close> and
  \<open>src/supplementary_state.cpp\<close>.
\<close>

datatype source_kind = Unknown | Synthetic | Replay | PanoramaVisibleState

record team_counts =
  tc_ct_alive :: "i32 option"
  tc_t_alive :: "i32 option"
  tc_ct_total :: "i32 option"
  tc_t_total :: "i32 option"

record snapshot =
  sn_sequence :: u64
  sn_observed_tick :: u64
  sn_relative_us :: u64
  sn_roster_revision :: "u64 option"
  sn_source :: source_kind
  sn_teams :: team_counts

record perspective_counts =
  pc_local_alive :: "i32 option"
  pc_enemy_alive :: "i32 option"
  pc_local_total :: "i32 option"
  pc_enemy_total :: "i32 option"

fun source_to_string :: "source_kind \<Rightarrow> string" where
  "source_to_string Unknown = ''unknown''"
| "source_to_string Synthetic = ''synthetic''"
| "source_to_string Replay = ''replay''"
| "source_to_string PanoramaVisibleState = ''panorama-visible-state''"

definition source_from_string :: "string \<Rightarrow> source_kind option" where
  "source_from_string v =
     (if v = ''unknown'' then Some Unknown
      else if v = ''synthetic'' then Some Synthetic
      else if v = ''replay'' then Some Replay
      else if v = ''panorama-visible-state'' then Some PanoramaVisibleState
      else None)"

definition valid_nonnegative :: "i32 option \<Rightarrow> bool" where
  "valid_nonnegative v \<longleftrightarrow> v = None \<or> opt_holds (\<lambda>i. i \<ge> 0) v"

definition alive_fits_total :: "i32 option \<Rightarrow> i32 option \<Rightarrow> bool" where
  "alive_fits_total alive total_count \<longleftrightarrow>
     alive = None \<or> total_count = None \<or> opt_rel (\<lambda>a t. a \<le> t) alive total_count"

definition valid_team_counts :: "team_counts \<Rightarrow> bool" where
  "valid_team_counts c \<longleftrightarrow>
     valid_nonnegative (tc_ct_alive c)
     \<and> valid_nonnegative (tc_t_alive c)
     \<and> valid_nonnegative (tc_ct_total c)
     \<and> valid_nonnegative (tc_t_total c)
     \<and> alive_fits_total (tc_ct_alive c) (tc_ct_total c)
     \<and> alive_fits_total (tc_t_alive c) (tc_t_total c)"

definition perspective_for_team :: "team_counts \<Rightarrow> string \<Rightarrow> perspective_counts option" where
  "perspective_for_team c local_team =
     (if \<not> valid_team_counts c then None
      else if local_team = ''CT'' then
        Some \<lparr>pc_local_alive = tc_ct_alive c, pc_enemy_alive = tc_t_alive c,
              pc_local_total = tc_ct_total c, pc_enemy_total = tc_t_total c\<rparr>
      else if local_team = ''T'' then
        Some \<lparr>pc_local_alive = tc_t_alive c, pc_enemy_alive = tc_ct_alive c,
              pc_local_total = tc_t_total c, pc_enemy_total = tc_ct_total c\<rparr>
      else None)"

lemma valid_nonnegative_simps [simp]: "valid_nonnegative None" "valid_nonnegative (Some i) \<longleftrightarrow> 0 \<le> i"
  by (simp_all add: valid_nonnegative_def)

lemma alive_fits_total_simps [simp]:
  "alive_fits_total None t" "alive_fits_total a None" "alive_fits_total (Some i) (Some j) \<longleftrightarrow> i \<le> j"
  by (simp_all add: alive_fits_total_def)

lemma source_roundtrip [simp]: "source_from_string (source_to_string k) = Some k"
  by (cases k) (simp_all add: source_from_string_def)

lemma source_from_string_Some: "source_from_string v = Some k \<Longrightarrow> v = source_to_string k"
  by (auto simp: source_from_string_def split: if_splits)

text \<open>Counts of one team as seen from the other: the two sides are exchanged.\<close>

definition swap_perspective :: "perspective_counts \<Rightarrow> perspective_counts" where
  "swap_perspective p = \<lparr>
     pc_local_alive = pc_enemy_alive p, pc_enemy_alive = pc_local_alive p,
     pc_local_total = pc_enemy_total p, pc_enemy_total = pc_local_total p\<rparr>"

lemma perspective_swap:
  "perspective_for_team c ''T'' = map_option swap_perspective (perspective_for_team c ''CT'')"
  by (simp add: perspective_for_team_def swap_perspective_def)

lemma perspective_bounds:
  assumes "perspective_for_team c team = Some p"
  shows "pc_enemy_alive p = Some a \<Longrightarrow> 0 \<le> a"
    and "pc_local_alive p = Some b \<Longrightarrow> 0 \<le> b"
    and "pc_enemy_total p = Some t \<Longrightarrow> 0 \<le> t"
    and "pc_enemy_alive p = Some a \<Longrightarrow> pc_enemy_total p = Some t \<Longrightarrow> a \<le> t"
    and "pc_local_alive p = Some b \<Longrightarrow> pc_local_total p = Some u \<Longrightarrow> b \<le> u"
  using assms
  by (auto simp: perspective_for_team_def valid_team_counts_def split: if_splits)

end
