(* ===== verification/Transducer.thy ===== *)
theory Transducer
  imports Prelude
begin

text \<open>
  Machines that consume one input at a time and answer with a list of outputs. The event
  detector, the semantic resolver and the live pipeline have this shape. Two contracts are
  stated as locales: \<open>transducer\<close>, an invariant that every step keeps and that every
  output satisfies a predicate under, and \<open>monitored\<close>, a simulation by a small automaton
  that reads the outputs (as a relation in \<open>simulated\<close>); both lift from single steps to whole runs.
\<close>

fun run :: "('s \<Rightarrow> 'i \<Rightarrow> 'o list \<times> 's) \<Rightarrow> 's \<Rightarrow> 'i list \<Rightarrow> 'o list \<times> 's" where
  "run step s [] = ([], s)"
| "run step s (x # xs) =
     (let (os, s1) = step s x; (os', s2) = run step s1 xs in (os @ os', s2))"

lemma run_append:
  "run step s (xs @ ys) =
     (let (os, s1) = run step s xs; (os', s2) = run step s1 ys in (os @ os', s2))"
  by (induction xs arbitrary: s) (simp_all add: Let_def split: prod.splits)

lemma run_snoc:
  "run step s (xs @ [x]) =
     (let (os, s1) = run step s xs; (os', s2) = step s1 x in (os @ os', s2))"
  by (simp add: run_append Let_def split: prod.splits)

fun monitor_run :: "('m \<Rightarrow> 'o \<Rightarrow> 'm option) \<Rightarrow> 'm \<Rightarrow> 'o list \<Rightarrow> 'm option" where
  "monitor_run mon m [] = Some m"
| "monitor_run mon m (e # es) =
     (case mon m e of None \<Rightarrow> None | Some m' \<Rightarrow> monitor_run mon m' es)"

lemma monitor_run_append:
  "monitor_run mon m (xs @ ys) =
     (case monitor_run mon m xs of None \<Rightarrow> None | Some m' \<Rightarrow> monitor_run mon m' ys)"
  by (induction xs arbitrary: m) (auto split: option.splits)

lemma monitor_run_append_Some:
  "monitor_run mon m xs = Some m' \<Longrightarrow> monitor_run mon m (xs @ ys) = monitor_run mon m' ys"
  by (simp add: monitor_run_append)

locale transducer =
  fixes step :: "'s \<Rightarrow> 'i \<Rightarrow> 'o list \<times> 's"
    and inv :: "'s \<Rightarrow> bool"
    and ok_in :: "'i \<Rightarrow> bool"
    and ok_out :: "'o \<Rightarrow> bool"
  assumes step_inv: "inv s \<Longrightarrow> ok_in x \<Longrightarrow> inv (snd (step s x))"
    and step_out: "inv s \<Longrightarrow> ok_in x \<Longrightarrow> list_all ok_out (fst (step s x))"
begin

lemma run_inv_out:
  "inv s \<Longrightarrow> list_all ok_in xs \<Longrightarrow> inv (snd (run step s xs)) \<and> list_all ok_out (fst (run step s xs))"
proof (induction xs arbitrary: s)
  case (Cons x xs)
  then show ?case
    using step_inv [of s x] step_out [of s x] Cons.IH [of "snd (step s x)"]
    by (simp add: Let_def case_prod_beta)
qed simp

lemma run_inv: "inv s \<Longrightarrow> list_all ok_in xs \<Longrightarrow> inv (snd (run step s xs))"
  using run_inv_out by blast

lemma run_out: "inv s \<Longrightarrow> list_all ok_in xs \<Longrightarrow> e \<in> set (fst (run step s xs)) \<Longrightarrow> ok_out e"
  using run_inv_out [of s xs] by (auto simp: list_all_iff)

end

locale simulated =
  fixes step :: "'s \<Rightarrow> 'i \<Rightarrow> 'o list \<times> 's"
    and ok_in :: "'i \<Rightarrow> bool"
    and mon :: "'m \<Rightarrow> 'o \<Rightarrow> 'm option"
    and rel :: "'s \<Rightarrow> 'm \<Rightarrow> bool"
  assumes sim_step: "rel s m \<Longrightarrow> ok_in x \<Longrightarrow>
      \<exists>m'. monitor_run mon m (fst (step s x)) = Some m' \<and> rel (snd (step s x)) m'"
begin

lemma sim_run:
  "rel s m \<Longrightarrow> list_all ok_in xs \<Longrightarrow>
     \<exists>m'. monitor_run mon m (fst (run step s xs)) = Some m' \<and> rel (snd (run step s xs)) m'"
proof (induction xs arbitrary: s m)
  case (Cons x xs)
  from Cons.prems obtain m1 where m1: "monitor_run mon m (fst (step s x)) = Some m1"
    and rel1: "rel (snd (step s x)) m1"
    using sim_step [of s m x] by auto
  from Cons.IH [OF rel1] Cons.prems(2) obtain m2
    where "monitor_run mon m1 (fst (run step (snd (step s x)) xs)) = Some m2"
      and "rel (snd (run step (snd (step s x)) xs)) m2"
    by auto
  with m1 show ?case
    by (simp add: Let_def case_prod_beta monitor_run_append)
qed simp

lemma sim_accepted: "rel s m \<Longrightarrow> list_all ok_in xs \<Longrightarrow> monitor_run mon m (fst (run step s xs)) \<noteq> None"
  using sim_run by fastforce

end

locale monitored =
  fixes step :: "'s \<Rightarrow> 'i \<Rightarrow> 'o list \<times> 's"
    and inv :: "'s \<Rightarrow> bool"
    and ok_in :: "'i \<Rightarrow> bool"
    and mon :: "'m \<Rightarrow> 'o \<Rightarrow> 'm option"
    and absm :: "'s \<Rightarrow> 'm"
  assumes mon_inv: "inv s \<Longrightarrow> ok_in x \<Longrightarrow> inv (snd (step s x))"
    and mon_step: "inv s \<Longrightarrow> ok_in x \<Longrightarrow>
      monitor_run mon (absm s) (fst (step s x)) = Some (absm (snd (step s x)))"
begin

text \<open>A machine whose state determines the automaton's state simulates it.\<close>

sublocale simulated step ok_in mon "\<lambda>s m. inv s \<and> m = absm s"
  by unfold_locales (auto simp: mon_inv mon_step)

lemma mon_run:
  "inv s \<Longrightarrow> list_all ok_in xs \<Longrightarrow>
     monitor_run mon (absm s) (fst (run step s xs)) = Some (absm (snd (run step s xs)))"
  using sim_run [of s "absm s" xs] by auto

end

end
