(* ===== verification/Fifo_Worker.thy ===== *)
theory Fifo_Worker
  imports Transducer
begin

text \<open>
  The contract of a queue that clients fill under a lock and one worker thread empties: what
  was accepted is what was handled followed by what is still in flight, and the worker's
  memory and outputs are those of handling the items one after the other. What is remembered
  of a handled item may hold more than the item (the tick at which it was persisted): \<open>origin\<close>
  is the item it came from. The live pipeline and the session recorder both keep the contract;
  \<open>ok\<close> excludes the states after a failure in which the class loses accepted items.
\<close>

locale fifo_worker =
  fixes step :: "'s \<Rightarrow> 's \<Rightarrow> bool"
    and initial :: "'s"
    and accepted :: "'s \<Rightarrow> 'i list"
    and handled :: "'s \<Rightarrow> 'h list"
    and origin :: "'h \<Rightarrow> 'i"
    and in_flight :: "'s \<Rightarrow> 'i list"
    and memory :: "'s \<Rightarrow> 'w"
    and outputs :: "'s \<Rightarrow> 'o list"
    and work :: "'w \<Rightarrow> 'h \<Rightarrow> 'o list \<times> 'w"
    and ok :: "'s \<Rightarrow> bool"
  assumes initial_empty: "accepted initial = []" "handled initial = []" "in_flight initial = []"
      "outputs initial = []"
    and ok_back: "step s s' \<Longrightarrow> ok s' \<Longrightarrow> ok s"
    and conserve: "step s s' \<Longrightarrow> ok s' \<Longrightarrow>
      (\<exists>new. accepted s' = accepted s @ new \<and> 
        in_flight s @ new = map origin (drop (length (handled s)) (handled s')) @ in_flight s')"
    and progress: "step s s' \<Longrightarrow> ok s' \<Longrightarrow>
      handled s' = handled s \<and> memory s' = memory s \<and> outputs s' = outputs s
      \<or> (\<exists>i. handled s' = handled s @ [i] \<and> memory s' = snd (work (memory s) i)
           \<and> outputs s' = outputs s @ fst (work (memory s) i))"
begin

lemma reachable_fifo:
  assumes "step\<^sup>*\<^sup>* initial s" "ok s"
  shows "accepted s = map origin (handled s) @ in_flight s \<and>
    run work (memory initial) (handled s) = (outputs s, memory s)"
  using assms
proof (induction rule: rtranclp_induct)
  case (step s s')
  have ok: "ok s" using ok_back [OF step.hyps(2) step.prems] .
  obtain new where new: "accepted s' = accepted s @ new"
    "in_flight s @ new = map origin (drop (length (handled s)) (handled s')) @ in_flight s'"
    using conserve [OF step.hyps(2) step.prems] by blast
  from progress [OF step.hyps(2) step.prems] show ?case
  proof (elim disjE exE conjE)
    fix i
    assume "handled s' = handled s @ [i]" "memory s' = snd (work (memory s) i)"
      "outputs s' = outputs s @ fst (work (memory s) i)"
    then show ?thesis
      using step.IH [OF ok] new by (simp add: run_snoc Let_def case_prod_beta)
  qed (use step.IH [OF ok] new in simp)
qed (simp add: initial_empty)

lemma reachable_ok_back: "step\<^sup>*\<^sup>* s s' \<Longrightarrow> ok s' \<Longrightarrow> ok s"
  by (induction rule: rtranclp_induct) (auto intro: ok_back)

lemma accepted_grows:
  assumes "step\<^sup>*\<^sup>* s s'" "ok s'"
  shows "\<exists>new. accepted s' = accepted s @ new"
  using assms
proof (induction rule: rtranclp_induct)
  case (step s1 s2)
  then obtain new1 where "accepted s1 = accepted s @ new1"
    using ok_back by blast
  moreover obtain new2 where "accepted s2 = accepted s1 @ new2"
    using conserve [OF step.hyps(2) step.prems] by blast
  ultimately show ?case by simp
qed simp

end

end
