(* ===== verification/Recorder.thy ===== *)
theory Recorder
  imports Session_Text Clock Supplementary Fifo_Worker
begin

text \<open>
  Class \<open>SessionRecorder\<close> of \<open>include/cspromator/session.hpp\<close> and \<open>src/session.cpp\<close>: the
  counters, the queue, the two enqueue operations, the persistence worker and the three files
  of a session. A file stream is its contents with the sticky failure bit of \<open>std::ofstream\<close>;
  how many bytes of a write reach the file before it fails, and the tick the clock shows, are
  inputs of a turn of the worker.
\<close>

subsection \<open>Records\<close>

record snapshot_record =
  sr_ingress_order :: u64
  sr_sequence :: u64
  sr_accepted_tick :: u64
  sr_body_complete_tick :: u64
  sr_ack_sent_tick :: u64
  sr_persist_complete_tick :: u64
  sr_relative_us :: u64
  sr_body_offset :: u64
  sr_body_bytes :: u64
  sr_body_filename :: string

record supplementary_record =
  su_ingress_order :: u64
  su_persist_complete_tick :: u64
  su_snapshot :: snapshot

datatype pending_record =
    RecordSnapshot snapshot_record string
  | RecordSupplementary supplementary_record

datatype recorder_error =
    RecorderStopping
  | InvalidTeamCounts
  | TickBeforeStart
  | RawWriteFailed
  | SupplementaryWriteFailed

record ofstream =
  of_contents :: string
  of_bad :: bool

text \<open>A write on a failed stream does nothing; one that fails leaves a part of the text.\<close>

definition of_write :: "nat option \<Rightarrow> ofstream \<Rightarrow> string \<Rightarrow> ofstream" where
  "of_write fails_after f text =
     (if of_bad f then f
      else (case fails_after of
              None \<Rightarrow> f\<lparr>of_contents := of_contents f @ text\<rparr>
            | Some k \<Rightarrow> f\<lparr>of_contents := of_contents f @ take k text, of_bad := True\<rparr>))"

datatype recorder_phase = RecorderWaiting | RecorderBusy pending_record | RecorderDone

text \<open>The last two fields are a history: what was accepted and what was persisted at which tick.\<close>

record recorder =
  rc_frequency :: u64
  rc_start_tick :: u64
  rc_timeline :: ofstream
  rc_raw_stream :: ofstream
  rc_supplementary_timeline :: ofstream
  rc_sequence :: u64
  rc_supplementary_sequence :: u64
  rc_ingress_order :: u64
  rc_raw_offset :: u64
  rc_queue :: "pending_record list"
  rc_stopping :: bool
  rc_stopped :: bool
  rc_worker_error :: "recorder_error option"
  rc_worker :: recorder_phase
  rc_accepted :: "pending_record list"
  rc_persisted :: "(pending_record \<times> u64) list"

definition timeline_header :: string where
  "timeline_header = join_tsv [''ingress_order'', ''sequence'', ''accepted_tick'',
     ''body_complete_tick'', ''ack_sent_tick'', ''persist_complete_tick'', ''relative_us'',
     ''body_offset'', ''body_bytes'']"

definition supplementary_header :: string where
  "supplementary_header = join_tsv [''ingress_order'', ''sequence'', ''observed_tick'',
     ''persist_complete_tick'', ''relative_us'', ''source'', ''roster_revision'',
     ''ct_alive'', ''t_alive'', ''ct_total'', ''t_total'']"

definition opened :: "string \<Rightarrow> ofstream" where
  "opened text = \<lparr>of_contents = text, of_bad = False\<rparr>"

text \<open>What the constructor leaves, once all files of the session are open.\<close>

definition init_recorder :: "u64 \<Rightarrow> u64 \<Rightarrow> recorder" where
  "init_recorder frequency start_tick = \<lparr>
     rc_frequency = frequency, rc_start_tick = start_tick,
     rc_timeline = opened (timeline_header @ [newline]),
     rc_raw_stream = opened [],
     rc_supplementary_timeline = opened (supplementary_header @ [newline]),
     rc_sequence = 0, rc_supplementary_sequence = 0, rc_ingress_order = 0, rc_raw_offset = 0,
     rc_queue = [], rc_stopping = False, rc_stopped = False, rc_worker_error = None,
     rc_worker = RecorderWaiting, rc_accepted = [], rc_persisted = []\<rparr>"

record application_info =
  ai_application :: string
  ai_application_version :: string
  ai_edition :: string

text \<open>The contents of \<open>metadata.json\<close>.\<close>

definition metadata_json :: "application_info \<Rightarrow> clock_info \<Rightarrow> u64 \<Rightarrow> string" where
  "metadata_json app info start_tick =
     ''{'' @ [newline] @
     ''  \"schema_version\": 3,'' @ [newline] @
     ''  \"application\": \"'' @ json_escape (ai_application app) @ ''\",'' @ [newline] @
     ''  \"application_version\": \"'' @ json_escape (ai_application_version app) @ ''\",'' @ [newline] @
     ''  \"edition\": \"'' @ json_escape (ai_edition app) @ ''\",'' @ [newline] @
     ''  \"storage\": \"packed-raw-v1\",'' @ [newline] @
     ''  \"supplementary_storage\": \"tsv-v1\",'' @ [newline] @
     ''  \"clock\": {\"name\": \"'' @ json_escape (ci_name info) @
     ''\", \"frequency\": '' @ u64_to_string (ci_frequency info) @ ''},'' @ [newline] @
     ''  \"start_tick\": '' @ u64_to_string start_tick @ [newline] @
     ''}'' @ [newline]"

subsection \<open>Clients\<close>

definition enqueue_snapshot ::
  "recorder \<Rightarrow> u64 \<Rightarrow> u64 \<Rightarrow> u64 \<Rightarrow> string \<Rightarrow> recorder_error + snapshot_record \<times> recorder" where
  "enqueue_snapshot r accepted_tick body_complete_tick ack_sent_tick body =
     (case rc_worker_error r of
        Some e \<Rightarrow> Inl e
      | None \<Rightarrow>
          if rc_stopping r then Inl RecorderStopping
          else
            (let rec = \<lparr>
                   sr_ingress_order = rc_ingress_order r + 1, sr_sequence = rc_sequence r + 1,
                   sr_accepted_tick = accepted_tick, sr_body_complete_tick = body_complete_tick,
                   sr_ack_sent_tick = ack_sent_tick, sr_persist_complete_tick = 0,
                   sr_relative_us = relative_us_of (rc_frequency r) (rc_start_tick r) body_complete_tick,
                   sr_body_offset = 0, sr_body_bytes = of_nat (length body), sr_body_filename = []\<rparr>
             in Inr (rec, r\<lparr>
                  rc_sequence := rc_sequence r + 1,
                  rc_ingress_order := rc_ingress_order r + 1,
                  rc_queue := rc_queue r @ [RecordSnapshot rec body],
                  rc_accepted := rc_accepted r @ [RecordSnapshot rec body]\<rparr>)))"

definition enqueue_observation ::
  "recorder \<Rightarrow> snapshot \<Rightarrow> recorder_error + supplementary_record \<times> recorder" where
  "enqueue_observation r sn =
     (if \<not> valid_team_counts (sn_teams sn) then Inl InvalidTeamCounts
      else if sn_observed_tick sn < rc_start_tick r then Inl TickBeforeStart
      else
        (case rc_worker_error r of
           Some e \<Rightarrow> Inl e
         | None \<Rightarrow>
             if rc_stopping r then Inl RecorderStopping
             else
               (let rec = \<lparr>
                      su_ingress_order = rc_ingress_order r + 1,
                      su_persist_complete_tick = 0,
                      su_snapshot = sn\<lparr>
                        sn_relative_us :=
                          relative_us_of (rc_frequency r) (rc_start_tick r) (sn_observed_tick sn),
                        sn_sequence := rc_supplementary_sequence r + 1\<rparr>\<rparr>
                in Inr (rec, r\<lparr>
                     rc_supplementary_sequence := rc_supplementary_sequence r + 1,
                     rc_ingress_order := rc_ingress_order r + 1,
                     rc_queue := rc_queue r @ [RecordSupplementary rec],
                     rc_accepted := rc_accepted r @ [RecordSupplementary rec]\<rparr>))))"

text \<open>
  \<open>stop_and_flush\<close> before and after the join. A second call answers without an error.
\<close>

definition recorder_stop_begin :: "recorder \<Rightarrow> recorder" where
  "recorder_stop_begin r = (if rc_stopped r then r else r\<lparr>rc_stopping := True\<rparr>)"

definition recorder_stop_joined :: "recorder \<Rightarrow> recorder_error option \<times> recorder" where
  "recorder_stop_joined r =
     (if rc_stopped r then (None, r) else (rc_worker_error r, r\<lparr>rc_stopped := True\<rparr>))"

subsection \<open>Persistence\<close>

definition timeline_row :: "snapshot_record \<Rightarrow> string" where
  "timeline_row rec = join_tsv (map u64_to_string
     [sr_ingress_order rec, sr_sequence rec, sr_accepted_tick rec, sr_body_complete_tick rec,
      sr_ack_sent_tick rec, sr_persist_complete_tick rec, sr_relative_us rec,
      sr_body_offset rec, sr_body_bytes rec])"

definition supplementary_row :: "supplementary_record \<Rightarrow> string" where
  "supplementary_row rec =
     (let sn = su_snapshot rec; teams = sn_teams sn in
      join_tsv
        [u64_to_string (su_ingress_order rec), u64_to_string (sn_sequence sn),
         u64_to_string (sn_observed_tick sn), u64_to_string (su_persist_complete_tick rec),
         u64_to_string (sn_relative_us sn), source_to_string (sn_source sn),
         optional_u64 (sn_roster_revision sn),
         optional_int (tc_ct_alive teams), optional_int (tc_t_alive teams),
         optional_int (tc_ct_total teams), optional_int (tc_t_total teams)])"

text \<open>What the outside world does during one turn: the tick and the fate of the writes.\<close>

record turn_input =
  ti_now :: u64
  ti_raw_fails :: "nat option"
  ti_timeline_fails :: "nat option"
  ti_supplementary_fails :: "nat option"

text \<open>
  The timeline stream is not tested after its write, only the raw one: when a row of the
  timeline cannot be written the loop goes on.
\<close>

definition persist_snapshot ::
  "turn_input \<Rightarrow> recorder \<Rightarrow> snapshot_record \<Rightarrow> string \<Rightarrow> recorder_error option \<times> recorder" where
  "persist_snapshot ti r rec body =
     (let rec1 = rec\<lparr>sr_body_offset := rc_raw_offset r\<rparr>;
          raw = of_write (ti_raw_fails ti) (rc_raw_stream r) body;
          r1 = r\<lparr>rc_raw_stream := raw\<rparr>
      in if of_bad raw then (Some RawWriteFailed, r1)
         else
           (let rec2 = rec1\<lparr>sr_persist_complete_tick := ti_now ti\<rparr>
            in (None, r1\<lparr>
                  rc_raw_offset := rc_raw_offset r1 + of_nat (length body),
                  rc_timeline := of_write (ti_timeline_fails ti) (rc_timeline r1)
                    (timeline_row rec2 @ [newline])\<rparr>)))"

definition persist_supplementary ::
  "turn_input \<Rightarrow> recorder \<Rightarrow> supplementary_record \<Rightarrow> recorder_error option \<times> recorder" where
  "persist_supplementary ti r rec =
     (let rec1 = rec\<lparr>su_persist_complete_tick := ti_now ti\<rparr>;
          f = of_write (ti_supplementary_fails ti) (rc_supplementary_timeline r)
            (supplementary_row rec1 @ [newline])
      in (if of_bad f then Some SupplementaryWriteFailed else None,
          r\<lparr>rc_supplementary_timeline := f\<rparr>))"

definition persist :: "turn_input \<Rightarrow> recorder \<Rightarrow> pending_record \<Rightarrow> recorder_error option \<times> recorder" where
  "persist ti r pending =
     (case pending of
        RecordSnapshot rec body \<Rightarrow> persist_snapshot ti r rec body
      | RecordSupplementary rec \<Rightarrow> persist_supplementary ti r rec)"

text \<open>
  One turn of the worker; \<open>None\<close> while it waits. A failure ends the loop, keeps the exception,
  stops the recorder and throws away what is still queued.
\<close>

definition recorder_turn :: "turn_input \<Rightarrow> recorder \<Rightarrow> recorder option" where
  "recorder_turn ti r =
     (case rc_worker r of
        RecorderDone \<Rightarrow> None
      | RecorderWaiting \<Rightarrow>
          (case rc_queue r of
             [] \<Rightarrow> if rc_stopping r then Some (r\<lparr>rc_worker := RecorderDone\<rparr>) else None
           | pending # rest \<Rightarrow> Some (r\<lparr>rc_queue := rest, rc_worker := RecorderBusy pending\<rparr>))
      | RecorderBusy pending \<Rightarrow>
          (case persist ti r pending of
             (None, r1) \<Rightarrow>
               Some (r1\<lparr>rc_worker := RecorderWaiting,
                        rc_persisted := rc_persisted r1 @ [(pending, ti_now ti)]\<rparr>)
           | (Some e, r1) \<Rightarrow>
               Some (r1\<lparr>rc_worker := RecorderDone, rc_worker_error := Some e,
                        rc_stopping := True, rc_queue := []\<rparr>)))"

inductive recorder_step :: "recorder \<Rightarrow> recorder \<Rightarrow> bool" where
  step_snapshot: "enqueue_snapshot r accepted_tick body_tick ack_tick body = Inr (rec, r') \<Longrightarrow> recorder_step r r'"
| step_observation: "enqueue_observation r sn = Inr (su, r') \<Longrightarrow> recorder_step r r'"
| step_recorder_stop: "recorder_step r (recorder_stop_begin r)"
| step_recorder_joined:
    "rc_stopping r \<Longrightarrow> rc_worker r = RecorderDone \<Longrightarrow> recorder_step r (snd (recorder_stop_joined r))"
| step_recorder_worker: "recorder_turn ti r = Some r' \<Longrightarrow> recorder_step r r'"

end
