(* ===== verification/Recorder_Facts.thy ===== *)
theory Recorder_Facts
  imports Recorder
begin

text \<open>
  What the three files of a session contain: an abstract description (\<open>stored\<close>) of the rows and
  bodies that a list of persisted records amounts to, the refinement lemma that the worker's
  files hold exactly that, and the numbering of accepted records.
\<close>

subsection \<open>The abstract contents\<close>

record stored =
  st_timeline :: string
  st_raw :: string
  st_supplementary :: string
  st_offset :: u64

definition empty_session :: stored where
  "empty_session = \<lparr>st_timeline = timeline_header @ [newline], st_raw = [],
     st_supplementary = supplementary_header @ [newline], st_offset = 0\<rparr>"

definition finished_snapshot :: "snapshot_record \<Rightarrow> u64 \<Rightarrow> u64 \<Rightarrow> snapshot_record" where
  "finished_snapshot rec offset now =
     rec\<lparr>sr_body_offset := offset, sr_persist_complete_tick := now\<rparr>"

definition finished_observation :: "supplementary_record \<Rightarrow> u64 \<Rightarrow> supplementary_record" where
  "finished_observation rec now = rec\<lparr>su_persist_complete_tick := now\<rparr>"

fun store :: "stored \<Rightarrow> pending_record \<times> u64 \<Rightarrow> unit list \<times> stored" where
  "store f (RecordSnapshot rec body, now) =
     ([], f\<lparr>st_raw := st_raw f @ body,
            st_offset := st_offset f + of_nat (length body),
            st_timeline := st_timeline f @ timeline_row (finished_snapshot rec (st_offset f) now) @ [newline]\<rparr>)"
| "store f (RecordSupplementary rec, now) =
     ([], f\<lparr>st_supplementary :=
            st_supplementary f @ supplementary_row (finished_observation rec now) @ [newline]\<rparr>)"

definition stored_of :: "recorder \<Rightarrow> stored" where
  "stored_of r = \<lparr>st_timeline = of_contents (rc_timeline r), st_raw = of_contents (rc_raw_stream r),
     st_supplementary = of_contents (rc_supplementary_timeline r), st_offset = rc_raw_offset r\<rparr>"

definition recorder_ok :: "recorder \<Rightarrow> bool" where
  "recorder_ok r \<longleftrightarrow> rc_worker_error r = None \<and> \<not> of_bad (rc_timeline r)
     \<and> \<not> of_bad (rc_raw_stream r) \<and> \<not> of_bad (rc_supplementary_timeline r)"

definition rc_in_flight :: "recorder \<Rightarrow> pending_record list" where
  "rc_in_flight r = (case rc_worker r of RecorderBusy p \<Rightarrow> p # rc_queue r | _ \<Rightarrow> rc_queue r)"

lemma of_write_good:
  "\<not> of_bad (of_write k f text) \<Longrightarrow> \<not> of_bad f \<and> of_write k f text = f\<lparr>of_contents := of_contents f @ text\<rparr>"
  by (auto simp: of_write_def split: if_splits option.splits)

lemma of_write_bad: "of_bad f \<Longrightarrow> of_write k f text = f"
  by (simp add: of_write_def)

lemma persist_store:
  assumes "persist ti r pending = (None, r')" "\<not> of_bad (rc_timeline r')"
  shows "stored_of r' = snd (store (stored_of r) (pending, ti_now ti))"
proof (cases pending)
  case (RecordSnapshot rec body)
  with assms show ?thesis
    by (auto simp: persist_def persist_snapshot_def stored_of_def finished_snapshot_def Let_def
        dest!: of_write_good split: if_splits)
next
  case (RecordSupplementary rec)
  with assms show ?thesis
    by (auto simp: persist_def persist_supplementary_def stored_of_def finished_observation_def Let_def
        dest!: of_write_good split: if_splits)
qed

lemma persist_frame:
  assumes "persist ti r pending = (res, r')"
  shows "rc_queue r' = rc_queue r" "rc_accepted r' = rc_accepted r" "rc_persisted r' = rc_persisted r"
    "rc_worker_error r' = rc_worker_error r" "rc_stopping r' = rc_stopping r"
    "rc_ingress_order r' = rc_ingress_order r" "rc_sequence r' = rc_sequence r"
    "rc_supplementary_sequence r' = rc_supplementary_sequence r"
    "rc_start_tick r' = rc_start_tick r" "rc_frequency r' = rc_frequency r"
    "rc_stopped r' = rc_stopped r" "rc_worker r' = rc_worker r"
  using assms
  by (cases pending; auto simp: persist_def persist_snapshot_def persist_supplementary_def Let_def
      split: if_splits)+

lemma persist_bad:
  assumes "persist ti r pending = (None, r')"
  shows "of_bad (rc_timeline r) \<longrightarrow> of_bad (rc_timeline r')"
    "of_bad (rc_raw_stream r) \<longrightarrow> of_bad (rc_raw_stream r')"
    "of_bad (rc_supplementary_timeline r) \<longrightarrow> of_bad (rc_supplementary_timeline r')"
  using assms
  by (cases pending; auto simp: persist_def persist_snapshot_def persist_supplementary_def Let_def
      of_write_bad split: if_splits)+

lemma recorder_turn_cases:
  assumes "recorder_turn ti r = Some r'"
  obtains (exit) "rc_worker r = RecorderWaiting" "rc_queue r = []" "rc_stopping r"
      "r' = r\<lparr>rc_worker := RecorderDone\<rparr>"
  | (take) pending rest where "rc_worker r = RecorderWaiting" "rc_queue r = pending # rest"
      "r' = r\<lparr>rc_queue := rest, rc_worker := RecorderBusy pending\<rparr>"
  | (persisted) pending r1 where "rc_worker r = RecorderBusy pending"
      "persist ti r pending = (None, r1)"
      "r' = r1\<lparr>rc_worker := RecorderWaiting, rc_persisted := rc_persisted r1 @ [(pending, ti_now ti)]\<rparr>"
  | (failed) pending e r1 where "rc_worker r = RecorderBusy pending"
      "persist ti r pending = (Some e, r1)"
      "r' = r1\<lparr>rc_worker := RecorderDone, rc_worker_error := Some e, rc_stopping := True, rc_queue := []\<rparr>"
  using assms
  by (cases "rc_worker r"; cases "rc_queue r")
    (auto simp: recorder_turn_def split: prod.splits option.splits if_splits)

lemma enqueue_snapshot_Inr:
  assumes "enqueue_snapshot r a b k body = Inr (rec, r')"
  shows "rc_worker_error r = None \<and> \<not> rc_stopping r
    \<and> r' = r\<lparr>rc_sequence := rc_sequence r + 1, rc_ingress_order := rc_ingress_order r + 1,
         rc_queue := rc_queue r @ [RecordSnapshot rec body],
         rc_accepted := rc_accepted r @ [RecordSnapshot rec body]\<rparr>
    \<and> sr_ingress_order rec = rc_ingress_order r + 1 \<and> sr_sequence rec = rc_sequence r + 1
    \<and> sr_relative_us rec = relative_us_of (rc_frequency r) (rc_start_tick r) b
    \<and> sr_body_bytes rec = of_nat (length body) \<and> sr_body_filename rec = []"
  using assms by (auto simp: enqueue_snapshot_def Let_def split: option.splits if_splits)

lemma enqueue_observation_Inr:
  assumes "enqueue_observation r sn = Inr (rec, r')"
  shows "rc_worker_error r = None \<and> \<not> rc_stopping r
    \<and> r' = r\<lparr>rc_supplementary_sequence := rc_supplementary_sequence r + 1,
         rc_ingress_order := rc_ingress_order r + 1,
         rc_queue := rc_queue r @ [RecordSupplementary rec],
         rc_accepted := rc_accepted r @ [RecordSupplementary rec]\<rparr>
    \<and> su_ingress_order rec = rc_ingress_order r + 1
    \<and> valid_team_counts (sn_teams sn) \<and> rc_start_tick r \<le> sn_observed_tick sn
    \<and> su_snapshot rec = sn\<lparr>
         sn_relative_us := relative_us_of (rc_frequency r) (rc_start_tick r) (sn_observed_tick sn),
         sn_sequence := rc_supplementary_sequence r + 1\<rparr>"
  using assms by (auto simp: enqueue_observation_def Let_def split: option.splits if_splits)

lemma recorder_step_cases:
  assumes "recorder_step r r'"
  obtains (snapshot) a b k body rec where "enqueue_snapshot r a b k body = Inr (rec, r')"
  | (observation) sn rec where "enqueue_observation r sn = Inr (rec, r')"
  | (stop) "r' = recorder_stop_begin r"
  | (joined) "rc_stopping r" "rc_worker r = RecorderDone" "r' = snd (recorder_stop_joined r)"
  | (worker) ti where "recorder_turn ti r = Some r'"
  using assms by (cases rule: recorder_step.cases) auto

interpretation recorder_fifo: fifo_worker recorder_step "init_recorder frequency start_tick"
  rc_accepted rc_persisted fst rc_in_flight stored_of "\<lambda>_. [] :: unit list" store recorder_ok
  for frequency start_tick
proof unfold_locales
  fix r r'
  assume step: "recorder_step r r'" and ok: "recorder_ok r'"
  show "recorder_ok r"
    using step
  proof (cases rule: recorder_step_cases)
    case (worker ti)
    then show ?thesis
    proof (cases rule: recorder_turn_cases)
      case (persisted pending r1)
      then show ?thesis
        using ok persist_frame(4) [OF persisted(2)] persist_bad [OF persisted(2)]
        by (auto simp: recorder_ok_def)
    qed (use ok in \<open>auto simp: recorder_ok_def\<close>)
  qed (use ok in \<open>auto simp: recorder_ok_def recorder_stop_begin_def recorder_stop_joined_def
      dest!: enqueue_snapshot_Inr enqueue_observation_Inr split: if_splits\<close>)
  show "\<exists>new. rc_accepted r' = rc_accepted r @ new \<and>
      rc_in_flight r @ new = map fst (drop (length (rc_persisted r)) (rc_persisted r')) @ rc_in_flight r'"
    using step
  proof (cases rule: recorder_step_cases)
    case (worker ti)
    then show ?thesis
    proof (cases rule: recorder_turn_cases)
      case (persisted pending r1)
      then show ?thesis
        using persist_frame [OF persisted(2)] by (auto simp: rc_in_flight_def)
    next
      case (failed pending e r1)
      then show ?thesis using ok by (simp add: recorder_ok_def)
    qed (auto simp: rc_in_flight_def)
  qed (auto simp: rc_in_flight_def recorder_stop_begin_def recorder_stop_joined_def
      dest!: enqueue_snapshot_Inr enqueue_observation_Inr split: recorder_phase.splits if_splits)
  show "rc_persisted r' = rc_persisted r \<and> stored_of r' = stored_of r \<and> [] = []
      \<or> (\<exists>i. rc_persisted r' = rc_persisted r @ [i] \<and> stored_of r' = snd (store (stored_of r) i)
           \<and> [] = [] @ fst (store (stored_of r) i))"
    using step
  proof (cases rule: recorder_step_cases)
    case (worker ti)
    then show ?thesis
    proof (cases rule: recorder_turn_cases)
      case (persisted pending r1)
      have "stored_of r' = stored_of r1" using persisted(3) by (simp add: stored_of_def)
      moreover have "fst (store (stored_of r) (pending, ti_now ti)) = []" by (cases pending) simp_all
      ultimately show ?thesis
        using persisted(3) ok persist_store [OF persisted(2)] persist_frame(3) [OF persisted(2)]
        by (simp add: recorder_ok_def)
    next
      case (failed pending e r1)
      then show ?thesis using ok by (simp add: recorder_ok_def)
    qed (auto simp: stored_of_def)
  qed (auto simp: stored_of_def recorder_stop_begin_def recorder_stop_joined_def
      dest!: enqueue_snapshot_Inr enqueue_observation_Inr split: if_splits)
qed (simp_all add: init_recorder_def rc_in_flight_def)

subsection \<open>Numbering\<close>

fun pending_order :: "pending_record \<Rightarrow> u64" where
  "pending_order (RecordSnapshot rec body) = sr_ingress_order rec"
| "pending_order (RecordSupplementary rec) = su_ingress_order rec"

text \<open>The number within its own source: GSI snapshots and observations are counted apart.\<close>

fun snapshot_sequences :: "pending_record list \<Rightarrow> u64 list" where
  "snapshot_sequences [] = []"
| "snapshot_sequences (RecordSnapshot rec body # ps) = sr_sequence rec # snapshot_sequences ps"
| "snapshot_sequences (RecordSupplementary rec # ps) = snapshot_sequences ps"

fun observation_sequences :: "pending_record list \<Rightarrow> u64 list" where
  "observation_sequences [] = []"
| "observation_sequences (RecordSnapshot rec body # ps) = observation_sequences ps"
| "observation_sequences (RecordSupplementary rec # ps) =
     sn_sequence (su_snapshot rec) # observation_sequences ps"

definition counting :: "nat \<Rightarrow> u64 list" where
  "counting n = map (\<lambda>i. of_nat (Suc i)) [0..<n]"

lemma counting_Suc: "counting (Suc n) = counting n @ [of_nat n + 1]"
  by (simp add: counting_def add.commute)

lemma counting_0 [simp]: "counting 0 = []"
  by (simp add: counting_def)

lemma length_counting [simp]: "length (counting n) = n"
  by (simp add: counting_def)

lemma sequences_append:
  "snapshot_sequences (ps @ qs) = snapshot_sequences ps @ snapshot_sequences qs"
  "observation_sequences (ps @ qs) = observation_sequences ps @ observation_sequences qs"
  by (induction ps rule: snapshot_sequences.induct) simp_all

text \<open>What an accepted record says about itself, given the clock of its recorder.\<close>

fun well_recorded :: "u64 \<Rightarrow> u64 \<Rightarrow> pending_record \<Rightarrow> bool" where
  "well_recorded frequency start_tick (RecordSnapshot rec body) \<longleftrightarrow>
     sr_body_bytes rec = of_nat (length body) \<and> sr_body_filename rec = []
     \<and> sr_relative_us rec = relative_us_of frequency start_tick (sr_body_complete_tick rec)"
| "well_recorded frequency start_tick (RecordSupplementary rec) \<longleftrightarrow>
     valid_team_counts (sn_teams (su_snapshot rec))
     \<and> start_tick \<le> sn_observed_tick (su_snapshot rec)
     \<and> sn_relative_us (su_snapshot rec) =
         relative_us_of frequency start_tick (sn_observed_tick (su_snapshot rec))"

definition numbered :: "recorder \<Rightarrow> bool" where
  "numbered r \<longleftrightarrow>
     map pending_order (rc_accepted r) = counting (length (rc_accepted r))
     \<and> rc_ingress_order r = of_nat (length (rc_accepted r))
     \<and> snapshot_sequences (rc_accepted r) = counting (length (snapshot_sequences (rc_accepted r)))
     \<and> rc_sequence r = of_nat (length (snapshot_sequences (rc_accepted r)))
     \<and> observation_sequences (rc_accepted r) = counting (length (observation_sequences (rc_accepted r)))
     \<and> rc_supplementary_sequence r = of_nat (length (observation_sequences (rc_accepted r)))
     \<and> list_all (well_recorded (rc_frequency r) (rc_start_tick r)) (rc_accepted r)"

lemma enqueue_snapshot_fields:
  "enqueue_snapshot r a b k body = Inr (rec, r') \<Longrightarrow> sr_body_complete_tick rec = b"
  by (auto simp: enqueue_snapshot_def Let_def split: option.splits if_splits)

lemma recorder_turn_frame:
  assumes "recorder_turn ti r = Some r'"
  shows "rc_accepted r' = rc_accepted r \<and> rc_ingress_order r' = rc_ingress_order r
    \<and> rc_sequence r' = rc_sequence r \<and> rc_supplementary_sequence r' = rc_supplementary_sequence r
    \<and> rc_frequency r' = rc_frequency r \<and> rc_start_tick r' = rc_start_tick r"
  using assms
  by (cases rule: recorder_turn_cases) (simp_all add: persist_frame)

lemma numbered_enqueue_snapshot:
  assumes "numbered r" "enqueue_snapshot r a b k body = Inr (rec, r')"
  shows "numbered r'"
  using assms(1) enqueue_snapshot_Inr [OF assms(2)] enqueue_snapshot_fields [OF assms(2)]
  by (auto simp: numbered_def sequences_append counting_Suc add.commute)

lemma numbered_enqueue_observation:
  assumes "numbered r" "enqueue_observation r sn = Inr (rec, r')"
  shows "numbered r'"
  using assms(1) enqueue_observation_Inr [OF assms(2)]
  by (auto simp: numbered_def sequences_append counting_Suc add.commute)

lemma numbered_step:
  assumes "recorder_step r r'" "numbered r"
  shows "numbered r'"
  using assms(1)
proof (cases rule: recorder_step_cases)
  case (worker ti)
  from recorder_turn_frame [OF this] assms(2) show ?thesis by (simp add: numbered_def)
next
  case (snapshot a b k body rec)
  with assms(2) show ?thesis by (rule numbered_enqueue_snapshot)
next
  case (observation sn rec)
  with assms(2) show ?thesis by (rule numbered_enqueue_observation)
qed (use assms(2) in \<open>simp_all add: numbered_def recorder_stop_begin_def recorder_stop_joined_def\<close>)

lemma numbered_init: "numbered (init_recorder frequency start_tick)"
  by (simp add: numbered_def init_recorder_def)

lemma numbered_reachable:
  "recorder_step\<^sup>*\<^sup>* (init_recorder frequency start_tick) r \<Longrightarrow> numbered r"
  by (induction rule: rtranclp_induct) (simp_all add: numbered_init numbered_step)

lemma recorder_clock_step:
  assumes "recorder_step r r'"
  shows "rc_frequency r' = rc_frequency r \<and> rc_start_tick r' = rc_start_tick r"
  using assms
proof (cases rule: recorder_step_cases)
  case (worker ti)
  from recorder_turn_frame [OF this] show ?thesis by simp
qed (auto simp: recorder_stop_begin_def recorder_stop_joined_def
    dest!: enqueue_snapshot_Inr enqueue_observation_Inr)

lemma recorder_clock_reachable:
  "recorder_step\<^sup>*\<^sup>* (init_recorder frequency start_tick) r \<Longrightarrow>
   rc_frequency r = frequency \<and> rc_start_tick r = start_tick"
  by (induction rule: rtranclp_induct) (auto simp: init_recorder_def dest: recorder_clock_step)

subsection \<open>The stored text in closed form\<close>

fun stored_snapshots :: "u64 \<Rightarrow> (pending_record \<times> u64) list \<Rightarrow> (snapshot_record \<times> string) list" where
  "stored_snapshots offset [] = []"
| "stored_snapshots offset ((RecordSnapshot rec body, now) # ps) =
     (finished_snapshot rec offset now, body) # stored_snapshots (offset + of_nat (length body)) ps"
| "stored_snapshots offset ((RecordSupplementary rec, now) # ps) = stored_snapshots offset ps"

fun stored_observations :: "(pending_record \<times> u64) list \<Rightarrow> supplementary_record list" where
  "stored_observations [] = []"
| "stored_observations ((RecordSnapshot rec body, now) # ps) = stored_observations ps"
| "stored_observations ((RecordSupplementary rec, now) # ps) =
     finished_observation rec now # stored_observations ps"

lemma run_store:
  "run store f ps = ([], f\<lparr>
     st_timeline := st_timeline f @ concat (map (\<lambda>(rec, body). timeline_row rec @ [newline]) (stored_snapshots (st_offset f) ps)),
     st_raw := st_raw f @ concat (map snd (stored_snapshots (st_offset f) ps)),
     st_supplementary := st_supplementary f @ concat (map (\<lambda>rec. supplementary_row rec @ [newline]) (stored_observations ps)),
     st_offset := st_offset f + of_nat (length (concat (map snd (stored_snapshots (st_offset f) ps))))\<rparr>)"
proof (induction store f ps rule: run.induct)
  case (2 f p ps)
  obtain pending now where p: "p = (pending, now)" by (cases p)
  show ?case
  proof (cases pending)
    case (RecordSnapshot rec body)
    with 2 p show ?thesis by (simp add: Let_def add.assoc)
  next
    case (RecordSupplementary rec)
    with 2 p show ?thesis by (simp add: Let_def)
  qed
qed simp

text \<open>A recorder with one payload persisted and one observation in flight.\<close>

definition demo_turn :: turn_input where
  "demo_turn = \<lparr>ti_now = 5, ti_raw_fails = None, ti_timeline_fails = None, ti_supplementary_fails = None\<rparr>"

definition recorder_advanced :: "recorder \<Rightarrow> recorder" where
  "recorder_advanced r = the (recorder_turn demo_turn r)"

definition demo_enqueued :: recorder where
  "demo_enqueued = snd (projr (enqueue_snapshot (init_recorder 1000000000 0) 0 0 0 ''ab''))"

definition demo_snapshot :: snapshot where
  "demo_snapshot = \<lparr>sn_sequence = 0, sn_observed_tick = 0, sn_relative_us = 0, sn_roster_revision = Some 3,
     sn_source = PanoramaVisibleState,
     sn_teams = \<lparr>tc_ct_alive = Some 5, tc_t_alive = Some 4, tc_ct_total = Some 5, tc_t_total = Some 5\<rparr>\<rparr>"

definition demo_both :: recorder where
  "demo_both = snd (projr (enqueue_observation demo_enqueued demo_snapshot))"

definition demo_recorder :: recorder where
  "demo_recorder = recorder_advanced (recorder_advanced demo_both)"

lemma recorder_advanced_reachable:
  "recorder_step\<^sup>*\<^sup>* init r \<Longrightarrow> recorder_turn demo_turn r \<noteq> None \<Longrightarrow> recorder_step\<^sup>*\<^sup>* init (recorder_advanced r)"
  by (erule rtranclp.rtrancl_into_rtrancl) (auto simp: recorder_advanced_def intro: step_recorder_worker)

lemma demo_enqueued_reachable: "recorder_step\<^sup>*\<^sup>* (init_recorder 1000000000 0) demo_enqueued"
proof -
  have "isl (enqueue_snapshot (init_recorder 1000000000 0) 0 0 0 ''ab'') = False" by code_simp
  then obtain rec r where "enqueue_snapshot (init_recorder 1000000000 0) 0 0 0 ''ab'' = Inr (rec, r)"
    by (cases "enqueue_snapshot (init_recorder 1000000000 0) 0 0 0 ''ab''") auto
  then have "recorder_step (init_recorder 1000000000 0) demo_enqueued"
    unfolding demo_enqueued_def by (auto intro: step_snapshot)
  then show ?thesis by (rule r_into_rtranclp)
qed

lemma demo_both_reachable: "recorder_step\<^sup>*\<^sup>* (init_recorder 1000000000 0) demo_both"
proof -
  have "isl (enqueue_observation demo_enqueued demo_snapshot) = False" by code_simp
  then obtain su r2 where "enqueue_observation demo_enqueued demo_snapshot = Inr (su, r2)"
    by (cases "enqueue_observation demo_enqueued demo_snapshot") auto
  then have "recorder_step demo_enqueued demo_both"
    unfolding demo_both_def by (auto intro: step_observation)
  with demo_enqueued_reachable show ?thesis
    by (rule rtranclp.rtrancl_into_rtrancl)
qed

lemma demo_recorder_reachable: "recorder_step\<^sup>*\<^sup>* (init_recorder 1000000000 0) demo_recorder"
  unfolding demo_recorder_def
  by (rule recorder_advanced_reachable, rule recorder_advanced_reachable [OF demo_both_reachable]; code_simp)

text \<open>
  C14: In every reachable state of the recorder in which no write has failed, the accepted
  records are the persisted ones followed by those in flight, in order, and the three files
  hold exactly the rows and bodies of the persisted records, offsets included.
\<close>

theorem files_refine_accepted_records:
  assumes "recorder_step\<^sup>*\<^sup>* (init_recorder frequency start_tick) r" "recorder_ok r"
  shows "rc_accepted r = map fst (rc_persisted r) @ rc_in_flight r
    \<and> of_contents (rc_raw_stream r) = concat (map snd (stored_snapshots 0 (rc_persisted r)))
    \<and> of_contents (rc_timeline r) = timeline_header @ [newline] @
        concat (map (\<lambda>(rec, body). timeline_row rec @ [newline]) (stored_snapshots 0 (rc_persisted r)))
    \<and> of_contents (rc_supplementary_timeline r) = supplementary_header @ [newline] @
        concat (map (\<lambda>rec. supplementary_row rec @ [newline]) (stored_observations (rc_persisted r)))"
proof -
  have init: "stored_of (init_recorder frequency start_tick) = empty_session"
    by (simp add: stored_of_def init_recorder_def opened_def empty_session_def)
  have "rc_accepted r = map fst (rc_persisted r) @ rc_in_flight r \<and>
      run store empty_session (rc_persisted r) = ([], stored_of r)"
    using recorder_fifo.reachable_fifo [OF assms] by (simp add: init)
  then show ?thesis
    by (simp add: run_store stored_of_def empty_session_def)
qed

theorem files_refine_accepted_records_witness:
  "of_contents (rc_raw_stream demo_recorder) = concat (map snd (stored_snapshots 0 (rc_persisted demo_recorder)))
   \<and> length (rc_persisted demo_recorder) = 1 \<and> length (rc_in_flight demo_recorder) = 1"
proof -
  have "recorder_ok demo_recorder" by code_simp
  from files_refine_accepted_records [OF demo_recorder_reachable this]
  have "of_contents (rc_raw_stream demo_recorder) = concat (map snd (stored_snapshots 0 (rc_persisted demo_recorder)))"
    by blast
  moreover have "length (rc_persisted demo_recorder) = 1 \<and> length (rc_in_flight demo_recorder) = 1" by code_simp
  ultimately show ?thesis by blast
qed

text \<open>
  C36: Accepted records are numbered without gaps: the shared ingress order counts 1, 2, 3 over
  both sources in the order of acceptance, and each source has its own sequence numbers from 1.
\<close>

theorem accepted_records_numbered:
  assumes "recorder_step\<^sup>*\<^sup>* (init_recorder frequency start_tick) r"
  shows "map pending_order (rc_accepted r) = counting (length (rc_accepted r))
    \<and> snapshot_sequences (rc_accepted r) = counting (length (snapshot_sequences (rc_accepted r)))
    \<and> observation_sequences (rc_accepted r) = counting (length (observation_sequences (rc_accepted r)))"
  using numbered_reachable [OF assms] by (simp add: numbered_def)

theorem accepted_records_numbered_witness:
  "map pending_order (rc_accepted demo_recorder) = counting (length (rc_accepted demo_recorder))
   \<and> length (rc_accepted demo_recorder) = 2"
  using accepted_records_numbered [OF demo_recorder_reachable] by (auto, code_simp)

end
