(* ===== verification/Json.thy ===== *)
theory Json
  imports Decimal "HOL-Library.AList"
begin

unbundle bit_operations_syntax

text \<open>
  The JSON reader of \<open>src/src/game_state.cpp\<close> (class \<open>JsonParser\<close>).

  The class keeps the text and a position that only moves forward; here the state of the
  parser is the rest of the text. Every \<open>fail(...)\<close> of the source is a constructor of
  \<open>json_error\<close> on the left of the result. A \<open>double\<close> is kept as its decimal
  token: no reader of the program looks at one, only whether \<open>strtod\<close> returns a finite
  value decides anything. An object is the association list of its (unique) keys
  in the order of their first appearance, where the source has a sorted \<open>std::map\<close>: lookups and
  overwriting agree, and no reader of the program goes through the members.
\<close>

subsection \<open>Values\<close>

datatype json =
    JNull
  | JBool bool
  | JInt i64
  | JDouble string
  | JString string
  | JObject "(string \<times> json) list"
  | JArray "json list"

datatype json_error =
    TrailingData
  | UnexpectedEnd
  | InvalidValue
  | ExpectedObject
  | ExpectedKey
  | ExpectedColon
  | ExpectedObjectComma
  | ExpectedArray
  | ExpectedArrayComma
  | ShortUnicodeEscape
  | InvalidUnicodeEscape
  | ExpectedString
  | ControlCharacter
  | ShortEscape
  | InvalidSurrogatePair
  | UnpairedSurrogate
  | InvalidEscape
  | UnterminatedString
  | InvalidNumber
  | InvalidFraction
  | InvalidExponent
  | InvalidLiteral

type_synonym 'a parse_result = "json_error + 'a \<times> string"

definition json_get :: "json \<Rightarrow> string \<Rightarrow> json option" where
  "json_get v key = (case v of JObject kvs \<Rightarrow> map_of kvs key | _ \<Rightarrow> None)"

abbreviation quote :: char where "quote \<equiv> CHR 0x22"
abbreviation backslash :: char where "backslash \<equiv> CHR 0x5C"

subsection \<open>White space and single characters\<close>

definition is_ws :: "char \<Rightarrow> bool" where
  "is_ws c \<longleftrightarrow> c = CHR '' '' \<or> c = CHR 0x09 \<or> c = CHR 0x0D \<or> c = CHR 0x0A"

definition skip_ws :: "string \<Rightarrow> string" where
  "skip_ws s = dropWhile is_ws s"

text \<open>\<open>consume\<close> skips white space even when it then answers false.\<close>

definition consume :: "char \<Rightarrow> string \<Rightarrow> bool \<times> string" where
  "consume expected s =
     (case skip_ws s of
        [] \<Rightarrow> (False, [])
      | c # r \<Rightarrow> if c = expected then (True, r) else (False, c # r))"

lemma length_skip_ws [simp]: "length (skip_ws s) \<le> length s"
  by (simp add: skip_ws_def length_dropWhile_le)

lemma skip_ws_idem [simp]: "skip_ws (skip_ws s) = skip_ws s"
  by (simp add: skip_ws_def)

lemma skip_ws_Cons: "skip_ws (c # r) = (if is_ws c then skip_ws r else c # r)"
  by (simp add: skip_ws_def)

lemma skip_ws_Nil [simp]: "skip_ws [] = []"
  by (simp add: skip_ws_def)

lemma skip_ws_eq_Cons_length: "skip_ws s = c # r \<Longrightarrow> length r < length s"
  using length_skip_ws [of s] by simp

lemma consume_length: "consume c s = (b, r) \<Longrightarrow> length r \<le> length s \<and> (b \<longrightarrow> length r < length s)"
  by (auto simp: consume_def split: list.splits if_splits dest: skip_ws_eq_Cons_length)

lemma consume_length_sym:
  "(b, r) = consume c s \<Longrightarrow> length r \<le> length s \<and> (b \<longrightarrow> length r < length s)"
  by (rule consume_length) simp

lemma consume_True_length: "consume c s = (True, r) \<Longrightarrow> length r < length s"
  and consume_False_length: "consume c s = (False, r) \<Longrightarrow> length r \<le> length s"
  by (auto dest: consume_length)

lemma consume_skip_ws [simp]: "consume c (skip_ws s) = consume c s"
  by (simp add: consume_def)

subsection \<open>Strings\<close>

text \<open>\<open>hex_value\<close> answers -1 for a character that is no hexadecimal digit: here \<open>None\<close>.\<close>

definition hex_value :: "char \<Rightarrow> u32 option" where
  "hex_value ch =
     (let n = of_char ch :: nat in
      if 48 \<le> n \<and> n \<le> 57 then Some (of_nat (n - 48))
      else if 97 \<le> n \<and> n \<le> 102 then Some (of_nat (10 + n - 97))
      else if 65 \<le> n \<and> n \<le> 70 then Some (of_nat (10 + n - 65))
      else None)"

definition byte_of :: "u32 \<Rightarrow> char" where
  "byte_of w = char_of (unat w)"

definition append_utf8 :: "string \<Rightarrow> u32 \<Rightarrow> string" where
  "append_utf8 out cp =
     (if cp \<le> 0x7F then out @ [byte_of cp]
      else if cp \<le> 0x7FF then
        out @ [byte_of (0xC0 OR drop_bit 6 cp), byte_of (0x80 OR (cp AND 0x3F))]
      else if cp \<le> 0xFFFF then
        out @ [byte_of (0xE0 OR drop_bit 12 cp),
               byte_of (0x80 OR (drop_bit 6 cp AND 0x3F)),
               byte_of (0x80 OR (cp AND 0x3F))]
      else
        out @ [byte_of (0xF0 OR drop_bit 18 cp),
               byte_of (0x80 OR (drop_bit 12 cp AND 0x3F)),
               byte_of (0x80 OR (drop_bit 6 cp AND 0x3F)),
               byte_of (0x80 OR (cp AND 0x3F))])"

fun hex4_loop :: "nat \<Rightarrow> u32 \<Rightarrow> string \<Rightarrow> u32 parse_result" where
  "hex4_loop 0 acc s = Inr (acc, s)"
| "hex4_loop (Suc n) acc [] = Inl ShortUnicodeEscape"
| "hex4_loop (Suc n) acc (c # r) =
     (case hex_value c of
        None \<Rightarrow> Inl InvalidUnicodeEscape
      | Some nibble \<Rightarrow> hex4_loop n (push_bit 4 acc OR nibble) r)"

definition parse_hex4 :: "string \<Rightarrow> u32 parse_result" where
  "parse_hex4 s = (if length s < 4 then Inl ShortUnicodeEscape else hex4_loop 4 0 s)"

lemma hex4_loop_length: "hex4_loop n acc s = Inr (v, r) \<Longrightarrow> length s = n + length r"
  by (induction n acc s rule: hex4_loop.induct) (auto split: option.splits)

lemma parse_hex4_length: "parse_hex4 s = Inr (v, r) \<Longrightarrow> length s = 4 + length r"
  by (auto simp: parse_hex4_def dest: hex4_loop_length split: if_splits)

text \<open>The branch \<open>case 'u'\<close>: one code unit, or two that form a surrogate pair.\<close>

definition parse_unicode_escape :: "string \<Rightarrow> u32 parse_result" where
  "parse_unicode_escape s =
     (case parse_hex4 s of
        Inl e \<Rightarrow> Inl e
      | Inr (cp, r) \<Rightarrow>
          if 0xD800 \<le> cp \<and> cp \<le> 0xDBFF \<and> 6 \<le> length r \<and>
             r ! 0 = backslash \<and> r ! 1 = CHR ''u'' then
            (case parse_hex4 (drop 2 r) of
               Inl e \<Rightarrow> Inl e
             | Inr (low, r') \<Rightarrow>
                 if 0xDC00 \<le> low \<and> low \<le> 0xDFFF then
                   Inr (0x10000 + push_bit 10 (cp - 0xD800) + (low - 0xDC00), r')
                 else Inl InvalidSurrogatePair)
          else if 0xD800 \<le> cp \<and> cp \<le> 0xDFFF then Inl UnpairedSurrogate
          else Inr (cp, r))"

text \<open>What follows a backslash: the new contents of \<open>out\<close> and the rest of the text.\<close>

definition parse_escape :: "string \<Rightarrow> string \<Rightarrow> string parse_result" where
  "parse_escape out s =
     (case s of
        [] \<Rightarrow> Inl ShortEscape
      | e # r \<Rightarrow>
          if e = quote then Inr (out @ [quote], r)
          else if e = backslash then Inr (out @ [backslash], r)
          else if e = CHR ''/'' then Inr (out @ [CHR ''/''], r)
          else if e = CHR ''b'' then Inr (out @ [CHR 0x08], r)
          else if e = CHR ''f'' then Inr (out @ [CHR 0x0C], r)
          else if e = CHR ''n'' then Inr (out @ [CHR 0x0A], r)
          else if e = CHR ''r'' then Inr (out @ [CHR 0x0D], r)
          else if e = CHR ''t'' then Inr (out @ [CHR 0x09], r)
          else if e = CHR ''u'' then
            (case parse_unicode_escape r of
               Inl err \<Rightarrow> Inl err
             | Inr (cp, r') \<Rightarrow> Inr (append_utf8 out cp, r'))
          else Inl InvalidEscape)"

lemma parse_unicode_escape_length:
  "parse_unicode_escape s = Inr (v, r) \<Longrightarrow> length r < length s"
  by (auto simp: parse_unicode_escape_def split: sum.splits prod.splits if_splits
        dest!: parse_hex4_length)

lemma parse_escape_length [termination_simp]:
  "parse_escape out s = Inr (out', r) \<Longrightarrow> length r < length s"
  by (auto simp: parse_escape_def split: list.splits if_splits sum.splits prod.splits
        dest!: parse_unicode_escape_length)

fun parse_string_loop :: "string \<Rightarrow> string \<Rightarrow> string parse_result" where
  "parse_string_loop out [] = Inl UnterminatedString"
| "parse_string_loop out (ch # r) =
     (if ch = quote then Inr (out, r)
      else if of_char ch < (0x20::nat) then Inl ControlCharacter
      else if ch \<noteq> backslash then parse_string_loop (out @ [ch]) r
      else (case parse_escape out r of
              Inl e \<Rightarrow> Inl e
            | Inr (out', r') \<Rightarrow> parse_string_loop out' r'))"

definition parse_string :: "string \<Rightarrow> string parse_result" where
  "parse_string s =
     (case s of
        [] \<Rightarrow> Inl ExpectedString
      | c # r \<Rightarrow> if c \<noteq> quote then Inl ExpectedString else parse_string_loop [] r)"

lemma parse_string_loop_length:
  "parse_string_loop out s = Inr (v, r) \<Longrightarrow> length r < length s"
  by (induction out s rule: parse_string_loop.induct)
    (fastforce split: if_splits sum.splits prod.splits dest: parse_escape_length)+

lemma parse_string_length: "parse_string s = Inr (v, r) \<Longrightarrow> length r < length s"
  by (auto simp: parse_string_def split: list.splits if_splits dest: parse_string_loop_length)

lemma parse_string_skip_ws_length:
  "parse_string (skip_ws s) = Inr (v, r) \<Longrightarrow> length r < length s"
  using length_skip_ws [of s] parse_string_length [of "skip_ws s" v r] by linarith

subsection \<open>Numbers\<close>

text \<open>
  \<open>parse_number\<close> first scans the token (sign and integer part, fraction, exponent), then
  reads it: as an integer if it has neither fraction nor exponent and fits an
  \<open>int64_t\<close> (\<open>from_chars\<close>), otherwise as a double (\<open>strtod\<close>), which must be finite.
\<close>

definition scan_integer :: "string \<Rightarrow> json_error + string" where
  "scan_integer s =
     (case (if s \<noteq> [] \<and> hd s = CHR ''-'' then tl s else s) of
        [] \<Rightarrow> Inl InvalidNumber
      | c # r \<Rightarrow>
          if c = CHR ''0'' then Inr r
          else if \<not> is_digit c then Inl InvalidNumber
          else Inr (dropWhile is_digit (c # r)))"

definition scan_fraction :: "string \<Rightarrow> bool parse_result" where
  "scan_fraction s =
     (if s \<noteq> [] \<and> hd s = CHR ''.'' then
        (case tl s of
           [] \<Rightarrow> Inl InvalidFraction
         | d # r \<Rightarrow> if \<not> is_digit d then Inl InvalidFraction
                   else Inr (True, dropWhile is_digit (d # r)))
      else Inr (False, s))"

definition scan_exponent :: "string \<Rightarrow> bool parse_result" where
  "scan_exponent s =
     (if s \<noteq> [] \<and> (hd s = CHR ''e'' \<or> hd s = CHR ''E'') then
        (case (if tl s \<noteq> [] \<and> (hd (tl s) = CHR ''+'' \<or> hd (tl s) = CHR ''-'')
               then tl (tl s) else tl s) of
           [] \<Rightarrow> Inl InvalidExponent
         | d # r \<Rightarrow> if \<not> is_digit d then Inl InvalidExponent
                   else Inr (True, dropWhile is_digit (d # r)))
      else Inr (False, s))"

definition scan_number :: "string \<Rightarrow> bool parse_result" where
  "scan_number s =
     (case scan_integer s of
        Inl e \<Rightarrow> Inl e
      | Inr s1 \<Rightarrow>
          (case scan_fraction s1 of
             Inl e \<Rightarrow> Inl e
           | Inr (fractional, s2) \<Rightarrow>
               (case scan_exponent s2 of
                  Inl e \<Rightarrow> Inl e
                | Inr (exponent, s3) \<Rightarrow> Inr (fractional \<or> exponent, s3))))"

definition signed_digits :: "string \<Rightarrow> int" where
  "signed_digits t =
     (if t \<noteq> [] \<and> hd t = CHR ''-'' then - int (digits_value (tl t)) else int (digits_value t))"

text \<open>
  \<open>strtod\<close> rounds to nearest: the result is finite exactly if the exact value is below
  the midpoint of the largest double \<open>2\<^sup>1\<^sup>0\<^sup>2\<^sup>4 - 2\<^sup>9\<^sup>7\<^sup>1\<close> and \<open>2\<^sup>1\<^sup>0\<^sup>2\<^sup>4\<close>.
  The value of a token is \<open>m * 10 ^ e\<close> with the digits before the exponent as \<open>m\<close>.
\<close>

definition strtod_mantissa :: "string \<Rightarrow> nat" where
  "strtod_mantissa t =
     digits_value (filter is_digit (takeWhile (\<lambda>c. c \<noteq> CHR ''e'' \<and> c \<noteq> CHR ''E'') t))"

definition strtod_exponent :: "string \<Rightarrow> int" where
  "strtod_exponent t =
     (let mant = takeWhile (\<lambda>c. c \<noteq> CHR ''e'' \<and> c \<noteq> CHR ''E'') t;
          ex = drop (Suc (length mant)) t;
          frac = filter is_digit (dropWhile (\<lambda>c. c \<noteq> CHR ''.'') mant)
      in signed_digits (if ex \<noteq> [] \<and> hd ex = CHR ''+'' then tl ex else ex) - int (length frac))"

definition strtod_is_finite :: "string \<Rightarrow> bool" where
  "strtod_is_finite t =
     (let m = strtod_mantissa t; e = strtod_exponent t
      in m = 0 \<or>
         (if 0 \<le> e then m * 10 ^ nat e < 2 ^ 1024 - 2 ^ 970
          else m < (2 ^ 1024 - 2 ^ 970) * 10 ^ nat (- e)))"

definition parse_number :: "string \<Rightarrow> json parse_result" where
  "parse_number s =
     (case scan_number s of
        Inl e \<Rightarrow> Inl e
      | Inr (floating, r) \<Rightarrow>
          let token = take (length s - length r) s in
          if \<not> floating \<and> in_i64 (signed_digits token) then Inr (JInt (signed_digits token), r)
          else if \<not> strtod_is_finite token then Inl InvalidNumber
          else Inr (JDouble token, r))"

lemma length_dropWhile_Cons: "P c \<Longrightarrow> length (dropWhile P (c # r)) < Suc (length r)"
  using length_dropWhile_le [of P r] by simp

lemma scan_integer_length: "scan_integer s = Inr r \<Longrightarrow> length r < length s"
  using length_dropWhile_le [of is_digit "tl s"] length_dropWhile_le [of is_digit "tl (tl s)"]
  by (cases s) (auto simp: scan_integer_def split: list.splits if_splits)

lemma scan_fraction_length: "scan_fraction s = Inr (b, r) \<Longrightarrow> length r \<le> length s"
  using length_dropWhile_le [of is_digit "tl (tl s)"]
  by (cases s) (auto simp: scan_fraction_def split: list.splits if_splits)

lemma scan_exponent_length: "scan_exponent s = Inr (b, r) \<Longrightarrow> length r \<le> length s"
  using length_dropWhile_le [of is_digit "tl (tl s)"] length_dropWhile_le [of is_digit "tl (tl (tl s))"]
  by (cases s) (auto simp: scan_exponent_def split: list.splits if_splits)

lemma scan_number_length: "scan_number s = Inr (b, r) \<Longrightarrow> length r < length s"
  by (auto simp: scan_number_def split: sum.splits prod.splits
      dest!: scan_integer_length scan_fraction_length scan_exponent_length)

lemma parse_number_length: "parse_number s = Inr (v, r) \<Longrightarrow> length r < length s"
  by (auto simp: parse_number_def Let_def split: sum.splits prod.splits if_splits
      dest: scan_number_length)

subsection \<open>Values, objects and arrays\<close>

definition parse_literal :: "string \<Rightarrow> json \<Rightarrow> string \<Rightarrow> json parse_result" where
  "parse_literal literal v s =
     (if take (length literal) s \<noteq> literal then Inl InvalidLiteral
      else Inr (v, drop (length literal) s))"

lemma parse_literal_length:
  "parse_literal l v s = Inr (w, r) \<Longrightarrow> l \<noteq> [] \<Longrightarrow> length r < length s"
  by (cases s; cases l) (auto simp: parse_literal_def split: if_splits)

text \<open>
  One function per member function of the class; the two \<open>for (;;)\<close> loops are
  \<open>parse_members\<close> (with the map built so far) and \<open>parse_elements\<close> (with the vector
  built so far).
\<close>

function parse_value :: "string \<Rightarrow> json parse_result"
  and parse_object :: "string \<Rightarrow> json parse_result"
  and parse_members :: "(string \<times> json) list \<Rightarrow> string \<Rightarrow> json parse_result"
  and parse_array :: "string \<Rightarrow> json parse_result"
  and parse_elements :: "json list \<Rightarrow> string \<Rightarrow> json parse_result" where
  "parse_value s =
     (case skip_ws s of
        [] \<Rightarrow> Inl UnexpectedEnd
      | c # r \<Rightarrow>
          if c = CHR ''{'' then parse_object (c # r)
          else if c = CHR ''['' then parse_array (c # r)
          else if c = quote then
            (case parse_string (c # r) of
               Inl e \<Rightarrow> Inl e
             | Inr (str, r') \<Rightarrow> Inr (JString str, r'))
          else if c = CHR ''t'' then parse_literal ''true'' (JBool True) (c # r)
          else if c = CHR ''f'' then parse_literal ''false'' (JBool False) (c # r)
          else if c = CHR ''n'' then parse_literal ''null'' JNull (c # r)
          else if c = CHR ''-'' \<or> is_digit c then parse_number (c # r)
          else Inl InvalidValue)"
| "parse_object s =
     (case consume (CHR ''{'') s of
        (False, r) \<Rightarrow> Inl ExpectedObject
      | (True, r) \<Rightarrow>
          (case consume (CHR ''}'') (skip_ws r) of
             (True, r') \<Rightarrow> Inr (JObject [], r')
           | (False, r') \<Rightarrow> parse_members [] r'))"
| "parse_members kvs s =
     (let s1 = skip_ws s in
      if s1 = [] \<or> hd s1 \<noteq> quote then Inl ExpectedKey
      else
        (case parse_string s1 of
           Inl e \<Rightarrow> Inl e
         | Inr (key, s2) \<Rightarrow>
             (case consume (CHR '':'') s2 of
                (False, r) \<Rightarrow> Inl ExpectedColon
              | (True, s3) \<Rightarrow>
                  (case parse_value s3 of
                     Inl e \<Rightarrow> Inl e
                   | Inr (v, s4) \<Rightarrow>
                       (let kvs' = AList.update key v kvs in
                        case consume (CHR ''}'') s4 of
                          (True, r) \<Rightarrow> Inr (JObject kvs', r)
                        | (False, s5) \<Rightarrow>
                            (case consume (CHR '','') s5 of
                               (False, r) \<Rightarrow> Inl ExpectedObjectComma
                             | (True, s6) \<Rightarrow> parse_members kvs' s6))))))"
| "parse_array s =
     (case consume (CHR ''['') s of
        (False, r) \<Rightarrow> Inl ExpectedArray
      | (True, r) \<Rightarrow>
          (case consume (CHR '']'') (skip_ws r) of
             (True, r') \<Rightarrow> Inr (JArray [], r')
           | (False, r') \<Rightarrow> parse_elements [] r'))"
| "parse_elements vs s =
     (case parse_value s of
        Inl e \<Rightarrow> Inl e
      | Inr (v, s1) \<Rightarrow>
          (case consume (CHR '']'') s1 of
             (True, r) \<Rightarrow> Inr (JArray (vs @ [v]), r)
           | (False, s2) \<Rightarrow>
               (case consume (CHR '','') s2 of
                  (False, r) \<Rightarrow> Inl ExpectedArrayComma
                | (True, s3) \<Rightarrow> parse_elements (vs @ [v]) s3)))"
  by pat_completeness auto

text \<open>
  The calls are nested (the loops continue where \<open>parse_value\<close> stopped), so termination
  needs to know first that a returned rest is shorter than the text: a partial induction.
\<close>

lemma parse_dom_length:
  "parse_value_parse_object_parse_members_parse_array_parse_elements_dom (Inl (Inl s1)) \<Longrightarrow>
     \<forall>v r. parse_value s1 = Inr (v, r) \<longrightarrow> length r < length s1"
  "parse_value_parse_object_parse_members_parse_array_parse_elements_dom (Inl (Inr s2)) \<Longrightarrow>
     \<forall>v r. parse_object s2 = Inr (v, r) \<longrightarrow> length r < length s2"
  "parse_value_parse_object_parse_members_parse_array_parse_elements_dom (Inr (Inl (kvs, s3))) \<Longrightarrow>
     \<forall>v r. parse_members kvs s3 = Inr (v, r) \<longrightarrow> length r < length s3"
  "parse_value_parse_object_parse_members_parse_array_parse_elements_dom (Inr (Inr (Inl s4))) \<Longrightarrow>
     \<forall>v r. parse_array s4 = Inr (v, r) \<longrightarrow> length r < length s4"
  "parse_value_parse_object_parse_members_parse_array_parse_elements_dom (Inr (Inr (Inr (vs, s5)))) \<Longrightarrow>
     \<forall>v r. parse_elements vs s5 = Inr (v, r) \<longrightarrow> length r < length s5"
proof (induction s1 and s2 and kvs s3 and s4 and vs s5
    rule: parse_value_parse_object_parse_members_parse_array_parse_elements.pinduct)
  case (1 s)
  show ?case
  proof (intro allI impI)
    fix v r
    assume eq: "parse_value s = Inr (v, r)"
    then obtain c t where ct: "skip_ws s = c # t"
      by (auto simp: parse_value.psimps [OF 1(1)] split: list.splits)
    have "length r < length (c # t)"
    proof (cases "c = CHR ''{'' \<or> c = CHR ''[''")
      case True
      with eq ct 1(2) [OF ct] 1(3) [OF ct] show ?thesis
        by (auto simp: parse_value.psimps [OF 1(1)])
    next
      case False
      have "\<And>l w. parse_literal l w (c # t) = Inr (v, r) \<Longrightarrow> l \<noteq> [] \<Longrightarrow> ?thesis"
        "parse_number (c # t) = Inr (v, r) \<Longrightarrow> ?thesis"
        "\<And>w. parse_string (c # t) = Inr (w, r) \<Longrightarrow> ?thesis"
        by (erule parse_literal_length parse_number_length parse_string_length; assumption?)+
      with False eq ct show ?thesis
        by (simp add: parse_value.psimps [OF 1(1)] split: if_splits sum.splits prod.splits)
    qed
    then show "length r < length s"
      using length_skip_ws [of s] ct by (metis less_le_trans)
  qed
next
  case (2 s)
  show ?case
  proof (intro allI impI)
    fix v r
    assume eq: "parse_object s = Inr (v, r)"
    then obtain t b u where
      t: "consume (CHR ''{'') s = (True, t)" and u: "consume (CHR ''}'') (skip_ws t) = (b, u)"
      by (auto simp: parse_object.psimps [OF 2(1)] split: prod.splits bool.splits)
    have "length r \<le> length u"
    proof (cases b)
      case True
      with eq t u show ?thesis by (simp add: parse_object.psimps [OF 2(1)])
    next
      case False
      with eq t u have "parse_members [] u = Inr (v, r)"
        by (simp add: parse_object.psimps [OF 2(1)])
      with 2(2) [OF t [symmetric] refl] u False show ?thesis by fastforce
    qed
    then show "length r < length s"
      using consume_True_length [OF t] consume_length [OF u, THEN conjunct1] length_skip_ws [of t]
      by linarith
  qed
next
  case (3 kvs s)
  show ?case
  proof (intro allI impI)
    fix v r
    assume eq: "parse_members kvs s = Inr (v, r)"
    then obtain key s2 s3 w s4 where
      st: "parse_string (skip_ws s) = Inr (key, s2)" and
      co: "consume (CHR '':'') s2 = (True, s3)" and
      pv: "parse_value s3 = Inr (w, s4)" and
      ne: "skip_ws s \<noteq> []" "hd (skip_ws s) = quote"
      by (auto simp: parse_members.psimps [OF 3(1)] Let_def
          split: if_splits sum.splits prod.splits bool.splits)
    have "length s4 < length s3"
      using 3(2) [OF refl _ st refl co [symmetric] refl] ne pv by auto
    moreover have "length s3 < length s"
      using parse_string_length [OF st] consume_True_length [OF co] length_skip_ws [of s] by linarith
    moreover have "length r \<le> length s4"
    proof (cases "consume (CHR ''}'') s4")
      case (Pair b u)
      note u = Pair
      show ?thesis
      proof (cases b)
        case True
        with eq st co pv ne u consume_length [OF u] show ?thesis
          by (simp add: parse_members.psimps [OF 3(1)])
      next
        case False
        with eq st co pv ne u obtain u' where u': "consume (CHR '','') u = (True, u')"
          and "parse_members (AList.update key w kvs) u' = Inr (v, r)"
          by (auto simp: parse_members.psimps [OF 3(1)] split: prod.splits bool.splits)
        with 3(3) [OF refl _ st refl co [symmetric] refl pv refl refl] u False ne
        have "length r < length u'" by fastforce
        with consume_True_length [OF u'] consume_length [OF u, THEN conjunct1]
        show ?thesis by linarith
      qed
    qed
    ultimately show "length r < length s" by linarith
  qed
next
  case (4 s)
  show ?case
  proof (intro allI impI)
    fix v r
    assume eq: "parse_array s = Inr (v, r)"
    then obtain t b u where
      t: "consume (CHR ''['') s = (True, t)" and u: "consume (CHR '']'') (skip_ws t) = (b, u)"
      by (auto simp: parse_array.psimps [OF 4(1)] split: prod.splits bool.splits)
    have "length r \<le> length u"
    proof (cases b)
      case True
      with eq t u show ?thesis by (simp add: parse_array.psimps [OF 4(1)])
    next
      case False
      with eq t u have "parse_elements [] u = Inr (v, r)"
        by (simp add: parse_array.psimps [OF 4(1)])
      with 4(2) [OF t [symmetric] refl] u False show ?thesis by fastforce
    qed
    then show "length r < length s"
      using consume_True_length [OF t] consume_length [OF u, THEN conjunct1] length_skip_ws [of t]
      by linarith
  qed
next
  case (5 vs s)
  show ?case
  proof (intro allI impI)
    fix v r
    assume eq: "parse_elements vs s = Inr (v, r)"
    then obtain w t b u where
      t: "parse_value s = Inr (w, t)" and u: "consume (CHR '']'') t = (b, u)"
      by (auto simp: parse_elements.psimps [OF 5(1)] split: prod.splits sum.splits)
    have lt: "length t < length s" using 5(2) t by blast
    have "length r \<le> length u"
    proof (cases b)
      case True
      with eq t u show ?thesis by (simp add: parse_elements.psimps [OF 5(1)])
    next
      case False
      with eq t u obtain u' where u': "consume (CHR '','') u = (True, u')"
        and "parse_elements (vs @ [w]) u' = Inr (v, r)"
        by (auto simp: parse_elements.psimps [OF 5(1)] split: prod.splits bool.splits)
      with 5(3) [OF t refl] u False have "length r < length u'" by fastforce
      with consume_True_length [OF u'] show ?thesis by linarith
    qed
    then show "length r < length s"
      using lt consume_length [OF u, THEN conjunct1] by linarith
  qed
qed

termination parse_value
  by (relation "measures
      [case_sum (case_sum length length) (case_sum (length \<circ> snd) (case_sum length (length \<circ> snd))),
       case_sum (case_sum (\<lambda>_. 1) (\<lambda>_. 0)) (case_sum (\<lambda>_. 2) (case_sum (\<lambda>_. 0) (\<lambda>_. 2)))]")
    (auto dest!: consume_length_sym parse_string_skip_ws_length skip_ws_eq_Cons_length
      dest: parse_dom_length(1) [rule_format]
      intro: le_less_trans less_le_trans le_trans)

lemmas parse_simps =
  parse_value.simps parse_object.simps parse_members.simps parse_array.simps parse_elements.simps

lemmas parse_induct =
  parse_value_parse_object_parse_members_parse_array_parse_elements.induct

declare parse_simps [simp del]

definition parse_document :: "string \<Rightarrow> json_error + json" where
  "parse_document body =
     (case parse_value (skip_ws body) of
        Inl e \<Rightarrow> Inl e
      | Inr (v, r) \<Rightarrow> if skip_ws r \<noteq> [] then Inl TrailingData else Inr v)"

text \<open>\<open>parse_json\<close> catches every exception of the parser.\<close>

definition parse_json :: "string \<Rightarrow> json option" where
  "parse_json body = (case parse_document body of Inl e \<Rightarrow> None | Inr v \<Rightarrow> Some v)"

end
