(* ===== verification/Game_State.thy ===== *)
theory Game_State
  imports Json
begin

text \<open>
  The normalised game state (\<open>include/cspromator/game_state.hpp\<close>) and its extraction from
  a GSI payload (\<open>find_path\<close>, \<open>read_string\<close>, \<open>read_int\<close>, \<open>read_i64\<close>,
  \<open>normalize_gsi\<close> of \<open>src/game_state.cpp\<close>). The record has one field per member of
  \<open>NormalizedGameState\<close>, with the prefix \<open>gs_\<close>.
\<close>

record game_state =
  gs_sequence :: u64
  gs_relative_us :: u64
  gs_payload_valid :: bool
  gs_provider_steamid :: "string option"
  gs_provider_timestamp :: "i64 option"
  gs_map_name :: "string option"
  gs_map_mode :: "string option"
  gs_map_phase :: "string option"
  gs_map_round :: "i32 option"
  gs_ct_score :: "i32 option"
  gs_t_score :: "i32 option"
  gs_round_phase :: "string option"
  gs_round_winner :: "string option"
  gs_bomb_state :: "string option"
  gs_observed_steamid :: "string option"
  gs_local_player_valid :: bool
  gs_player_team :: "string option"
  gs_player_activity :: "string option"
  gs_health :: "i32 option"
  gs_armor :: "i32 option"
  gs_money :: "i32 option"
  gs_equipment_value :: "i32 option"
  gs_flashed :: "i32 option"
  gs_smoked :: "i32 option"
  gs_burning :: "i32 option"
  gs_round_kills :: "i32 option"
  gs_round_headshot_kills :: "i32 option"
  gs_kills :: "i32 option"
  gs_assists :: "i32 option"
  gs_deaths :: "i32 option"
  gs_mvps :: "i32 option"
  gs_score :: "i32 option"

definition empty_state :: "u64 \<Rightarrow> u64 \<Rightarrow> game_state" where
  "empty_state sequence relative_us = \<lparr>
     gs_sequence = sequence, gs_relative_us = relative_us, gs_payload_valid = False,
     gs_provider_steamid = None, gs_provider_timestamp = None,
     gs_map_name = None, gs_map_mode = None, gs_map_phase = None, gs_map_round = None,
     gs_ct_score = None, gs_t_score = None,
     gs_round_phase = None, gs_round_winner = None, gs_bomb_state = None,
     gs_observed_steamid = None, gs_local_player_valid = False,
     gs_player_team = None, gs_player_activity = None,
     gs_health = None, gs_armor = None, gs_money = None, gs_equipment_value = None,
     gs_flashed = None, gs_smoked = None, gs_burning = None,
     gs_round_kills = None, gs_round_headshot_kills = None,
     gs_kills = None, gs_assists = None, gs_deaths = None, gs_mvps = None, gs_score = None\<rparr>"

fun find_path :: "json \<Rightarrow> string list \<Rightarrow> json option" where
  "find_path current [] = Some current"
| "find_path current (key # keys) =
     (case json_get current key of
        None \<Rightarrow> None
      | Some next \<Rightarrow> find_path next keys)"

definition read_string :: "json \<Rightarrow> string list \<Rightarrow> string option" where
  "read_string root path =
     (case find_path root path of Some (JString s) \<Rightarrow> Some s | _ \<Rightarrow> None)"

text \<open>\<open>static_cast<int>\<close> of the 64-bit value keeps its low 32 bits.\<close>

definition read_int :: "json \<Rightarrow> string list \<Rightarrow> i32 option" where
  "read_int root path =
     (case find_path root path of Some (JInt i) \<Rightarrow> Some (wrap_i32 i) | _ \<Rightarrow> None)"

definition read_i64 :: "json \<Rightarrow> string list \<Rightarrow> i64 option" where
  "read_i64 root path =
     (case find_path root path of Some (JInt i) \<Rightarrow> Some i | _ \<Rightarrow> None)"

definition same_steamid :: "string option \<Rightarrow> string option \<Rightarrow> bool" where
  "same_steamid provider observed = opt_rel (=) provider observed"

definition with_local_stats :: "json \<Rightarrow> game_state \<Rightarrow> game_state" where
  "with_local_stats root st = st\<lparr>
     gs_health := read_int root [''player'', ''state'', ''health''],
     gs_armor := read_int root [''player'', ''state'', ''armor''],
     gs_money := read_int root [''player'', ''state'', ''money''],
     gs_equipment_value := read_int root [''player'', ''state'', ''equip_value''],
     gs_flashed := read_int root [''player'', ''state'', ''flashed''],
     gs_smoked := read_int root [''player'', ''state'', ''smoked''],
     gs_burning := read_int root [''player'', ''state'', ''burning''],
     gs_round_kills := read_int root [''player'', ''state'', ''round_kills''],
     gs_round_headshot_kills := read_int root [''player'', ''state'', ''round_killhs''],
     gs_kills := read_int root [''player'', ''match_stats'', ''kills''],
     gs_assists := read_int root [''player'', ''match_stats'', ''assists''],
     gs_deaths := read_int root [''player'', ''match_stats'', ''deaths''],
     gs_mvps := read_int root [''player'', ''match_stats'', ''mvps''],
     gs_score := read_int root [''player'', ''match_stats'', ''score'']\<rparr>"

definition normalize_root :: "json \<Rightarrow> u64 \<Rightarrow> u64 \<Rightarrow> game_state" where
  "normalize_root root sequence relative_us =
     (let provider = read_string root [''provider'', ''steamid''];
          observed = read_string root [''player'', ''steamid''];
          st = (empty_state sequence relative_us)\<lparr>
            gs_payload_valid := True,
            gs_provider_steamid := provider,
            gs_provider_timestamp := read_i64 root [''provider'', ''timestamp''],
            gs_map_name := read_string root [''map'', ''name''],
            gs_map_mode := read_string root [''map'', ''mode''],
            gs_map_phase := read_string root [''map'', ''phase''],
            gs_map_round := read_int root [''map'', ''round''],
            gs_ct_score := read_int root [''map'', ''team_ct'', ''score''],
            gs_t_score := read_int root [''map'', ''team_t'', ''score''],
            gs_round_phase := read_string root [''round'', ''phase''],
            gs_round_winner := read_string root [''round'', ''win_team''],
            gs_bomb_state := read_string root [''round'', ''bomb''],
            gs_observed_steamid := observed,
            gs_local_player_valid := same_steamid provider observed,
            gs_player_team := read_string root [''player'', ''team''],
            gs_player_activity := read_string root [''player'', ''activity'']\<rparr>
      in if gs_local_player_valid st then with_local_stats root st else st)"

definition normalize_gsi :: "string \<Rightarrow> u64 \<Rightarrow> u64 \<Rightarrow> game_state" where
  "normalize_gsi json_body sequence relative_us =
     (case parse_json json_body of
        Some (JObject kvs) \<Rightarrow> normalize_root (JObject kvs) sequence relative_us
      | _ \<Rightarrow> empty_state sequence relative_us)"

text \<open>Everything the event layers read about the local player's numbers.\<close>

definition local_stats :: "game_state \<Rightarrow> i32 option list" where
  "local_stats st =
     [gs_health st, gs_armor st, gs_money st, gs_equipment_value st,
      gs_flashed st, gs_smoked st, gs_burning st,
      gs_round_kills st, gs_round_headshot_kills st,
      gs_kills st, gs_assists st, gs_deaths st, gs_mvps st, gs_score st]"

definition int_fields :: "game_state \<Rightarrow> i32 option list" where
  "int_fields st = [gs_map_round st, gs_ct_score st, gs_t_score st] @ local_stats st"

text \<open>Every \<open>int\<close> member holds a value of that type.\<close>

definition wf_state :: "game_state \<Rightarrow> bool" where
  "wf_state st \<longleftrightarrow> (\<forall>x \<in> set (int_fields st). \<forall>i. x = Some i \<longrightarrow> in_i32 i)"

lemma read_int_in_i32: "read_int root path = Some i \<Longrightarrow> in_i32 i"
  by (auto simp: read_int_def split: option.splits json.splits)

lemma wf_state_empty [simp]: "wf_state (empty_state q t)"
  by (simp add: wf_state_def int_fields_def local_stats_def empty_state_def)

lemma wf_normalize_root: "wf_state (normalize_root root q t)"
  by (auto simp: wf_state_def int_fields_def local_stats_def normalize_root_def with_local_stats_def
      empty_state_def Let_def read_int_in_i32)

lemma normalize_root_simps [simp]:
  "gs_sequence (normalize_root root q t) = q"
  "gs_relative_us (normalize_root root q t) = t"
  "gs_payload_valid (normalize_root root q t)"
  by (simp_all add: normalize_root_def with_local_stats_def empty_state_def Let_def)

lemma empty_state_simps [simp]:
  "gs_sequence (empty_state q t) = q"
  "gs_relative_us (empty_state q t) = t"
  "\<not> gs_payload_valid (empty_state q t)"
  by (simp_all add: empty_state_def)

lemma normalize_gsi_stamp [simp]:
  "gs_sequence (normalize_gsi b q t) = q"
  "gs_relative_us (normalize_gsi b q t) = t"
  by (simp_all add: normalize_gsi_def split: option.splits json.splits)

lemma normalize_gsi_valid_iff:
  "gs_payload_valid (normalize_gsi b q t) \<longleftrightarrow> (\<exists>kvs. parse_json b = Some (JObject kvs))"
  by (auto simp: normalize_gsi_def split: option.splits json.splits)

end
