(* ===== verification/Events.thy ===== *)
theory Events
  imports Game_State
begin

unbundle bit_operations_syntax

text \<open>
  Events (\<open>include/cspromator/event_detector.hpp\<close>): the enumerations, the bit set of
  sources, the record \<open>PromatorEvent\<close> (prefix \<open>ev_\<close>) and the text that
  \<open>to_string\<close>, \<open>describe_sources\<close> and \<open>describe_event\<close> of
  \<open>src/event_detector.cpp\<close> render.
\<close>

subsection \<open>Events\<close>

datatype event_type =
    MatchEntered | MatchLeft | FreezeStarted | FreezeEnded | RoundStarted | RoundEnded
  | RoundWon | RoundLost | TeamChanged
  | LocalPlayerAcquired | LocalPlayerLost | LocalPlayerRestored
  | PlayerRespawned | PlayerDamaged | PlayerDied | PlayerKill | PlayerHeadshotKill
  | PlayerAssist | PlayerFlashed | PlayerSmoked | PlayerBurning
  | AceCandidate | Ace | ClutchStarted | ClutchUpdated | ClutchEnded | MvpGained
  | BombPlanted | BombDefused | BombExploded | BombStateCleared
  | HalftimeStarted | HalftimeEnded | GameOver

datatype event_evidence = Deterministic | ModeAssumption | Heuristic

text \<open>\<open>EventSource\<close> is a bit set over \<open>std::uint8_t\<close>; its operators are those of the word.\<close>

type_synonym event_source = u8

definition src_none :: event_source where "src_none = 0"
definition src_gsi :: event_source where "src_gsi = push_bit 0 1"
definition src_mode_rules :: event_source where "src_mode_rules = push_bit 1 1"
definition src_supplementary :: event_source where "src_supplementary = push_bit 2 1"

definition has_source :: "event_source \<Rightarrow> event_source \<Rightarrow> bool" where
  "has_source sources src \<longleftrightarrow> sources AND src \<noteq> src_none"

lemmas src_defs = src_none_def src_gsi_def src_mode_rules_def src_supplementary_def

record event =
  ev_type :: event_type
  ev_evidence :: event_evidence
  ev_sources :: event_source
  ev_sequence :: u64
  ev_relative_us :: u64
  ev_amount :: "i32 option"
  ev_value :: "i32 option"
  ev_from :: string
  ev_to :: string

definition make_event :: "event_type \<Rightarrow> game_state \<Rightarrow> event" where
  "make_event ty st = \<lparr>
     ev_type = ty, ev_evidence = Deterministic, ev_sources = src_gsi,
     ev_sequence = gs_sequence st, ev_relative_us = gs_relative_us st,
     ev_amount = None, ev_value = None, ev_from = [], ev_to = []\<rparr>"

text \<open>The helper \<open>equals\<close> that both layers define: present and equal to the literal.\<close>

definition equals :: "string option \<Rightarrow> string \<Rightarrow> bool" where
  "equals v expected = opt_holds (\<lambda>s. s = expected) v"

subsection \<open>Rendering\<close>

fun event_type_to_string :: "event_type \<Rightarrow> string" where
  "event_type_to_string MatchEntered = ''MATCH_ENTERED''"
| "event_type_to_string MatchLeft = ''MATCH_LEFT''"
| "event_type_to_string FreezeStarted = ''FREEZE_STARTED''"
| "event_type_to_string FreezeEnded = ''FREEZE_ENDED''"
| "event_type_to_string RoundStarted = ''ROUND_STARTED''"
| "event_type_to_string RoundEnded = ''ROUND_ENDED''"
| "event_type_to_string RoundWon = ''ROUND_WON''"
| "event_type_to_string RoundLost = ''ROUND_LOST''"
| "event_type_to_string TeamChanged = ''TEAM_CHANGED''"
| "event_type_to_string LocalPlayerAcquired = ''LOCAL_PLAYER_ACQUIRED''"
| "event_type_to_string LocalPlayerLost = ''LOCAL_PLAYER_LOST''"
| "event_type_to_string LocalPlayerRestored = ''LOCAL_PLAYER_RESTORED''"
| "event_type_to_string PlayerRespawned = ''PLAYER_RESPAWNED''"
| "event_type_to_string PlayerDamaged = ''PLAYER_DAMAGED''"
| "event_type_to_string PlayerDied = ''PLAYER_DIED''"
| "event_type_to_string PlayerKill = ''PLAYER_KILL''"
| "event_type_to_string PlayerHeadshotKill = ''PLAYER_HEADSHOT_KILL''"
| "event_type_to_string PlayerAssist = ''PLAYER_ASSIST''"
| "event_type_to_string PlayerFlashed = ''PLAYER_FLASHED''"
| "event_type_to_string PlayerSmoked = ''PLAYER_SMOKED''"
| "event_type_to_string PlayerBurning = ''PLAYER_BURNING''"
| "event_type_to_string AceCandidate = ''ACE_CANDIDATE''"
| "event_type_to_string Ace = ''ACE''"
| "event_type_to_string ClutchStarted = ''CLUTCH_STARTED''"
| "event_type_to_string ClutchUpdated = ''CLUTCH_UPDATED''"
| "event_type_to_string ClutchEnded = ''CLUTCH_ENDED''"
| "event_type_to_string MvpGained = ''MVP_GAINED''"
| "event_type_to_string BombPlanted = ''BOMB_PLANTED''"
| "event_type_to_string BombDefused = ''BOMB_DEFUSED''"
| "event_type_to_string BombExploded = ''BOMB_EXPLODED''"
| "event_type_to_string BombStateCleared = ''BOMB_STATE_CLEARED''"
| "event_type_to_string HalftimeStarted = ''HALFTIME_STARTED''"
| "event_type_to_string HalftimeEnded = ''HALFTIME_ENDED''"
| "event_type_to_string GameOver = ''GAME_OVER''"

fun evidence_to_string :: "event_evidence \<Rightarrow> string" where
  "evidence_to_string Deterministic = ''deterministic''"
| "evidence_to_string ModeAssumption = ''mode-assumption''"
| "evidence_to_string Heuristic = ''heuristic''"

text \<open>The lambda \<open>append\<close> of \<open>describe_sources\<close>.\<close>

definition append_name :: "string \<Rightarrow> string \<Rightarrow> string" where
  "append_name result name = (if result \<noteq> [] then result @ ''+'' else result) @ name"

definition describe_sources :: "event_source \<Rightarrow> string" where
  "describe_sources sources =
     (let r0 = [];
          r1 = (if has_source sources src_gsi then append_name r0 ''gsi'' else r0);
          r2 = (if has_source sources src_mode_rules then append_name r1 ''mode-rules'' else r1);
          r3 = (if has_source sources src_supplementary then append_name r2 ''supplementary'' else r2)
      in if r3 = [] then ''none'' else r3)"

definition describe_event :: "event \<Rightarrow> string" where
  "describe_event e =
     event_type_to_string (ev_type e)
     @ (case ev_amount e of None \<Rightarrow> [] | Some a \<Rightarrow> '' amount='' @ int_to_string a)
     @ (case ev_value e of None \<Rightarrow> [] | Some v \<Rightarrow> '' value='' @ int_to_string v)
     @ (if ev_from e \<noteq> [] \<or> ev_to e \<noteq> [] then '' '' @ ev_from e @ ''->'' @ ev_to e else [])
     @ (if ev_evidence e \<noteq> Deterministic then '' evidence='' @ evidence_to_string (ev_evidence e) else [])
     @ (if ev_sources e \<noteq> src_gsi then '' sources='' @ describe_sources (ev_sources e) else [])"

end
