(* ===== verification/Event_Detector.thy ===== *)
theory Event_Detector
  imports Events Transducer
begin

text \<open>
  The factual layer: class \<open>EventDetector\<close> of \<open>src/event_detector.cpp\<close>. Its members
  are the record \<open>detector\<close> (prefix \<open>det_\<close>, without the trailing underscore of the
  source); \<open>process\<close> is one definition per block of the source's function, composed in
  the order of the source by \<open>process_next\<close>, each block taking the members it reads and
  returning the events it pushes with the members it writes.
\<close>

subsection \<open>State\<close>

record detector =
  det_previous :: "game_state option"
  det_last_ended_round :: "i32 option"
  det_last_outcome_round :: "i32 option"
  det_last_known_local_hp :: "i32 option"
  det_last_known_local_mvps :: "i32 option"
  det_last_known_local_assists :: "i32 option"
  det_last_known_local_team :: "string option"
  det_local_player_ever_acquired :: bool
  det_local_observation_lost :: bool

definition init_detector :: detector where
  "init_detector = \<lparr>
     det_previous = None, det_last_ended_round = None, det_last_outcome_round = None,
     det_last_known_local_hp = None, det_last_known_local_mvps = None,
     det_last_known_local_assists = None, det_last_known_local_team = None,
     det_local_player_ever_acquired = False, det_local_observation_lost = False\<rparr>"

definition clear_match_memory :: "detector \<Rightarrow> detector" where
  "clear_match_memory d = d\<lparr>
     det_last_ended_round := None, det_last_outcome_round := None,
     det_last_known_local_hp := None, det_last_known_local_mvps := None,
     det_last_known_local_assists := None, det_last_known_local_team := None,
     det_local_player_ever_acquired := False, det_local_observation_lost := False\<rparr>"

definition reset_detector :: "detector \<Rightarrow> detector" where
  "reset_detector d = clear_match_memory (d\<lparr>det_previous := None\<rparr>)"

subsection \<open>Predicates on snapshots\<close>

definition changed_to :: "string option \<Rightarrow> string option \<Rightarrow> string \<Rightarrow> bool" where
  "changed_to prev cur expected \<longleftrightarrow>
     equals cur expected \<and> (prev = None \<or> opt_holds (\<lambda>s. s \<noteq> expected) prev)"

definition ace_candidate_threshold :: "game_state \<Rightarrow> i32 option" where
  "ace_candidate_threshold st =
     (if equals (gs_map_mode st) ''competitive'' then Some 5
      else if equals (gs_map_mode st) ''retakes'' then
        (if equals (gs_player_team st) ''CT'' then Some 3
         else if equals (gs_player_team st) ''T'' then Some 4
         else None)
      else None)"

text \<open>\<open>a && b && *b > *a\<close> on two optional counters, and the event that reports the rise.\<close>

definition rose :: "i32 option \<Rightarrow> i32 option \<Rightarrow> bool" where
  "rose before after = opt_rel (\<lambda>a b. b > a) before after"

definition delta_event :: "event_type \<Rightarrow> game_state \<Rightarrow> i32 option \<Rightarrow> i32 option \<Rightarrow> event" where
  "delta_event ty cur before after = (make_event ty cur)
     \<lparr>ev_amount := Some (i32_sub (the after) (the before)), ev_value := Some (the after)\<rparr>"

definition value_event :: "event_type \<Rightarrow> game_state \<Rightarrow> i32 option \<Rightarrow> event" where
  "value_event ty cur v = (make_event ty cur)\<lparr>ev_value := Some (the v)\<rparr>"

text \<open>\<open>current.flashed && *current.flashed > 0 && (!previous.flashed || *previous.flashed <= 0)\<close>.\<close>

definition became_positive :: "i32 option \<Rightarrow> i32 option \<Rightarrow> bool" where
  "became_positive before after \<longleftrightarrow>
     opt_holds (\<lambda>v. v > 0) after \<and> (before = None \<or> opt_holds (\<lambda>v. v \<le> 0) before)"

subsection \<open>The blocks of \<open>process\<close>\<close>

definition remember_local :: "game_state \<Rightarrow> detector \<Rightarrow> detector" where
  "remember_local cur d =
     (if gs_local_player_valid cur then d\<lparr>
        det_last_known_local_hp := remember (gs_health cur) (det_last_known_local_hp d),
        det_last_known_local_mvps := remember (gs_mvps cur) (det_last_known_local_mvps d),
        det_last_known_local_assists := remember (gs_assists cur) (det_last_known_local_assists d),
        det_last_known_local_team := remember (gs_player_team cur) (det_last_known_local_team d)\<rparr>
      else d)"

definition process_first :: "detector \<Rightarrow> game_state \<Rightarrow> event list \<times> detector" where
  "process_first d cur =
     (let attached = gs_map_name cur \<noteq> None;
          acquired = attached \<and> gs_local_player_valid cur;
          evs = emit_if attached (make_event MatchEntered cur)
                @ emit_if acquired (make_event LocalPlayerAcquired cur);
          d1 = (if acquired then d\<lparr>det_local_player_ever_acquired := True\<rparr> else d)
      in (evs, (remember_local cur d1)\<lparr>det_previous := Some cur\<rparr>))"

definition acquire_block :: "game_state \<Rightarrow> detector \<Rightarrow> event list \<times> detector" where
  "acquire_block cur d =
     (if gs_map_name cur \<noteq> None \<and> gs_local_player_valid cur \<and> \<not> det_local_player_ever_acquired d
      then ([make_event LocalPlayerAcquired cur], d\<lparr>det_local_player_ever_acquired := True\<rparr>)
      else ([], d))"

definition other_observed :: "game_state \<Rightarrow> bool" where
  "other_observed cur \<longleftrightarrow>
     gs_provider_steamid cur \<noteq> None \<and> gs_observed_steamid cur \<noteq> None \<and> \<not> gs_local_player_valid cur"

definition lost_block :: "game_state \<Rightarrow> detector \<Rightarrow> event list \<times> detector" where
  "lost_block cur d =
     (if det_local_player_ever_acquired d \<and> other_observed cur \<and> \<not> det_local_observation_lost d
      then ([make_event LocalPlayerLost cur], d\<lparr>det_local_observation_lost := True\<rparr>)
      else ([], d))"

definition restore_block :: "game_state \<Rightarrow> detector \<Rightarrow> event list \<times> detector" where
  "restore_block cur d =
     (if det_local_player_ever_acquired d \<and> det_local_observation_lost d \<and> gs_local_player_valid cur
      then
        ([make_event LocalPlayerRestored cur]
         @ emit_if (opt_holds (\<lambda>v. v = 0) (det_last_known_local_hp d)
                    \<and> opt_holds (\<lambda>v. v > 0) (gs_health cur))
             (make_event PlayerRespawned cur)
         @ emit_if (rose (det_last_known_local_mvps d) (gs_mvps cur))
             (delta_event MvpGained cur (det_last_known_local_mvps d) (gs_mvps cur))
         @ emit_if (rose (det_last_known_local_assists d) (gs_assists cur))
             (delta_event PlayerAssist cur (det_last_known_local_assists d) (gs_assists cur)),
         d\<lparr>det_local_observation_lost := False\<rparr>)
      else ([], d))"

definition health_events :: "game_state \<Rightarrow> game_state \<Rightarrow> event list" where
  "health_events prev cur =
     emit_if (opt_rel (\<lambda>a b. b < a) (gs_health prev) (gs_health cur))
       ((make_event PlayerDamaged cur)\<lparr>
          ev_amount := Some (i32_sub (the (gs_health prev)) (the (gs_health cur))),
          ev_value := Some (the (gs_health cur))\<rparr>)
     @ (if opt_rel (\<lambda>a b. a > 0 \<and> b = 0) (gs_health prev) (gs_health cur)
        then [make_event PlayerDied cur]
        else emit_if (opt_rel (\<lambda>a b. a = 0 \<and> b > 0) (gs_health prev) (gs_health cur))
               (make_event PlayerRespawned cur))"

definition ace_candidate_event :: "game_state \<Rightarrow> event" where
  "ace_candidate_event cur = (make_event AceCandidate cur)\<lparr>
     ev_evidence := ModeAssumption, ev_sources := src_gsi OR src_mode_rules,
     ev_value := Some (the (gs_round_kills cur))\<rparr>"

definition crossed_threshold :: "game_state \<Rightarrow> game_state \<Rightarrow> bool" where
  "crossed_threshold prev cur \<longleftrightarrow>
     (equals (gs_round_phase prev) ''live'' \<or> equals (gs_round_phase cur) ''live'')
     \<and> opt_holds (\<lambda>t. the (gs_round_kills prev) < t \<and> the (gs_round_kills cur) \<ge> t)
         (ace_candidate_threshold cur)"

definition kill_events :: "game_state \<Rightarrow> game_state \<Rightarrow> event list" where
  "kill_events prev cur =
     (if rose (gs_round_kills prev) (gs_round_kills cur) then
        [delta_event PlayerKill cur (gs_round_kills prev) (gs_round_kills cur)]
        @ emit_if (crossed_threshold prev cur) (ace_candidate_event cur)
      else [])"

definition local_events :: "game_state \<Rightarrow> game_state \<Rightarrow> event list" where
  "local_events prev cur =
     (if gs_local_player_valid prev \<and> gs_local_player_valid cur then
        health_events prev cur
        @ kill_events prev cur
        @ emit_if (rose (gs_round_headshot_kills prev) (gs_round_headshot_kills cur))
            (delta_event PlayerHeadshotKill cur (gs_round_headshot_kills prev) (gs_round_headshot_kills cur))
        @ emit_if (rose (gs_assists prev) (gs_assists cur))
            (delta_event PlayerAssist cur (gs_assists prev) (gs_assists cur))
        @ emit_if (became_positive (gs_flashed prev) (gs_flashed cur))
            (value_event PlayerFlashed cur (gs_flashed cur))
        @ emit_if (became_positive (gs_smoked prev) (gs_smoked cur))
            (value_event PlayerSmoked cur (gs_smoked cur))
        @ emit_if (became_positive (gs_burning prev) (gs_burning cur))
            (value_event PlayerBurning cur (gs_burning cur))
        @ emit_if (rose (gs_mvps prev) (gs_mvps cur))
            (delta_event MvpGained cur (gs_mvps prev) (gs_mvps cur))
      else [])"

definition bomb_events :: "game_state \<Rightarrow> game_state \<Rightarrow> event list" where
  "bomb_events prev cur =
     emit_if (changed_to (gs_bomb_state prev) (gs_bomb_state cur) ''planted'')
       (make_event BombPlanted cur)
     @ emit_if (changed_to (gs_bomb_state prev) (gs_bomb_state cur) ''defused'')
       (make_event BombDefused cur)
     @ emit_if (changed_to (gs_bomb_state prev) (gs_bomb_state cur) ''exploded'')
       (make_event BombExploded cur)
     @ emit_if (equals (gs_bomb_state prev) ''planted'' \<and> \<not> equals (gs_bomb_state cur) ''planted'')
       (make_event BombStateCleared cur)"

definition game_over_started :: "game_state \<Rightarrow> game_state \<Rightarrow> bool" where
  "game_over_started prev cur = changed_to (gs_map_phase prev) (gs_map_phase cur) ''gameover''"

definition winner_appeared :: "game_state \<Rightarrow> game_state \<Rightarrow> bool" where
  "winner_appeared prev cur \<longleftrightarrow>
     gs_round_winner cur \<noteq> None \<and>
     (gs_round_winner prev = None \<or> gs_round_winner prev \<noteq> gs_round_winner cur)"

definition round_end_evidence :: "game_state \<Rightarrow> game_state \<Rightarrow> bool" where
  "round_end_evidence prev cur \<longleftrightarrow>
     equals (gs_round_phase prev) ''live'' \<and>
     ((equals (gs_round_phase prev) ''live'' \<and> equals (gs_round_phase cur) ''over'')
      \<or> rose (gs_map_round prev) (gs_map_round cur)
      \<or> winner_appeared prev cur
      \<or> game_over_started prev cur)"

definition ended_round :: "game_state \<Rightarrow> game_state \<Rightarrow> i32 option" where
  "ended_round prev cur =
     (if round_end_evidence prev cur
      then Some (value_or (gs_map_round prev) (value_or (gs_map_round cur) (- 1)))
      else None)"

definition round_end_block ::
    "game_state \<Rightarrow> game_state \<Rightarrow> detector \<Rightarrow> event list \<times> detector" where
  "round_end_block prev cur d =
     (case ended_round prev cur of
        None \<Rightarrow> ([], d)
      | Some r \<Rightarrow>
          if det_last_ended_round d = None \<or> opt_holds (\<lambda>l. l \<noteq> r) (det_last_ended_round d) then
            ([(make_event RoundEnded cur)\<lparr>
                ev_value := Some r,
                ev_to := (case gs_round_winner cur of None \<Rightarrow> [] | Some w \<Rightarrow> w)\<rparr>],
             d\<lparr>det_last_ended_round := Some r\<rparr>)
          else ([], d))"

definition outcome_team :: "game_state \<Rightarrow> detector \<Rightarrow> string option" where
  "outcome_team cur d =
     (if det_last_known_local_team d \<noteq> None then det_last_known_local_team d
      else if gs_local_player_valid cur then gs_player_team cur else None)"

definition outcome_round :: "game_state \<Rightarrow> game_state \<Rightarrow> detector \<Rightarrow> i32 option" where
  "outcome_round prev cur d =
     (if ended_round prev cur \<noteq> None then ended_round prev cur else det_last_ended_round d)"

definition outcome_block ::
    "game_state \<Rightarrow> game_state \<Rightarrow> detector \<Rightarrow> event list \<times> detector" where
  "outcome_block prev cur d =
     (case (gs_round_winner cur, outcome_team cur d, outcome_round prev cur d) of
        (Some winner, Some team, Some r) \<Rightarrow>
          if (round_end_evidence prev cur \<or> winner_appeared prev cur)
             \<and> (det_last_outcome_round d = None \<or> opt_holds (\<lambda>l. l \<noteq> r) (det_last_outcome_round d))
          then
            ([(make_event (if winner = team then RoundWon else RoundLost) cur)\<lparr>
                ev_value := Some r, ev_from := team, ev_to := winner\<rparr>],
             d\<lparr>det_last_outcome_round := Some r\<rparr>)
          else ([], d)
      | _ \<Rightarrow> ([], d))"

definition phase_events :: "game_state \<Rightarrow> game_state \<Rightarrow> event list" where
  "phase_events prev cur =
     emit_if (changed_to (gs_round_phase prev) (gs_round_phase cur) ''freezetime''
              \<and> \<not> equals (gs_map_phase cur) ''gameover'')
       (make_event FreezeStarted cur)
     @ (if equals (gs_round_phase prev) ''freezetime'' \<and> equals (gs_round_phase cur) ''live''
        then [make_event FreezeEnded cur, make_event RoundStarted cur] else [])
     @ emit_if (changed_to (gs_map_phase prev) (gs_map_phase cur) ''intermission'')
       (make_event HalftimeStarted cur)
     @ emit_if (equals (gs_map_phase prev) ''intermission''
                \<and> \<not> equals (gs_map_phase cur) ''intermission'')
       (make_event HalftimeEnded cur)"

definition team_events :: "game_state \<Rightarrow> detector \<Rightarrow> event list" where
  "team_events cur d =
     emit_if (gs_local_player_valid cur
              \<and> opt_rel (\<lambda>now known. now \<noteq> known) (gs_player_team cur) (det_last_known_local_team d))
       ((make_event TeamChanged cur)\<lparr>
          ev_from := the (det_last_known_local_team d), ev_to := the (gs_player_team cur)\<rparr>)"

definition process_next ::
    "detector \<Rightarrow> game_state \<Rightarrow> game_state \<Rightarrow> event list \<times> detector" where
  "process_next d prev cur =
     (if gs_map_name prev \<noteq> None \<and> gs_map_name cur = None then
        ([make_event MatchLeft cur], (clear_match_memory d)\<lparr>det_previous := Some cur\<rparr>)
      else
        (let entered = gs_map_name prev = None \<and> gs_map_name cur \<noteq> None;
             d0 = (if entered then clear_match_memory d else d);
             (acquired, d1) = acquire_block cur d0;
             (lost, d2) = lost_block cur d1;
             (restored, d3) = restore_block cur d2;
             (ended, d4) = round_end_block prev cur d3;
             (outcome, d5) = outcome_block prev cur d4
         in (emit_if entered (make_event MatchEntered cur)
             @ acquired @ lost @ restored
             @ local_events prev cur
             @ bomb_events prev cur
             @ ended @ outcome
             @ phase_events prev cur
             @ team_events cur d5
             @ emit_if (game_over_started prev cur) (make_event GameOver cur),
             (remember_local cur d5)\<lparr>det_previous := Some cur\<rparr>)))"

definition process :: "detector \<Rightarrow> game_state \<Rightarrow> event list \<times> detector" where
  "process d cur =
     (if \<not> gs_payload_valid cur then ([], d)
      else (case det_previous d of
              None \<Rightarrow> process_first d cur
            | Some prev \<Rightarrow> process_next d prev cur))"

end
