(* ===== verification/Detector_Lifecycle.thy ===== *)
theory Detector_Lifecycle
  imports Event_Detector
begin

text \<open>
  What the factual layer promises about the observation of the local player and about
  rounds, as two small automata that read the event stream: \<open>observe\<close> (attachment,
  acquisition, loss and restoration) and \<open>round_watch\<close> (round ends and outcomes). The
  detector refines both: its members determine the automaton's state, and every batch it
  emits is a legal path between the states before and after.
\<close>

subsection \<open>Neutral events\<close>

lemma monitor_run_neutral:
  "(\<And>e. e \<in> set es \<Longrightarrow> mon m e = Some m) \<Longrightarrow> monitor_run mon m es = Some m"
  by (induction es) auto

lemma make_event_simps [simp]:
  "ev_type (make_event ty st) = ty"
  "ev_evidence (make_event ty st) = Deterministic"
  "ev_sources (make_event ty st) = src_gsi"
  "ev_sequence (make_event ty st) = gs_sequence st"
  "ev_relative_us (make_event ty st) = gs_relative_us st"
  by (simp_all add: make_event_def)

lemma delta_event_simps [simp]:
  "ev_type (delta_event ty cur a b) = ty"
  "ev_evidence (delta_event ty cur a b) = Deterministic"
  "ev_sources (delta_event ty cur a b) = src_gsi"
  "ev_sequence (delta_event ty cur a b) = gs_sequence cur"
  "ev_relative_us (delta_event ty cur a b) = gs_relative_us cur"
  "ev_amount (delta_event ty cur a b) = Some (i32_sub (the b) (the a))"
  "ev_value (delta_event ty cur a b) = Some (the b)"
  by (simp_all add: delta_event_def)

lemma value_event_simps [simp]:
  "ev_type (value_event ty cur a) = ty"
  "ev_evidence (value_event ty cur a) = Deterministic"
  "ev_sources (value_event ty cur a) = src_gsi"
  "ev_sequence (value_event ty cur a) = gs_sequence cur"
  "ev_relative_us (value_event ty cur a) = gs_relative_us cur"
  "ev_value (value_event ty cur a) = Some (the a)"
  by (simp_all add: value_event_def)

lemma ace_candidate_event_simps [simp]:
  "ev_type (ace_candidate_event cur) = AceCandidate"
  "ev_evidence (ace_candidate_event cur) = ModeAssumption"
  "ev_sources (ace_candidate_event cur) = src_gsi OR src_mode_rules"
  "ev_sequence (ace_candidate_event cur) = gs_sequence cur"
  "ev_relative_us (ace_candidate_event cur) = gs_relative_us cur"
  "ev_value (ace_candidate_event cur) = Some (the (gs_round_kills cur))"
  by (simp_all add: ace_candidate_event_def)

subsection \<open>What each block writes\<close>

named_theorems block_simps

lemma clear_match_memory_simps [block_simps, simp]:
  "det_previous (clear_match_memory d) = det_previous d"
  "det_last_ended_round (clear_match_memory d) = None"
  "det_last_outcome_round (clear_match_memory d) = None"
  "det_last_known_local_hp (clear_match_memory d) = None"
  "det_last_known_local_mvps (clear_match_memory d) = None"
  "det_last_known_local_assists (clear_match_memory d) = None"
  "det_last_known_local_team (clear_match_memory d) = None"
  "\<not> det_local_player_ever_acquired (clear_match_memory d)"
  "\<not> det_local_observation_lost (clear_match_memory d)"
  by (simp_all add: clear_match_memory_def)

lemma remember_local_simps [block_simps, simp]:
  "det_previous (remember_local cur d) = det_previous d"
  "det_last_ended_round (remember_local cur d) = det_last_ended_round d"
  "det_last_outcome_round (remember_local cur d) = det_last_outcome_round d"
  "det_local_player_ever_acquired (remember_local cur d) = det_local_player_ever_acquired d"
  "det_local_observation_lost (remember_local cur d) = det_local_observation_lost d"
  by (simp_all add: remember_local_def)

lemma init_detector_simps [block_simps, simp]:
  "det_previous init_detector = None"
  "det_last_ended_round init_detector = None"
  "det_last_outcome_round init_detector = None"
  "det_last_known_local_hp init_detector = None"
  "det_last_known_local_mvps init_detector = None"
  "det_last_known_local_assists init_detector = None"
  "det_last_known_local_team init_detector = None"
  "\<not> det_local_player_ever_acquired init_detector"
  "\<not> det_local_observation_lost init_detector"
  by (simp_all add: init_detector_def)

text \<open>The round blocks leave the members of local observation alone, and the other way round.\<close>

lemma round_end_block_frame [block_simps]:
  "det_previous (snd (round_end_block prev cur d)) = det_previous d"
  "det_last_outcome_round (snd (round_end_block prev cur d)) = det_last_outcome_round d"
  "det_last_known_local_team (snd (round_end_block prev cur d)) = det_last_known_local_team d"
  "det_local_player_ever_acquired (snd (round_end_block prev cur d)) = det_local_player_ever_acquired d"
  "det_local_observation_lost (snd (round_end_block prev cur d)) = det_local_observation_lost d"
  by (simp_all add: round_end_block_def split: option.splits)

lemma outcome_block_frame [block_simps]:
  "det_previous (snd (outcome_block prev cur d)) = det_previous d"
  "det_last_ended_round (snd (outcome_block prev cur d)) = det_last_ended_round d"
  "det_last_known_local_team (snd (outcome_block prev cur d)) = det_last_known_local_team d"
  "det_local_player_ever_acquired (snd (outcome_block prev cur d)) = det_local_player_ever_acquired d"
  "det_local_observation_lost (snd (outcome_block prev cur d)) = det_local_observation_lost d"
  by (simp_all add: outcome_block_def split: option.splits)

lemma observation_block_frame [block_simps]:
  "det_last_ended_round (snd (acquire_block cur d)) = det_last_ended_round d"
  "det_last_ended_round (snd (lost_block cur d)) = det_last_ended_round d"
  "det_last_ended_round (snd (restore_block cur d)) = det_last_ended_round d"
  "det_last_outcome_round (snd (acquire_block cur d)) = det_last_outcome_round d"
  "det_last_outcome_round (snd (lost_block cur d)) = det_last_outcome_round d"
  "det_last_outcome_round (snd (restore_block cur d)) = det_last_outcome_round d"
  "det_last_known_local_team (snd (acquire_block cur d)) = det_last_known_local_team d"
  "det_last_known_local_team (snd (lost_block cur d)) = det_last_known_local_team d"
  "det_last_known_local_team (snd (restore_block cur d)) = det_last_known_local_team d"
  by (simp_all add: acquire_block_def lost_block_def restore_block_def)

text \<open>\<open>process_next\<close> with the projections written out.\<close>

definition after_enter :: "detector \<Rightarrow> game_state \<Rightarrow> game_state \<Rightarrow> detector" where
  "after_enter d prev cur =
     (if gs_map_name prev = None \<and> gs_map_name cur \<noteq> None then clear_match_memory d else d)"

definition after_observation :: "detector \<Rightarrow> game_state \<Rightarrow> detector" where
  "after_observation d cur =
     snd (restore_block cur (snd (lost_block cur (snd (acquire_block cur d)))))"

definition observation_events :: "detector \<Rightarrow> game_state \<Rightarrow> event list" where
  "observation_events d cur =
     (let d1 = snd (acquire_block cur d); d2 = snd (lost_block cur d1)
      in fst (acquire_block cur d) @ fst (lost_block cur d1) @ fst (restore_block cur d2))"

lemma process_next_stay:
  assumes "\<not> (gs_map_name prev \<noteq> None \<and> gs_map_name cur = None)"
  shows "process_next d prev cur =
    (let d3 = after_observation (after_enter d prev cur) cur;
         d4 = snd (round_end_block prev cur d3);
         d5 = snd (outcome_block prev cur d4)
     in (emit_if (gs_map_name prev = None \<and> gs_map_name cur \<noteq> None) (make_event MatchEntered cur)
         @ observation_events (after_enter d prev cur) cur
         @ local_events prev cur
         @ bomb_events prev cur
         @ fst (round_end_block prev cur d3) @ fst (outcome_block prev cur d4)
         @ phase_events prev cur
         @ team_events cur d5
         @ emit_if (game_over_started prev cur) (make_event GameOver cur),
         (remember_local cur d5)\<lparr>det_previous := Some cur\<rparr>))"
  unfolding process_next_def if_not_P [OF assms]
  by (simp add: after_enter_def after_observation_def observation_events_def
      Let_def case_prod_beta)

lemma process_next_leave:
  "gs_map_name prev \<noteq> None \<Longrightarrow> gs_map_name cur = None \<Longrightarrow>
   process_next d prev cur =
     ([make_event MatchLeft cur], (clear_match_memory d)\<lparr>det_previous := Some cur\<rparr>)"
  by (simp add: process_next_def)

subsection \<open>The observation automaton\<close>

datatype observer = ObsDetached | ObsWaiting | ObsTracking | ObsAway

definition local_player_event :: "event_type \<Rightarrow> bool" where
  "local_player_event ty \<longleftrightarrow> ty \<in>
     {PlayerRespawned, PlayerDamaged, PlayerDied, PlayerKill, PlayerHeadshotKill, PlayerAssist,
      PlayerFlashed, PlayerSmoked, PlayerBurning, AceCandidate, MvpGained, TeamChanged}"

text \<open>
  No map attached; attached and waiting for the local player; tracking the local player;
  attached and looking at somebody else. Events about the local player are legal only while
  it is tracked (or while no map is attached).
\<close>

definition observe :: "observer \<Rightarrow> event \<Rightarrow> observer option" where
  "observe m e =
     (let ty = ev_type e in
      if ty = MatchEntered then (if m = ObsDetached then Some ObsWaiting else None)
      else if ty = MatchLeft then (if m = ObsDetached then None else Some ObsDetached)
      else if ty = LocalPlayerAcquired then (if m = ObsWaiting then Some ObsTracking else None)
      else if ty = LocalPlayerLost then (if m = ObsTracking then Some ObsAway else None)
      else if ty = LocalPlayerRestored then (if m = ObsAway then Some ObsTracking else None)
      else if local_player_event ty then
        (if m = ObsTracking \<or> m = ObsDetached then Some m else None)
      else Some m)"

definition observation_of :: "bool \<Rightarrow> detector \<Rightarrow> observer" where
  "observation_of attached d =
     (if \<not> attached then ObsDetached
      else if \<not> det_local_player_ever_acquired d then ObsWaiting
      else if det_local_observation_lost d then ObsAway
      else ObsTracking)"

definition attached :: "detector \<Rightarrow> bool" where
  "attached d = opt_holds (\<lambda>p. gs_map_name p \<noteq> None) (det_previous d)"

definition detector_observer :: "detector \<Rightarrow> observer" where
  "detector_observer d = observation_of (attached d) d"

definition observation_inv :: "detector \<Rightarrow> bool" where
  "observation_inv d \<longleftrightarrow>
     (det_local_player_ever_acquired d \<longrightarrow> attached d)
     \<and> (det_local_observation_lost d \<longrightarrow> det_local_player_ever_acquired d)"

lemma observation_inv_init: "observation_inv init_detector"
  by (simp add: observation_inv_def)

lemma detector_observer_init: "detector_observer init_detector = ObsDetached"
  by (simp add: detector_observer_def observation_of_def attached_def)

lemma observe_neutral:
  "ev_type e \<notin> {MatchEntered, MatchLeft, LocalPlayerAcquired, LocalPlayerLost, LocalPlayerRestored}
   \<Longrightarrow> \<not> local_player_event (ev_type e) \<or> m = ObsTracking \<or> m = ObsDetached \<Longrightarrow> observe m e = Some m"
  by (auto simp: observe_def Let_def)

lemma local_events_types:
  "e \<in> set (local_events prev cur) \<Longrightarrow>
   local_player_event (ev_type e) \<and> gs_local_player_valid prev \<and> gs_local_player_valid cur"
  by (auto simp: local_events_def health_events_def kill_events_def local_player_event_def
      split: if_splits)

lemma team_events_types:
  "e \<in> set (team_events cur d) \<Longrightarrow> ev_type e = TeamChanged \<and> gs_local_player_valid cur"
  by (auto simp: team_events_def)

lemma bomb_events_types:
  "e \<in> set (bomb_events prev cur) \<Longrightarrow>
   ev_type e \<in> {BombPlanted, BombDefused, BombExploded, BombStateCleared}"
  by (auto simp: bomb_events_def)

lemma phase_events_types:
  "e \<in> set (phase_events prev cur) \<Longrightarrow>
   ev_type e \<in> {FreezeStarted, FreezeEnded, RoundStarted, HalftimeStarted, HalftimeEnded}"
  by (auto simp: phase_events_def split: if_splits)

lemma round_end_block_types:
  "e \<in> set (fst (round_end_block prev cur d)) \<Longrightarrow> ev_type e = RoundEnded"
  by (auto simp: round_end_block_def split: option.splits if_splits)

lemma outcome_block_types:
  "e \<in> set (fst (outcome_block prev cur d)) \<Longrightarrow> ev_type e \<in> {RoundWon, RoundLost}"
  by (auto simp: outcome_block_def split: option.splits if_splits)

lemma observation_events_types:
  "e \<in> set (observation_events d cur) \<Longrightarrow> ev_type e \<in>
     {LocalPlayerAcquired, LocalPlayerLost, LocalPlayerRestored, PlayerRespawned, MvpGained, PlayerAssist}"
  by (auto simp: observation_events_def Let_def acquire_block_def lost_block_def restore_block_def
      split: if_splits)

lemma after_enter_acquired:
  "observation_inv d \<Longrightarrow> det_previous d = Some prev \<Longrightarrow> gs_map_name cur \<noteq> None \<or> gs_map_name prev = None \<Longrightarrow>
   observation_inv (after_enter d prev cur) \<and>
   (gs_map_name prev = None \<longrightarrow> \<not> det_local_player_ever_acquired (after_enter d prev cur))"
  by (auto simp: observation_inv_def after_enter_def attached_def)

text \<open>The observation blocks, from any state of the automaton with a map attached.\<close>

lemma observation_block_path:
  assumes "det_local_observation_lost d \<longrightarrow> det_local_player_ever_acquired d"
    and "\<not> at \<longrightarrow> \<not> det_local_player_ever_acquired d" and "at \<longleftrightarrow> gs_map_name cur \<noteq> None"
  shows "monitor_run observe (observation_of at d) (observation_events d cur)
     = Some (observation_of at (after_observation d cur))"
  using assms
  by (auto simp: observation_of_def observation_events_def after_observation_def Let_def
      acquire_block_def lost_block_def restore_block_def other_observed_def emit_if_def
      observe_def local_player_event_def)

lemma after_observation_inv:
  assumes "det_local_observation_lost d \<longrightarrow> det_local_player_ever_acquired d"
    and "gs_map_name cur = None \<longrightarrow> \<not> det_local_player_ever_acquired d"
  shows "(det_local_player_ever_acquired (after_observation d cur) \<longrightarrow> gs_map_name cur \<noteq> None)
     \<and> (det_local_observation_lost (after_observation d cur) \<longrightarrow>
        det_local_player_ever_acquired (after_observation d cur))
     \<and> (gs_local_player_valid cur \<longrightarrow>
        observation_of (gs_map_name cur \<noteq> None) (after_observation d cur) \<in> {ObsTracking, ObsDetached})"
  using assms
  by (auto simp: after_observation_def acquire_block_def lost_block_def restore_block_def
      other_observed_def observation_of_def)

lemma after_round_blocks_observation:
  "observation_of at (snd (outcome_block prev cur (snd (round_end_block prev cur d)))) = observation_of at d"
  by (simp add: observation_of_def block_simps)

lemma process_next_stay_observed:
  assumes inv: "observation_inv d" and prev: "det_previous d = Some prev"
    and stay: "\<not> (gs_map_name prev \<noteq> None \<and> gs_map_name cur = None)"
  shows "observation_inv (snd (process_next d prev cur)) \<and>
     monitor_run observe (detector_observer d) (fst (process_next d prev cur))
       = Some (detector_observer (snd (process_next d prev cur)))"
proof -
  let ?at = "gs_map_name cur \<noteq> None"
  let ?entered = "gs_map_name prev = None \<and> ?at"
  let ?d0 = "after_enter d prev cur" and ?d3 = "after_observation (after_enter d prev cur) cur"
  let ?d5 = "snd (outcome_block prev cur (snd (round_end_block prev cur ?d3)))"
  have prem: "det_local_observation_lost ?d0 \<longrightarrow> det_local_player_ever_acquired ?d0"
    "gs_map_name cur = None \<longrightarrow> \<not> det_local_player_ever_acquired ?d0"
    using inv prev stay by (auto simp: observation_inv_def attached_def after_enter_def)
  note inv3 = after_observation_inv [OF prem]
  have enter: "monitor_run observe (detector_observer d) (emit_if ?entered (make_event MatchEntered cur))
      = Some (observation_of ?at ?d0)"
    using inv prev stay
    by (auto simp: detector_observer_def observation_of_def attached_def after_enter_def observe_def
        emit_if_def Let_def)
  have path: "monitor_run observe (observation_of ?at ?d0) (observation_events ?d0 cur)
      = Some (observation_of ?at ?d3)"
    by (rule observation_block_path) (use prem in auto)
  let ?rest = "local_events prev cur @ bomb_events prev cur
      @ fst (round_end_block prev cur ?d3)
      @ fst (outcome_block prev cur (snd (round_end_block prev cur ?d3)))
      @ phase_events prev cur @ team_events cur ?d5
      @ emit_if (game_over_started prev cur) (make_event GameOver cur)"
  have rest: "monitor_run observe (observation_of ?at ?d3) ?rest = Some (observation_of ?at ?d3)"
  proof (rule monitor_run_neutral)
    fix e
    assume e: "e \<in> set ?rest"
    have "ev_type e \<notin> {MatchEntered, MatchLeft, LocalPlayerAcquired, LocalPlayerLost, LocalPlayerRestored}"
      using e by (auto dest!: local_events_types bomb_events_types round_end_block_types
          outcome_block_types phase_events_types team_events_types simp: local_player_event_def)
    moreover have "\<not> local_player_event (ev_type e) \<or> gs_local_player_valid cur"
      using e by (auto dest!: local_events_types bomb_events_types round_end_block_types
          outcome_block_types phase_events_types team_events_types simp: local_player_event_def)
    ultimately show "observe (observation_of ?at ?d3) e = Some (observation_of ?at ?d3)"
      using inv3 by (intro observe_neutral) auto
  qed
  have after: "detector_observer (snd (process_next d prev cur)) = observation_of ?at ?d3"
    "observation_inv (snd (process_next d prev cur))"
    using inv3
    by (auto simp: process_next_stay [OF stay] Let_def detector_observer_def observation_of_def
        attached_def observation_inv_def block_simps)
  show ?thesis
    using after enter path rest
    by (simp add: process_next_stay [OF stay] Let_def monitor_run_append del: observe_neutral)
qed

lemma process_first_observed:
  "observation_inv d \<Longrightarrow> det_previous d = None \<Longrightarrow>
   observation_inv (snd (process_first d cur)) \<and>
   monitor_run observe (detector_observer d) (fst (process_first d cur))
     = Some (detector_observer (snd (process_first d cur)))"
  by (auto simp: process_first_def Let_def observation_inv_def attached_def detector_observer_def
      observation_of_def observe_def emit_if_def)

lemma process_next_leave_observed:
  "observation_inv d \<Longrightarrow> det_previous d = Some prev \<Longrightarrow>
   gs_map_name prev \<noteq> None \<Longrightarrow> gs_map_name cur = None \<Longrightarrow>
   observation_inv (snd (process_next d prev cur)) \<and>
   monitor_run observe (detector_observer d) (fst (process_next d prev cur))
     = Some (detector_observer (snd (process_next d prev cur)))"
  by (auto simp: process_next_leave observation_inv_def attached_def detector_observer_def
      observation_of_def observe_def Let_def)

lemma process_observed:
  assumes "observation_inv d"
  shows "observation_inv (snd (process d cur)) \<and>
     monitor_run observe (detector_observer d) (fst (process d cur))
       = Some (detector_observer (snd (process d cur)))"
proof (cases "gs_payload_valid cur")
  case False
  with assms show ?thesis by (simp add: process_def)
next
  case True
  note valid = True
  show ?thesis
  proof (cases "det_previous d")
    case None
    with process_first_observed [OF assms] valid show ?thesis by (simp add: process_def)
  next
    case (Some prev)
    with process_next_stay_observed [OF assms Some, of cur] process_next_leave_observed [OF assms Some]
      valid show ?thesis
      by (cases "gs_map_name prev \<noteq> None \<and> gs_map_name cur = None") (auto simp: process_def)
  qed
qed

interpretation observation: monitored process observation_inv "\<lambda>_. True" observe detector_observer
  by unfold_locales (simp_all add: process_observed)

subsection \<open>Rounds\<close>

text \<open>
  The automaton of rounds remembers the last round reported as ended and the last one
  reported as won or lost, within one attachment. A round end must name another round than
  the last one; an outcome must name the round that ended last and another one than the last outcome.
\<close>

definition round_watch ::
    "i32 option \<times> i32 option \<Rightarrow> event \<Rightarrow> (i32 option \<times> i32 option) option" where
  "round_watch m e =
     (let ty = ev_type e in
      if ty = MatchEntered \<or> ty = MatchLeft then Some (None, None)
      else if ty = RoundEnded then
        (if ev_value e \<noteq> None \<and> ev_value e \<noteq> fst m then Some (ev_value e, snd m) else None)
      else if ty = RoundWon \<or> ty = RoundLost then
        (if ev_value e \<noteq> None \<and> ev_value e = fst m \<and> ev_value e \<noteq> snd m
         then Some (fst m, ev_value e) else None)
      else Some m)"

definition detector_rounds :: "detector \<Rightarrow> i32 option \<times> i32 option" where
  "detector_rounds d = (det_last_ended_round d, det_last_outcome_round d)"

lemma round_watch_neutral:
  "ev_type e \<notin> {MatchEntered, MatchLeft, RoundEnded, RoundWon, RoundLost} \<Longrightarrow> round_watch m e = Some m"
  by (simp add: round_watch_def Let_def)

lemma round_end_block_watch:
  "monitor_run round_watch (det_last_ended_round d, w) (fst (round_end_block prev cur d))
   = Some (det_last_ended_round (snd (round_end_block prev cur d)), w)"
  by (auto simp: round_end_block_def round_watch_def opt_holds_iff split: option.splits)

lemma round_end_block_ended:
  "ended_round prev cur = Some r \<Longrightarrow> det_last_ended_round (snd (round_end_block prev cur d)) = Some r"
  by (auto simp: round_end_block_def opt_holds_iff split: option.splits)

lemma outcome_round_after_end:
  "outcome_round prev cur (snd (round_end_block prev cur d))
   = det_last_ended_round (snd (round_end_block prev cur d))"
  using round_end_block_ended by (auto simp: outcome_round_def)

lemma outcome_block_watch:
  "outcome_round prev cur d = det_last_ended_round d \<Longrightarrow>
   monitor_run round_watch (det_last_ended_round d, det_last_outcome_round d)
     (fst (outcome_block prev cur d))
   = Some (det_last_ended_round d, det_last_outcome_round (snd (outcome_block prev cur d)))"
  by (auto simp: outcome_block_def round_watch_def opt_holds_iff split: option.splits)

lemma after_observation_rounds [block_simps]:
  "det_last_ended_round (after_observation d cur) = det_last_ended_round d"
  "det_last_outcome_round (after_observation d cur) = det_last_outcome_round d"
  "det_last_known_local_team (after_observation d cur) = det_last_known_local_team d"
  by (simp_all add: after_observation_def block_simps)

lemma process_next_stay_rounds:
  assumes stay: "\<not> (gs_map_name prev \<noteq> None \<and> gs_map_name cur = None)"
  shows "monitor_run round_watch (detector_rounds d) (fst (process_next d prev cur))
       = Some (detector_rounds (snd (process_next d prev cur)))"
proof -
  let ?entered = "gs_map_name prev = None \<and> gs_map_name cur \<noteq> None"
  let ?d0 = "after_enter d prev cur" and ?d3 = "after_observation (after_enter d prev cur) cur"
  let ?d4 = "snd (round_end_block prev cur ?d3)"
  let ?d5 = "snd (outcome_block prev cur ?d4)"
  have enter: "monitor_run round_watch (detector_rounds d) (emit_if ?entered (make_event MatchEntered cur))
      = Some (detector_rounds ?d0)"
    by (simp add: emit_if_def detector_rounds_def after_enter_def round_watch_def)
  have d3: "detector_rounds ?d0 = detector_rounds ?d3"
    by (simp add: detector_rounds_def block_simps)
  let ?pre = "observation_events ?d0 cur @ local_events prev cur @ bomb_events prev cur"
  let ?post = "phase_events prev cur @ team_events cur ?d5
      @ emit_if (game_over_started prev cur) (make_event GameOver cur)"
  have neutral: "monitor_run round_watch m ?pre = Some m" "monitor_run round_watch m ?post = Some m" for m
    by (rule monitor_run_neutral, rule round_watch_neutral,
        auto dest!: local_events_types bomb_events_types observation_events_types
          phase_events_types team_events_types simp: local_player_event_def)+
  have ended: "monitor_run round_watch (detector_rounds ?d3) (fst (round_end_block prev cur ?d3))
      = Some (detector_rounds ?d4)"
    by (simp add: detector_rounds_def round_end_block_watch round_end_block_frame)
  have outcome: "monitor_run round_watch (detector_rounds ?d4) (fst (outcome_block prev cur ?d4))
      = Some (detector_rounds ?d5)"
    unfolding detector_rounds_def
    by (subst outcome_block_watch [OF outcome_round_after_end]) (simp add: outcome_block_frame)
  have "fst (process_next d prev cur) =
      emit_if ?entered (make_event MatchEntered cur) @ ?pre
      @ fst (round_end_block prev cur ?d3) @ fst (outcome_block prev cur ?d4) @ ?post"
    by (simp add: process_next_stay [OF stay] Let_def)
  moreover have "detector_rounds (snd (process_next d prev cur)) = detector_rounds ?d5"
    by (simp add: process_next_stay [OF stay] Let_def detector_rounds_def)
  ultimately show ?thesis
    using ended outcome d3
    by (simp only: monitor_run_append_Some [OF enter] monitor_run_append_Some [OF neutral(1)]
        monitor_run_append_Some [OF ended] monitor_run_append_Some [OF outcome] neutral(2))
qed

definition fresh_rounds :: "detector \<Rightarrow> bool" where
  "fresh_rounds d \<longleftrightarrow> det_previous d = None \<longrightarrow> detector_rounds d = (None, None)"

lemma process_rounds:
  assumes "fresh_rounds d"
  shows "fresh_rounds (snd (process d cur)) \<and>
     monitor_run round_watch (detector_rounds d) (fst (process d cur))
       = Some (detector_rounds (snd (process d cur)))"
proof (cases "gs_payload_valid cur")
  case False
  with assms show ?thesis by (simp add: process_def)
next
  case True
  note valid = True
  show ?thesis
  proof (cases "det_previous d")
    case None
    with assms valid show ?thesis
      by (auto simp: process_def process_first_def Let_def fresh_rounds_def detector_rounds_def
          round_watch_def emit_if_def)
  next
    case (Some prev)
    show ?thesis
    proof (cases "gs_map_name prev \<noteq> None \<and> gs_map_name cur = None")
      case True
      with Some valid show ?thesis
        by (simp add: process_def process_next_leave fresh_rounds_def detector_rounds_def
            round_watch_def)
    next
      case False
      with Some valid process_next_stay_rounds [OF False, of d] show ?thesis
        by (simp add: process_def fresh_rounds_def process_next_stay Let_def)
    qed
  qed
qed

interpretation rounds: monitored process fresh_rounds "\<lambda>_. True" round_watch detector_rounds
  by unfold_locales (simp_all add: process_rounds)

end
