(* ===== verification/Detector_Facts.thy ===== *)
theory Detector_Facts
  imports Detector_Lifecycle
begin

text \<open>
  Functional facts about single batches of the detector and the properties of the factual
  layer: provenance and stamping, silence on repeated payloads, exact deltas, ace
  candidates, outcomes, and the erasure of all match memory when a map is left.
\<close>

subsection \<open>The events of a batch\<close>

lemma process_cases:
  assumes "e \<in> set (fst (process d cur))"
  obtains ty where "gs_payload_valid cur" "ty \<in> {MatchEntered, MatchLeft, GameOver}"
      "e = make_event ty cur"
  | d' where "gs_payload_valid cur" "e \<in> set (observation_events d' cur)"
  | prev where "gs_payload_valid cur" "det_previous d = Some prev" "e \<in> set (local_events prev cur)"
  | prev where "gs_payload_valid cur" "det_previous d = Some prev" "e \<in> set (bomb_events prev cur)"
  | prev d' where "gs_payload_valid cur" "det_previous d = Some prev"
      "e \<in> set (fst (round_end_block prev cur d'))"
  | prev d' where "gs_payload_valid cur" "det_previous d = Some prev"
      "det_last_known_local_team d' = det_last_known_local_team (after_enter d prev cur)"
      "e \<in> set (fst (outcome_block prev cur d'))"
  | prev where "gs_payload_valid cur" "det_previous d = Some prev" "e \<in> set (phase_events prev cur)"
  | prev d' where "gs_payload_valid cur" "det_previous d = Some prev" "e \<in> set (team_events cur d')"
proof (cases "gs_payload_valid cur")
  case False
  with assms show ?thesis by (simp add: process_def)
next
  case True
  note valid = True
  show ?thesis
  proof (cases "det_previous d")
    case None
    then have "fst (process d cur) = emit_if (gs_map_name cur \<noteq> None) (make_event MatchEntered cur)
        @ emit_if (gs_map_name cur \<noteq> None \<and> gs_local_player_valid cur) (make_event LocalPlayerAcquired cur)"
      using valid by (simp add: process_def process_first_def Let_def)
    then consider "e = make_event MatchEntered cur"
      | "e \<in> set (observation_events init_detector cur)"
      using assms
      by (auto simp: observation_events_def acquire_block_def Let_def)
    then show ?thesis using valid that(1,2) by cases auto
  next
    case (Some prev)
    show ?thesis
    proof (cases "gs_map_name prev \<noteq> None \<and> gs_map_name cur = None")
      case True
      with assms Some valid that(1) show ?thesis by (auto simp: process_def process_next_leave)
    next
      case False
      let ?d0 = "after_enter d prev cur" and ?d3 = "after_observation (after_enter d prev cur) cur"
      let ?d4 = "snd (round_end_block prev cur ?d3)"
      let ?d5 = "snd (outcome_block prev cur ?d4)"
      from assms Some valid consider
          (entered) "e \<in> set (emit_if (gs_map_name prev = None \<and> gs_map_name cur \<noteq> None)
              (make_event MatchEntered cur))"
        | (observation) "e \<in> set (observation_events ?d0 cur)"
        | (local) "e \<in> set (local_events prev cur)"
        | (bomb) "e \<in> set (bomb_events prev cur)"
        | (ended) "e \<in> set (fst (round_end_block prev cur ?d3))"
        | (outcome) "e \<in> set (fst (outcome_block prev cur ?d4))"
        | (phase) "e \<in> set (phase_events prev cur)"
        | (team) "e \<in> set (team_events cur ?d5)"
        | (over) "e \<in> set (emit_if (game_over_started prev cur) (make_event GameOver cur))"
        by (simp add: process_def process_next_stay [OF False] Let_def del: set_emit_if) blast
      then show ?thesis
      proof cases
        case entered
        then show ?thesis using that(1) [OF valid, of MatchEntered] by simp
      next
        case over
        then show ?thesis using that(1) [OF valid, of GameOver] by simp
      next
        case outcome
        show ?thesis by (rule that(6) [OF valid Some _ outcome]) (simp add: block_simps)
      next
        case observation
        show ?thesis by (rule that(2) [OF valid observation])
      next
        case local
        show ?thesis by (rule that(3) [OF valid Some local])
      next
        case bomb
        show ?thesis by (rule that(4) [OF valid Some bomb])
      next
        case ended
        show ?thesis by (rule that(5) [OF valid Some ended])
      next
        case phase
        show ?thesis by (rule that(7) [OF valid Some phase])
      next
        case team
        show ?thesis by (rule that(8) [OF valid Some team])
      qed
    qed
  qed
qed

lemma observation_events_stamp:
  "e \<in> set (observation_events d cur) \<Longrightarrow>
   ev_sequence e = gs_sequence cur \<and> ev_relative_us e = gs_relative_us cur
   \<and> ev_evidence e = Deterministic \<and> ev_sources e = src_gsi"
  unfolding observation_events_def
  by (auto simp: Let_def acquire_block_def lost_block_def restore_block_def
      split: if_splits)

lemma local_events_stamp:
  "e \<in> set (local_events prev cur) \<Longrightarrow>
   ev_sequence e = gs_sequence cur \<and> ev_relative_us e = gs_relative_us cur
   \<and> (if ev_type e = AceCandidate then ev_evidence e = ModeAssumption \<and> ev_sources e = src_gsi OR src_mode_rules
      else ev_evidence e = Deterministic \<and> ev_sources e = src_gsi)"
  by (auto simp: local_events_def health_events_def kill_events_def split: if_splits)

definition plain_stamp :: "game_state \<Rightarrow> event \<Rightarrow> bool" where
  "plain_stamp cur e \<longleftrightarrow>
     ev_sequence e = gs_sequence cur \<and> ev_relative_us e = gs_relative_us cur
     \<and> ev_evidence e = Deterministic \<and> ev_sources e = src_gsi"

lemma bomb_events_stamp: "e \<in> set (bomb_events prev cur) \<Longrightarrow> plain_stamp cur e"
  by (auto simp: bomb_events_def plain_stamp_def)

lemma round_end_block_stamp: "e \<in> set (fst (round_end_block prev cur d)) \<Longrightarrow> plain_stamp cur e"
  by (auto simp: round_end_block_def plain_stamp_def split: option.splits if_splits)

lemma outcome_block_stamp: "e \<in> set (fst (outcome_block prev cur d)) \<Longrightarrow> plain_stamp cur e"
  by (auto simp: outcome_block_def plain_stamp_def split: option.splits if_splits)

lemma phase_events_stamp: "e \<in> set (phase_events prev cur) \<Longrightarrow> plain_stamp cur e"
  by (auto simp: phase_events_def plain_stamp_def split: if_splits)

lemma team_events_stamp: "e \<in> set (team_events cur d) \<Longrightarrow> plain_stamp cur e"
  by (auto simp: team_events_def plain_stamp_def)

definition factual_provenance :: "game_state \<Rightarrow> event \<Rightarrow> bool" where
  "factual_provenance cur e \<longleftrightarrow>
     ev_sequence e = gs_sequence cur \<and> ev_relative_us e = gs_relative_us cur
     \<and> ev_type e \<notin> {Ace, ClutchStarted, ClutchUpdated, ClutchEnded}
     \<and> (if ev_type e = AceCandidate
        then ev_evidence e = ModeAssumption \<and> ev_sources e = src_gsi OR src_mode_rules
        else ev_evidence e = Deterministic \<and> ev_sources e = src_gsi)"

lemma process_provenance:
  assumes "e \<in> set (fst (process d cur))"
  shows "factual_provenance cur e"
  using assms
proof (cases rule: process_cases)
  case (1 ty)
  then show ?thesis by (auto simp: factual_provenance_def)
next
  case (2 d')
  then show ?thesis
    using observation_events_stamp [OF 2(2)] observation_events_types [OF 2(2)]
    by (auto simp: factual_provenance_def)
next
  case (3 prev)
  then show ?thesis
    using local_events_stamp [OF 3(3)] local_events_types [OF 3(3)]
    by (auto simp: factual_provenance_def local_player_event_def)
next
  case (4 prev)
  then show ?thesis
    using bomb_events_stamp [OF 4(3)] bomb_events_types [OF 4(3)]
    by (auto simp: factual_provenance_def plain_stamp_def)
next
  case (5 prev d')
  then show ?thesis
    using round_end_block_stamp [OF 5(3)] round_end_block_types [OF 5(3)]
    by (auto simp: factual_provenance_def plain_stamp_def)
next
  case (6 prev d')
  then show ?thesis
    using outcome_block_stamp [OF 6(4)] outcome_block_types [OF 6(4)]
    by (auto simp: factual_provenance_def plain_stamp_def)
next
  case (7 prev)
  then show ?thesis
    using phase_events_stamp [OF 7(3)] phase_events_types [OF 7(3)]
    by (auto simp: factual_provenance_def plain_stamp_def)
next
  case (8 prev d')
  then show ?thesis
    using team_events_stamp [OF 8(3)] team_events_types [OF 8(3)]
    by (auto simp: factual_provenance_def plain_stamp_def)
qed

text \<open>
  Whatever payloads arrive, every factual event of a run carries the sequence number and
  the time of one of the snapshots, is deterministic GSI evidence (an ace candidate also a
  mode assumption), and is never one of the semantic event types.
\<close>

theorem factual_events_provenance:
  "list_all (\<lambda>e. list_ex (\<lambda>cur. factual_provenance cur e) xs) (fst (run process init_detector xs))"
proof -
  have "\<exists>cur\<in>set xs. factual_provenance cur e" if "e \<in> set (fst (run process d xs))" for d e
    using that
  proof (induction xs arbitrary: d)
    case (Cons cur xs)
    then show ?case
      by (auto simp: Let_def case_prod_beta dest: process_provenance)
  qed simp
  then show ?thesis by (auto simp: list_all_iff list_ex_iff)
qed

text \<open>
  C10: The factual stream of any sequence of payloads obeys the observation protocol: maps are
  entered and left in turn, the local player is acquired once per map, lost only while
  tracked and restored only after a loss, and events about the local player occur only while
  it is tracked (or while no map is attached).
\<close>

theorem observation_protocol:
  "monitor_run observe ObsDetached (fst (run process init_detector xs)) =
     Some (detector_observer (snd (run process init_detector xs)))"
proof -
  have "list_all (\<lambda>_. True) xs" by (simp add: list_all_iff)
  from observation.mon_run [OF observation_inv_init this] show ?thesis
    by (simp only: detector_observer_init)
qed

text \<open>
  C11: Within one attachment (between two of the events that enter or leave a map) every round end
  names a round and never the one whose end was reported directly before it, and every outcome names
  the round that ended last and never the one of the outcome directly before it. A round may
  end again once another one has ended in between, as after a restart of the match.
\<close>

theorem round_protocol:
  "monitor_run round_watch (None, None) (fst (run process init_detector xs)) =
     Some (detector_rounds (snd (run process init_detector xs)))"
proof -
  have "list_all (\<lambda>_. True) xs" by (simp add: list_all_iff)
  moreover have "fresh_rounds init_detector" "detector_rounds init_detector = (None, None)"
    by (simp_all add: fresh_rounds_def detector_rounds_def)
  ultimately show ?thesis using rounds.mon_run [of init_detector xs] by simp
qed

subsection \<open>Batches of a given type\<close>

abbreviation of_type :: "event_type \<Rightarrow> event list \<Rightarrow> event list" where
  "of_type ty es \<equiv> filter (\<lambda>e. ev_type e = ty) es"

lemma of_type_none: "(\<And>e. e \<in> set es \<Longrightarrow> ev_type e \<noteq> ty) \<Longrightarrow> of_type ty es = []"
  by (simp add: filter_empty_conv)

definition stays :: "game_state \<Rightarrow> game_state \<Rightarrow> bool" where
  "stays prev cur \<longleftrightarrow> \<not> (gs_map_name prev \<noteq> None \<and> gs_map_name cur = None)"

text \<open>Types that only the block \<open>local_events\<close> produces.\<close>

lemma of_type_local_only:
  assumes "gs_payload_valid cur" "det_previous d = Some prev" "stays prev cur"
    and "ty \<in> {PlayerDamaged, PlayerDied, PlayerKill, PlayerHeadshotKill, PlayerFlashed, PlayerSmoked,
       PlayerBurning, AceCandidate}"
  shows "of_type ty (fst (process d cur)) = of_type ty (local_events prev cur)"
proof -
  note stay = assms(3) [unfolded stays_def]
  have none: "of_type ty (observation_events d' cur) = []" "of_type ty (bomb_events prev cur) = []"
    "of_type ty (fst (round_end_block prev cur d')) = []"
    "of_type ty (fst (outcome_block prev cur d')) = []"
    "of_type ty (phase_events prev cur) = []" "of_type ty (team_events cur d') = []" for d'
    using assms(4)
    by (auto simp: filter_empty_conv dest!: observation_events_types bomb_events_types
        round_end_block_types outcome_block_types phase_events_types team_events_types)
  then show ?thesis
    using assms by (auto simp: process_def process_next_stay [OF stay] Let_def)
qed

lemma of_type_PlayerKill:
  "of_type PlayerKill (local_events prev cur) =
     (if gs_local_player_valid prev \<and> gs_local_player_valid cur \<and> rose (gs_round_kills prev) (gs_round_kills cur)
      then [delta_event PlayerKill cur (gs_round_kills prev) (gs_round_kills cur)] else [])"
  by (simp add: local_events_def kill_events_def health_events_def)

lemma of_type_AceCandidate:
  "of_type AceCandidate (local_events prev cur) =
     emit_if (gs_local_player_valid prev \<and> gs_local_player_valid cur
       \<and> rose (gs_round_kills prev) (gs_round_kills cur) \<and> crossed_threshold prev cur)
       (ace_candidate_event cur)"
  by (simp add: local_events_def kill_events_def health_events_def emit_if_def)

text \<open>A snapshot of the local player in a live competitive round, for the examples.\<close>

definition live_snapshot :: "u64 \<Rightarrow> i32 \<Rightarrow> game_state" where
  "live_snapshot q kills = (empty_state q (q * 1000))\<lparr>
     gs_payload_valid := True, gs_map_name := Some ''de_dust2'', gs_map_mode := Some ''competitive'',
     gs_round_phase := Some ''live'', gs_local_player_valid := True, gs_player_team := Some ''CT'',
     gs_round_kills := Some kills\<rparr>"

definition tracking_detector :: "game_state \<Rightarrow> detector" where
  "tracking_detector prev = init_detector\<lparr>det_previous := Some prev,
     det_local_player_ever_acquired := True, det_last_known_local_team := Some ''CT''\<rparr>"

lemma live_snapshot_simps [simp]:
  "gs_payload_valid (live_snapshot q k)" "gs_map_name (live_snapshot q k) = Some ''de_dust2''"
  "gs_map_mode (live_snapshot q k) = Some ''competitive''"
  "gs_round_phase (live_snapshot q k) = Some ''live''" "gs_local_player_valid (live_snapshot q k)"
  "gs_player_team (live_snapshot q k) = Some ''CT''" "gs_round_kills (live_snapshot q k) = Some k"
  "det_previous (tracking_detector prev) = Some prev"
  by (simp_all add: live_snapshot_def tracking_detector_def)

text \<open>
  C13: A kill-counter rise between two snapshots of the local player is reported as exactly
  one PLAYER_KILL whose amount is the exact difference (no wrap-around for counters that are
  not negative) and whose value is the new counter; no rise, no event.
\<close>

theorem kill_delta_exact:
  assumes "gs_payload_valid cur" "det_previous d = Some prev" "stays prev cur"
    and "gs_local_player_valid prev" "gs_local_player_valid cur" "wf_state cur"
    and "gs_round_kills prev = Some a" "gs_round_kills cur = Some b" "0 \<le> a"
  shows "map (\<lambda>e. (ev_amount e, ev_value e)) (of_type PlayerKill (fst (process d cur)))
     = (if a < b then [(Some (b - a), Some b)] else [])"
proof -
  have "in_i32 b"
    using assms(6,8) by (auto simp: wf_state_def int_fields_def local_stats_def)
  then show ?thesis
    using assms of_type_local_only [OF assms(1-3), of PlayerKill]
    by (simp add: of_type_PlayerKill rose_def i32_sub_exact)
qed

theorem kill_delta_exact_witness:
  "map (\<lambda>e. (ev_amount e, ev_value e))
     (of_type PlayerKill (fst (process (tracking_detector (live_snapshot 1 1)) (live_snapshot 2 3))))
   = [(Some 2, Some 3)]"
proof -
  have "wf_state (live_snapshot 2 3)"
    by (simp add: live_snapshot_def wf_state_def int_fields_def local_stats_def empty_state_def in_i32_def)
  then show ?thesis
    using kill_delta_exact [of "live_snapshot 2 3" "tracking_detector (live_snapshot 1 1)" "live_snapshot 1 1" 1 3]
    by (simp add: stays_def)
qed

text \<open>
  C12: ACE_CANDIDATE appears in a batch exactly if the local player's kill counter rose
  across the mode's threshold (competitive 5, retakes 3 for CT and 4 for T) in a kill that
  belongs to a live round; it never appears in another mode.
\<close>

theorem ace_candidate_iff:
  assumes "gs_payload_valid cur" "det_previous d = Some prev" "stays prev cur"
  shows "AceCandidate \<in> ev_type ` set (fst (process d cur)) \<longleftrightarrow>
     gs_local_player_valid prev \<and> gs_local_player_valid cur
     \<and> (gs_round_phase prev = Some ''live'' \<or> gs_round_phase cur = Some ''live'')
     \<and> (\<exists>a b t. gs_round_kills prev = Some a \<and> gs_round_kills cur = Some b \<and> a < t \<and> t \<le> b \<and>
          (gs_map_mode cur = Some ''competitive'' \<and> t = 5
           \<or> gs_map_mode cur = Some ''retakes'' \<and> gs_player_team cur = Some ''CT'' \<and> t = 3
           \<or> gs_map_mode cur = Some ''retakes'' \<and> gs_player_team cur = Some ''T'' \<and> t = 4))"
proof -
  have "AceCandidate \<in> ev_type ` set es \<longleftrightarrow> of_type AceCandidate es \<noteq> []" for es
    by (force simp: filter_empty_conv)
  then have "AceCandidate \<in> ev_type ` set (fst (process d cur)) \<longleftrightarrow>
     gs_local_player_valid prev \<and> gs_local_player_valid cur
       \<and> rose (gs_round_kills prev) (gs_round_kills cur) \<and> crossed_threshold prev cur"
    using of_type_local_only [OF assms, of AceCandidate] by (auto simp: of_type_AceCandidate)
  also have "\<dots> \<longleftrightarrow> gs_local_player_valid prev \<and> gs_local_player_valid cur
     \<and> (gs_round_phase prev = Some ''live'' \<or> gs_round_phase cur = Some ''live'')
     \<and> (\<exists>a b t. gs_round_kills prev = Some a \<and> gs_round_kills cur = Some b \<and> a < t \<and> t \<le> b \<and>
          ace_candidate_threshold cur = Some t)"
    by (auto simp: rose_def opt_rel_iff crossed_threshold_def opt_holds_iff equals_def)
  finally show ?thesis
    by (auto simp: ace_candidate_threshold_def equals_def opt_holds_iff)
qed

theorem ace_candidate_iff_witness:
  "AceCandidate \<in> ev_type ` set (fst (process (tracking_detector (live_snapshot 1 4)) (live_snapshot 2 5)))
   \<and> AceCandidate \<notin> ev_type ` set (fst (process (tracking_detector (live_snapshot 1 3)) (live_snapshot 2 4)))"
  using ace_candidate_iff [of "live_snapshot 2 5" "tracking_detector (live_snapshot 1 4)" "live_snapshot 1 4"]
    ace_candidate_iff [of "live_snapshot 2 4" "tracking_detector (live_snapshot 1 3)" "live_snapshot 1 3"]
  by (simp add: stays_def)

text \<open>
  C34: A snapshot that does not show the local player (spectating, or a menu payload) yields
  no event about the local player: no kill, damage, death, respawn, assist, MVP, flash,
  smoke, burn, ace candidate or team change.
\<close>

theorem spectated_snapshot_silent:
  assumes "\<not> gs_local_player_valid cur" "e \<in> set (fst (process d cur))"
  shows "\<not> local_player_event (ev_type e)"
  using assms(2)
proof (cases rule: process_cases)
  case (2 d')
  then show ?thesis
    using assms(1)
    by (auto simp: observation_events_def Let_def acquire_block_def lost_block_def restore_block_def
        local_player_event_def split: if_splits)
qed (use assms(1) in \<open>auto dest!: local_events_types bomb_events_types round_end_block_types
      outcome_block_types phase_events_types team_events_types simp: local_player_event_def\<close>)

definition away_snapshot :: "u64 \<Rightarrow> game_state" where
  "away_snapshot q = (empty_state q (q * 1000))\<lparr>
     gs_payload_valid := True, gs_map_name := Some ''de_dust2'', gs_round_phase := Some ''live'',
     gs_provider_steamid := Some ''1'', gs_observed_steamid := Some ''2''\<rparr>"

theorem spectated_snapshot_silent_witness:
  "\<not> local_player_event (ev_type (hd (fst (process (tracking_detector (live_snapshot 1 3)) (away_snapshot 2)))))"
proof (rule spectated_snapshot_silent)
  show "\<not> gs_local_player_valid (away_snapshot 2)"
    by (simp add: away_snapshot_def empty_state_def)
  have "fst (process (tracking_detector (live_snapshot 1 3)) (away_snapshot 2)) \<noteq> []"
    by code_simp
  then show "hd (fst (process (tracking_detector (live_snapshot 1 3)) (away_snapshot 2)))
      \<in> set (fst (process (tracking_detector (live_snapshot 1 3)) (away_snapshot 2)))"
    by (rule hd_in_set)
qed

subsection \<open>Leaving a map\<close>

text \<open>
  C35: Leaving a map erases all match-local knowledge: whatever two detectors have seen on
  their maps, the snapshot that detaches them produces the single event MATCH_LEFT and
  leaves both in the same state, so every later batch is the same.
\<close>

theorem match_leave_forgets:
  assumes "attached d1" "attached d2" "gs_payload_valid cur" "gs_map_name cur = None"
  shows "process d1 cur = process d2 cur \<and>
     fst (process d1 cur) = [make_event MatchLeft cur] \<and>
     snd (process d1 cur) = init_detector\<lparr>det_previous := Some cur\<rparr> \<and>
     run process d1 (cur # rest) = run process d2 (cur # rest)"
proof -
  have "process d cur = ([make_event MatchLeft cur], init_detector\<lparr>det_previous := Some cur\<rparr>)"
    if "attached d" for d
    using that assms(3,4)
    by (auto simp: attached_def opt_holds_iff process_def process_next_leave clear_match_memory_def
        init_detector_def)
  then show ?thesis using assms(1,2) by simp
qed

theorem match_leave_forgets_witness:
  "process (tracking_detector (live_snapshot 1 3)) ((empty_state 9 9000)\<lparr>gs_payload_valid := True\<rparr>) =
   process (tracking_detector (live_snapshot 2 5)) ((empty_state 9 9000)\<lparr>gs_payload_valid := True\<rparr>)"
  using match_leave_forgets [of "tracking_detector (live_snapshot 1 3)" "tracking_detector (live_snapshot 2 5)"
      "(empty_state 9 9000)\<lparr>gs_payload_valid := True\<rparr>" "[]"]
  by (simp add: attached_def empty_state_def)

subsection \<open>Repeated payloads\<close>

text \<open>
  What a processed snapshot leaves behind, as far as the same snapshot can notice: none of
  the three observation blocks has anything to do, and the remembered team is not another one.
\<close>

definition quiet :: "game_state \<Rightarrow> bool \<Rightarrow> bool \<Rightarrow> bool" where
  "quiet cur acquired lost \<longleftrightarrow>
     \<not> (gs_map_name cur \<noteq> None \<and> gs_local_player_valid cur \<and> \<not> acquired)
     \<and> \<not> (acquired \<and> other_observed cur \<and> \<not> lost)
     \<and> \<not> (acquired \<and> lost \<and> gs_local_player_valid cur)"

definition team_known :: "game_state \<Rightarrow> string option \<Rightarrow> bool" where
  "team_known cur team \<longleftrightarrow>
     \<not> (gs_local_player_valid cur \<and> opt_rel (\<lambda>now known. now \<noteq> known) (gs_player_team cur) team)"

definition settled :: "game_state \<Rightarrow> detector \<Rightarrow> bool" where
  "settled cur d \<longleftrightarrow>
     det_previous d = Some cur
     \<and> quiet cur (det_local_player_ever_acquired d) (det_local_observation_lost d)
     \<and> team_known cur (det_last_known_local_team d)"

lemma team_known_remembered: "team_known cur (det_last_known_local_team (remember_local cur d))"
  by (cases "gs_player_team cur") (auto simp: remember_local_def team_known_def)

lemma after_observation_quiet:
  "quiet cur (det_local_player_ever_acquired (after_observation d cur))
     (det_local_observation_lost (after_observation d cur))"
  by (cases "det_local_player_ever_acquired d"; cases "det_local_observation_lost d";
      cases "gs_local_player_valid cur"; cases "gs_map_name cur")
    (simp_all add: quiet_def after_observation_def acquire_block_def lost_block_def restore_block_def
      other_observed_def)

lemma settled_remembered:
  "quiet cur (det_local_player_ever_acquired d) (det_local_observation_lost d) \<Longrightarrow>
   settled cur ((remember_local cur d)\<lparr>det_previous := Some cur\<rparr>)"
  by (simp add: settled_def team_known_remembered)

lemma settled_after_leave:
  "gs_map_name cur = None \<Longrightarrow> settled cur ((clear_match_memory d)\<lparr>det_previous := Some cur\<rparr>)"
  by (simp add: settled_def quiet_def team_known_def)

lemma process_settled:
  assumes "gs_payload_valid cur" "observation_inv d"
  shows "settled cur (snd (process d cur))"
proof (cases "det_previous d")
  case None
  let ?acq = "gs_map_name cur \<noteq> None \<and> gs_local_player_valid cur"
  have "snd (process d cur) = (remember_local cur
      (if ?acq then d\<lparr>det_local_player_ever_acquired := True\<rparr> else d))\<lparr>det_previous := Some cur\<rparr>"
    using assms(1) None by (simp add: process_def process_first_def Let_def)
  moreover have "\<not> det_local_player_ever_acquired d" "\<not> det_local_observation_lost d"
    using assms(2) None by (auto simp: observation_inv_def attached_def)
  ultimately show ?thesis
    by (simp only:) (rule settled_remembered, auto simp: quiet_def other_observed_def)
next
  case (Some prev)
  show ?thesis
  proof (cases "gs_map_name prev \<noteq> None \<and> gs_map_name cur = None")
    case True
    then show ?thesis
      using assms Some settled_after_leave by (simp add: process_def process_next_leave)
  next
    case False
    have "snd (process d cur) = (remember_local cur (snd (outcome_block prev cur (snd (round_end_block prev cur
        (after_observation (after_enter d prev cur) cur))))))\<lparr>det_previous := Some cur\<rparr>"
      using assms(1) Some by (simp add: process_def process_next_stay [OF False] Let_def)
    then show ?thesis
      using after_observation_quiet [of cur "after_enter d prev cur"]
      by (simp add: outcome_block_frame round_end_block_frame settled_remembered)
  qed
qed

lemma rose_refl [simp]: "\<not> rose x x"
  by (cases x) (simp_all add: rose_def)

lemma became_positive_refl [simp]: "\<not> became_positive x x"
  by (cases x) (simp_all add: became_positive_def)

lemma changed_to_refl [simp]: "\<not> changed_to x x s"
  by (cases x) (simp_all add: changed_to_def equals_def)

lemma repeated_local_events [simp]: "local_events cur cur = []"
  by (cases "gs_health cur") (auto simp: local_events_def health_events_def kill_events_def)

lemma repeated_round_blocks:
  "fst (round_end_block cur cur d) = []" "fst (outcome_block cur cur d) = []"
  by (auto simp: round_end_block_def outcome_block_def ended_round_def round_end_evidence_def
      winner_appeared_def game_over_started_def equals_def opt_holds_iff split: option.splits)

lemma repeated_other_events:
  "bomb_events cur cur = []" "phase_events cur cur = []" "\<not> game_over_started cur cur"
  by (auto simp: bomb_events_def phase_events_def game_over_started_def equals_def opt_holds_iff)

lemma settled_blocks:
  assumes "settled cur d"
  shows "acquire_block cur d = ([], d)" "lost_block cur d = ([], d)" "restore_block cur d = ([], d)"
  using assms
  by (cases "det_local_player_ever_acquired d"; cases "det_local_observation_lost d";
      simp add: settled_def quiet_def acquire_block_def lost_block_def restore_block_def)+

lemma settled_team:
  "settled cur d \<Longrightarrow> det_last_known_local_team d' = det_last_known_local_team d \<Longrightarrow> team_events cur d' = []"
  by (simp add: settled_def team_known_def team_events_def)

lemma settled_silent:
  assumes "settled cur d" "gs_payload_valid cur"
  shows "fst (process d cur) = []"
proof -
  note blocks = settled_blocks [OF assms(1)]
  have stay: "\<not> (gs_map_name cur \<noteq> None \<and> gs_map_name cur = None)" by blast
  have enter: "after_enter d cur cur = d" by (auto simp: after_enter_def)
  have obs: "observation_events d cur = []" "after_observation d cur = d"
    using blocks by (simp_all add: observation_events_def after_observation_def Let_def)
  have "team_events cur (snd (outcome_block cur cur (snd (round_end_block cur cur d)))) = []"
    by (rule settled_team [OF assms(1)]) (simp add: outcome_block_frame round_end_block_frame)
  then show ?thesis
    using assms
    by (auto simp: settled_def process_def process_next_stay [OF stay] Let_def enter obs
        repeated_round_blocks repeated_other_events)
qed

text \<open>
  Only the stamp of a snapshot differs when the same payload arrives again, and stamps only
  pass through the detector.
\<close>

definition restamp :: "u64 \<Rightarrow> u64 \<Rightarrow> game_state \<Rightarrow> game_state" where
  "restamp q t cur = cur\<lparr>gs_sequence := q, gs_relative_us := t\<rparr>"

definition restamp_event :: "u64 \<Rightarrow> u64 \<Rightarrow> event \<Rightarrow> event" where
  "restamp_event q t e = e\<lparr>ev_sequence := q, ev_relative_us := t\<rparr>"

lemma restamp_fields [simp]:
  "gs_payload_valid (restamp q t cur) = gs_payload_valid cur"
  "gs_provider_steamid (restamp q t cur) = gs_provider_steamid cur"
  "gs_observed_steamid (restamp q t cur) = gs_observed_steamid cur"
  "gs_local_player_valid (restamp q t cur) = gs_local_player_valid cur"
  "gs_map_name (restamp q t cur) = gs_map_name cur"
  "gs_map_mode (restamp q t cur) = gs_map_mode cur"
  "gs_map_phase (restamp q t cur) = gs_map_phase cur"
  "gs_map_round (restamp q t cur) = gs_map_round cur"
  "gs_round_phase (restamp q t cur) = gs_round_phase cur"
  "gs_round_winner (restamp q t cur) = gs_round_winner cur"
  "gs_bomb_state (restamp q t cur) = gs_bomb_state cur"
  "gs_player_team (restamp q t cur) = gs_player_team cur"
  "gs_health (restamp q t cur) = gs_health cur"
  "gs_flashed (restamp q t cur) = gs_flashed cur"
  "gs_smoked (restamp q t cur) = gs_smoked cur"
  "gs_burning (restamp q t cur) = gs_burning cur"
  "gs_round_kills (restamp q t cur) = gs_round_kills cur"
  "gs_round_headshot_kills (restamp q t cur) = gs_round_headshot_kills cur"
  "gs_assists (restamp q t cur) = gs_assists cur"
  "gs_mvps (restamp q t cur) = gs_mvps cur"
  by (simp_all add: restamp_def)

lemma restamp_make_event:
  "make_event ty (restamp q t cur) = restamp_event q t (make_event ty cur)"
  by (simp add: make_event_def restamp_event_def restamp_def)

lemma restamp_derived_events:
  "delta_event ty (restamp q t cur) a b = restamp_event q t (delta_event ty cur a b)"
  "value_event ty (restamp q t cur) a = restamp_event q t (value_event ty cur a)"
  "ace_candidate_event (restamp q t cur) = restamp_event q t (ace_candidate_event cur)"
  by (simp_all add: delta_event_def value_event_def ace_candidate_event_def restamp_make_event)
    (simp_all add: restamp_event_def)

lemma restamp_event_updates:
  "(restamp_event q t e)\<lparr>ev_value := v\<rparr> = restamp_event q t (e\<lparr>ev_value := v\<rparr>)"
  "(restamp_event q t e)\<lparr>ev_amount := v\<rparr> = restamp_event q t (e\<lparr>ev_amount := v\<rparr>)"
  "(restamp_event q t e)\<lparr>ev_from := f\<rparr> = restamp_event q t (e\<lparr>ev_from := f\<rparr>)"
  "(restamp_event q t e)\<lparr>ev_to := f\<rparr> = restamp_event q t (e\<lparr>ev_to := f\<rparr>)"
  by (simp_all add: restamp_event_def)

lemma map_emit_if: "map f (emit_if b e) = emit_if b (f e)"
  by (simp add: emit_if_def)

lemmas restamp_simps =
  restamp_make_event restamp_derived_events restamp_event_updates map_emit_if

lemma restamp_predicates:
  "crossed_threshold prev (restamp q t cur) = crossed_threshold prev cur"
  "game_over_started prev (restamp q t cur) = game_over_started prev cur"
  "winner_appeared prev (restamp q t cur) = winner_appeared prev cur"
  "round_end_evidence prev (restamp q t cur) = round_end_evidence prev cur"
  "ended_round prev (restamp q t cur) = ended_round prev cur"
  "outcome_team (restamp q t cur) d = outcome_team cur d"
  "outcome_round prev (restamp q t cur) d = outcome_round prev cur d"
  "other_observed (restamp q t cur) = other_observed cur"
  "after_enter d prev (restamp q t cur) = after_enter d prev cur"
  "remember_local (restamp q t cur) d = remember_local cur d"
  by (simp_all only: crossed_threshold_def ace_candidate_threshold_def game_over_started_def
      restamp_fields winner_appeared_def round_end_evidence_def ended_round_def outcome_team_def outcome_round_def
      other_observed_def after_enter_def remember_local_def)

lemma restamp_event_lists:
  "local_events prev (restamp q t cur) = map (restamp_event q t) (local_events prev cur)"
  "bomb_events prev (restamp q t cur) = map (restamp_event q t) (bomb_events prev cur)"
  "phase_events prev (restamp q t cur) = map (restamp_event q t) (phase_events prev cur)"
  "team_events (restamp q t cur) d = map (restamp_event q t) (team_events cur d)"
  by (simp_all add: local_events_def health_events_def kill_events_def bomb_events_def
      phase_events_def team_events_def restamp_simps restamp_predicates)

lemma restamp_blocks:
  "acquire_block (restamp q t cur) d = apfst (map (restamp_event q t)) (acquire_block cur d)"
  "lost_block (restamp q t cur) d = apfst (map (restamp_event q t)) (lost_block cur d)"
  "restore_block (restamp q t cur) d = apfst (map (restamp_event q t)) (restore_block cur d)"
  "round_end_block prev (restamp q t cur) d = apfst (map (restamp_event q t)) (round_end_block prev cur d)"
  by (simp_all add: acquire_block_def lost_block_def restore_block_def round_end_block_def
      restamp_simps restamp_predicates split: option.split)

lemma restamp_outcome_block:
  "outcome_block prev (restamp q t cur) d = apfst (map (restamp_event q t)) (outcome_block prev cur d)"
  by (cases "gs_round_winner cur"; cases "outcome_team cur d"; cases "outcome_round prev cur d")
    (simp_all add: outcome_block_def restamp_simps restamp_predicates)

lemma process_restamp:
  "fst (process d (restamp q t cur)) = map (restamp_event q t) (fst (process d cur))"
  by (auto simp: process_def process_first_def process_next_def Let_def case_prod_beta
      restamp_blocks restamp_outcome_block restamp_event_lists restamp_simps restamp_predicates
      split: option.split)

text \<open>
  The detector is edge-triggered: a payload that repeats the one just processed, with a
  new sequence number and time, yields no event at all.
\<close>

theorem repeated_payload_silent:
  assumes "gs_payload_valid cur" "observation_inv d"
  shows "fst (process (snd (process d cur)) (restamp q t cur)) = []"
  using settled_silent [OF process_settled [OF assms] assms(1)] by (simp add: process_restamp)

theorem repeated_payload_silent_witness:
  "fst (process (snd (process (tracking_detector (live_snapshot 1 3)) (live_snapshot 2 4)))
     (restamp 3 3000 (live_snapshot 2 4))) = []"
  by (rule repeated_payload_silent)
    (simp_all add: observation_inv_def attached_def, simp add: tracking_detector_def)

end
