(* ===== verification/Resolver.thy ===== *)
theory Resolver
  imports Events Supplementary
begin

unbundle bit_operations_syntax

text \<open>
  The semantic layer: class \<open>SemanticResolver\<close> of
  \<open>include/cspromator/semantic_resolver.hpp\<close> and \<open>src/semantic_resolver.cpp\<close>. The
  members are the record \<open>resolver\<close> (prefix \<open>rs_\<close>), its public context the record
  \<open>context\<close> (prefix \<open>cx_\<close>). One definition per member function; those that return
  events return them with the new state.
\<close>

subsection \<open>Data\<close>

datatype lifecycle_phase =
    PhaseDetached | PhaseWarmup | PhaseFreezeTime | PhaseLiveRound | PhasePostRound
  | PhaseGameOver | PhaseOther

fun lifecycle_to_string :: "lifecycle_phase \<Rightarrow> string" where
  "lifecycle_to_string PhaseDetached = ''detached''"
| "lifecycle_to_string PhaseWarmup = ''warmup''"
| "lifecycle_to_string PhaseFreezeTime = ''freezetime''"
| "lifecycle_to_string PhaseLiveRound = ''live-round''"
| "lifecycle_to_string PhasePostRound = ''post-round''"
| "lifecycle_to_string PhaseGameOver = ''gameover''"
| "lifecycle_to_string PhaseOther = ''other''"

record resolver_config =
  cf_max_supplement_age_us :: "u64 option"
  cf_require_roster_revision_for_ace :: bool

definition default_config :: resolver_config where
  "default_config = \<lparr>cf_max_supplement_age_us = None, cf_require_roster_revision_for_ace = True\<rparr>"

record semantic_context =
  cx_lifecycle :: lifecycle_phase
  cx_match_attached :: bool
  cx_scored_round_active :: bool
  cx_local_player_acquired :: bool
  cx_local_player_alive :: "bool option"
  cx_map_name :: "string option"
  cx_map_mode :: "string option"
  cx_map_phase :: "string option"
  cx_round_phase :: "string option"
  cx_supplement_available :: bool
  cx_supplement_source :: source_kind
  cx_supplement_relative_us :: u64
  cx_local_alive :: "i32 option"
  cx_enemy_alive :: "i32 option"
  cx_local_total :: "i32 option"
  cx_enemy_total :: "i32 option"
  cx_alive_delta :: "i32 option"
  cx_clutch_active :: bool
  cx_clutch_opponents :: "i32 option"
  cx_roster_changed_this_round :: bool

definition empty_context :: semantic_context where
  "empty_context = \<lparr>
     cx_lifecycle = PhaseDetached, cx_match_attached = False, cx_scored_round_active = False,
     cx_local_player_acquired = False, cx_local_player_alive = None,
     cx_map_name = None, cx_map_mode = None, cx_map_phase = None, cx_round_phase = None,
     cx_supplement_available = False, cx_supplement_source = Unknown,
     cx_supplement_relative_us = 0,
     cx_local_alive = None, cx_enemy_alive = None, cx_local_total = None, cx_enemy_total = None,
     cx_alive_delta = None,
     cx_clutch_active = False, cx_clutch_opponents = None, cx_roster_changed_this_round = False\<rparr>"

record resolver =
  rs_config :: resolver_config
  rs_context :: semantic_context
  rs_latest_state :: "game_state option"
  rs_latest_supplement :: "snapshot option"
  rs_local_team :: "string option"
  rs_local_player_alive :: "bool option"
  rs_local_player_acquired :: bool
  rs_round_has_known_start :: bool
  rs_round_ended :: bool
  rs_round_start_us :: u64
  rs_initial_enemy_total :: "i32 option"
  rs_initial_roster_revision :: "u64 option"
  rs_roster_changed_this_round :: bool
  rs_ace_emitted_this_round :: bool
  rs_clutch_active :: bool
  rs_last_clutch_enemy_alive :: "i32 option"
  rs_last_supplement_us :: "u64 option"

definition init_resolver :: "resolver_config \<Rightarrow> resolver" where
  "init_resolver config = \<lparr>
     rs_config = config, rs_context = empty_context,
     rs_latest_state = None, rs_latest_supplement = None,
     rs_local_team = None, rs_local_player_alive = None, rs_local_player_acquired = False,
     rs_round_has_known_start = False, rs_round_ended = False, rs_round_start_us = 0,
     rs_initial_enemy_total = None, rs_initial_roster_revision = None,
     rs_roster_changed_this_round = False, rs_ace_emitted_this_round = False,
     rs_clutch_active = False, rs_last_clutch_enemy_alive = None, rs_last_supplement_us = None\<rparr>"

definition reset :: "resolver \<Rightarrow> resolver" where
  "reset r = r\<lparr>
     rs_context := empty_context,
     rs_latest_state := None, rs_latest_supplement := None,
     rs_local_team := None, rs_local_player_alive := None, rs_local_player_acquired := False,
     rs_round_has_known_start := False, rs_round_ended := False, rs_round_start_us := 0,
     rs_initial_enemy_total := None, rs_initial_roster_revision := None,
     rs_roster_changed_this_round := False, rs_ace_emitted_this_round := False,
     rs_clutch_active := False, rs_last_clutch_enemy_alive := None, rs_last_supplement_us := None\<rparr>"

subsection \<open>Helpers\<close>

definition has_event :: "event list \<Rightarrow> event_type \<Rightarrow> bool" where
  "has_event events ty = list_ex (\<lambda>e. ev_type e = ty) events"

definition supported_round_mode_for_ace :: "string option \<Rightarrow> bool" where
  "supported_round_mode_for_ace mode =
     opt_holds (\<lambda>m. m = ''competitive'' \<or> m = ''casual'' \<or> m = ''retakes'') mode"

definition snapshot_fresh_at :: "resolver \<Rightarrow> snapshot \<Rightarrow> u64 \<Rightarrow> bool" where
  "snapshot_fresh_at r sn reference_us =
     (if sn_relative_us sn > reference_us then False
      else (case cf_max_supplement_age_us (rs_config r) of
              None \<Rightarrow> True
            | Some max_age \<Rightarrow> reference_us - sn_relative_us sn \<le> max_age))"

definition lifecycle_of :: "game_state \<Rightarrow> lifecycle_phase" where
  "lifecycle_of st =
     (if gs_map_name st = None then PhaseDetached
      else if equals (gs_map_phase st) ''warmup'' then PhaseWarmup
      else if equals (gs_map_phase st) ''gameover'' then PhaseGameOver
      else if equals (gs_round_phase st) ''freezetime'' then PhaseFreezeTime
      else if equals (gs_round_phase st) ''live'' then PhaseLiveRound
      else if equals (gs_round_phase st) ''over'' then PhasePostRound
      else PhaseOther)"

definition update_lifecycle_context :: "resolver \<Rightarrow> game_state \<Rightarrow> resolver" where
  "update_lifecycle_context r st = r\<lparr>rs_context := (rs_context r)\<lparr>
     cx_match_attached := gs_map_name st \<noteq> None,
     cx_map_name := gs_map_name st,
     cx_map_mode := gs_map_mode st,
     cx_map_phase := gs_map_phase st,
     cx_round_phase := gs_round_phase st,
     cx_local_player_acquired := rs_local_player_acquired r,
     cx_local_player_alive := rs_local_player_alive r,
     cx_lifecycle := lifecycle_of st,
     cx_scored_round_active := (lifecycle_of st = PhaseLiveRound)\<rparr>\<rparr>"

definition establish_round_baseline :: "resolver \<Rightarrow> snapshot \<Rightarrow> resolver" where
  "establish_round_baseline r sn =
     (if \<not> rs_round_has_known_start r then r
      else (case rs_local_team r of
              None \<Rightarrow> r
            | Some team \<Rightarrow>
                if cf_require_roster_revision_for_ace (rs_config r) \<and> sn_roster_revision sn = None
                then r
                else (case perspective_for_team (sn_teams sn) team of
                        None \<Rightarrow> r
                      | Some p \<Rightarrow>
                          if pc_enemy_total p = None then r
                          else r\<lparr>rs_initial_enemy_total := pc_enemy_total p,
                                 rs_initial_roster_revision := sn_roster_revision sn\<rparr>)))"

definition clear_counts :: "semantic_context \<Rightarrow> semantic_context" where
  "clear_counts cx = cx\<lparr>
     cx_supplement_available := False,
     cx_local_alive := None, cx_enemy_alive := None,
     cx_local_total := None, cx_enemy_total := None, cx_alive_delta := None\<rparr>"

definition begin_round :: "resolver \<Rightarrow> game_state \<Rightarrow> resolver" where
  "begin_round r st =
     (let r1 = r\<lparr>
            rs_round_has_known_start := True,
            rs_round_ended := False,
            rs_round_start_us := gs_relative_us st,
            rs_initial_enemy_total := None,
            rs_initial_roster_revision := None,
            rs_roster_changed_this_round := False,
            rs_ace_emitted_this_round := False,
            rs_clutch_active := False,
            rs_last_clutch_enemy_alive := None,
            rs_context := (rs_context r)\<lparr>
              cx_roster_changed_this_round := False,
              cx_clutch_active := False,
              cx_clutch_opponents := None\<rparr>\<rparr>;
          r2 = (case rs_latest_supplement r1 of
                  None \<Rightarrow> r1
                | Some sn \<Rightarrow>
                    if snapshot_fresh_at r1 sn (gs_relative_us st)
                    then establish_round_baseline r1 sn else r1)
      in r2\<lparr>rs_context := clear_counts (rs_context r2)\<rparr>)"

definition alive_difference :: "i32 option \<Rightarrow> i32 option \<Rightarrow> i32 option" where
  "alive_difference local_alive enemy_alive =
     (case (local_alive, enemy_alive) of
        (Some l, Some e) \<Rightarrow> Some (i32_sub l e)
      | _ \<Rightarrow> None)"

definition update_context :: "resolver \<Rightarrow> snapshot \<Rightarrow> resolver" where
  "update_context r sn =
     (let cx = (clear_counts (rs_context r))\<lparr>
            cx_supplement_source := sn_source sn,
            cx_supplement_relative_us := sn_relative_us sn\<rparr>;
          r1 = r\<lparr>rs_context := cx\<rparr>
      in case rs_local_team r of
           None \<Rightarrow> r1
         | Some team \<Rightarrow>
             (case perspective_for_team (sn_teams sn) team of
                None \<Rightarrow> r1
              | Some p \<Rightarrow> r\<lparr>rs_context := cx\<lparr>
                  cx_supplement_available := True,
                  cx_local_alive := pc_local_alive p,
                  cx_enemy_alive := pc_enemy_alive p,
                  cx_local_total := pc_local_total p,
                  cx_enemy_total := pc_enemy_total p,
                  cx_alive_delta := alive_difference (pc_local_alive p) (pc_enemy_alive p)\<rparr>\<rparr>))"

definition observe_roster :: "resolver \<Rightarrow> snapshot \<Rightarrow> resolver" where
  "observe_roster r sn =
     (if \<not> rs_round_has_known_start r then r
      else (case (rs_initial_enemy_total r, rs_local_team r) of
              (Some initial_total, Some team) \<Rightarrow>
                (case perspective_for_team (sn_teams sn) team of
                   None \<Rightarrow> r
                 | Some p \<Rightarrow>
                     (let total_changed = opt_holds (\<lambda>t. t \<noteq> initial_total) (pc_enemy_total p);
                          revision_changed = opt_rel (\<lambda>initial now. now \<noteq> initial)
                            (rs_initial_roster_revision r) (sn_roster_revision sn);
                          changed = rs_roster_changed_this_round r \<or> total_changed \<or> revision_changed
                      in r\<lparr>rs_roster_changed_this_round := changed,
                           rs_context := (rs_context r)\<lparr>cx_roster_changed_this_round := changed\<rparr>\<rparr>))
            | _ \<Rightarrow> r))"

subsection \<open>Semantic events\<close>

definition make_semantic_event :: "resolver \<Rightarrow> event_type \<Rightarrow> u64 \<Rightarrow> event" where
  "make_semantic_event r ty event_us = \<lparr>
     ev_type = ty, ev_evidence = Deterministic, ev_sources = src_gsi OR src_supplementary,
     ev_sequence = (case rs_latest_state r of None \<Rightarrow> 0 | Some st \<Rightarrow> gs_sequence st),
     ev_relative_us = event_us,
     ev_amount = None, ev_value = None, ev_from = [], ev_to = []\<rparr>"

definition end_clutch :: "resolver \<Rightarrow> u64 \<Rightarrow> event option \<times> resolver" where
  "end_clutch r event_us =
     (if \<not> rs_clutch_active r then (None, r)
      else
        (Some ((make_semantic_event r ClutchEnded event_us)
                 \<lparr>ev_value := rs_last_clutch_enemy_alive r\<rparr>),
         r\<lparr>rs_clutch_active := False,
           rs_last_clutch_enemy_alive := None,
           rs_context := (rs_context r)\<lparr>cx_clutch_active := False, cx_clutch_opponents := None\<rparr>\<rparr>))"

text \<open>\<open>if (auto ended = end_clutch(event_us)) events.push_back(...)\<close>.\<close>

definition push_end_clutch :: "resolver \<Rightarrow> u64 \<Rightarrow> event list \<times> resolver" where
  "push_end_clutch r event_us =
     (case end_clutch r event_us of
        (None, r') \<Rightarrow> ([], r')
      | (Some e, r') \<Rightarrow> ([e], r'))"

definition clutch_now :: "resolver \<Rightarrow> game_state \<Rightarrow> i32 \<Rightarrow> i32 \<Rightarrow> bool" where
  "clutch_now r st local_alive enemy_alive \<longleftrightarrow>
     equals (gs_round_phase st) ''live'' \<and> \<not> rs_round_ended r
     \<and> value_or (rs_local_player_alive r) False
     \<and> local_alive = 1 \<and> enemy_alive \<ge> 1"

definition advance_clutch :: "resolver \<Rightarrow> u64 \<Rightarrow> i32 \<Rightarrow> event list \<times> resolver" where
  "advance_clutch r event_us enemy_alive =
     (let (events, r1) =
        (if \<not> rs_clutch_active r then
           ([(make_semantic_event r ClutchStarted event_us)\<lparr>ev_value := Some enemy_alive\<rparr>],
            r\<lparr>rs_clutch_active := True, rs_last_clutch_enemy_alive := Some enemy_alive\<rparr>)
         else if rs_last_clutch_enemy_alive r = None
                 \<or> opt_holds (\<lambda>l. l \<noteq> enemy_alive) (rs_last_clutch_enemy_alive r) then
           ([(make_semantic_event r ClutchUpdated event_us)\<lparr>
               ev_from := (case rs_last_clutch_enemy_alive r of
                             None \<Rightarrow> [] | Some l \<Rightarrow> int_to_string l),
               ev_to := int_to_string enemy_alive,
               ev_value := Some enemy_alive\<rparr>],
            r\<lparr>rs_last_clutch_enemy_alive := Some enemy_alive\<rparr>)
         else ([], r))
      in (events, r1\<lparr>rs_context := (rs_context r1)\<lparr>
            cx_clutch_active := rs_clutch_active r1,
            cx_clutch_opponents := rs_last_clutch_enemy_alive r1\<rparr>\<rparr>))"

definition evaluate_clutch :: "resolver \<Rightarrow> u64 \<Rightarrow> event list \<times> resolver" where
  "evaluate_clutch r event_us =
     (case (rs_latest_state r, rs_latest_supplement r, rs_local_team r) of
        (Some st, Some sn, Some team) \<Rightarrow>
          if \<not> rs_round_has_known_start r \<or> sn_relative_us sn < rs_round_start_us r then ([], r)
          else
            (case perspective_for_team (sn_teams sn) team of
               None \<Rightarrow> push_end_clutch r event_us
             | Some p \<Rightarrow>
                 (case (pc_local_alive p, pc_enemy_alive p) of
                    (Some local_alive, Some enemy_alive) \<Rightarrow>
                      if \<not> clutch_now r st local_alive enemy_alive then push_end_clutch r event_us
                      else advance_clutch r event_us enemy_alive
                  | _ \<Rightarrow> push_end_clutch r event_us))
      | _ \<Rightarrow> ([], r))"

text \<open>The guards of \<open>evaluate_ace\<close>, in the order of its early returns.\<close>

definition ace_confirmed :: "resolver \<Rightarrow> game_state \<Rightarrow> snapshot \<Rightarrow> string \<Rightarrow> i32 \<Rightarrow> bool" where
  "ace_confirmed r st sn team initial_total =
     (if \<not> supported_round_mode_for_ace (gs_map_mode st) then False
      else if sn_relative_us sn < rs_round_start_us r then False
      else if rs_roster_changed_this_round r then False
      else if cf_require_roster_revision_for_ace (rs_config r) \<and> rs_initial_roster_revision r = None
      then False
      else if gs_round_kills st \<noteq> Some initial_total then False
      else
        (case perspective_for_team (sn_teams sn) team of
           None \<Rightarrow> False
         | Some p \<Rightarrow>
             (case (pc_enemy_alive p, pc_enemy_total p) of
                (Some alive, Some enemy_total) \<Rightarrow>
                  if alive \<noteq> 0 \<or> enemy_total \<noteq> initial_total then False
                  else (case rs_initial_roster_revision r of
                          None \<Rightarrow> True
                        | Some revision \<Rightarrow> sn_roster_revision sn = Some revision)
              | _ \<Rightarrow> False)))"

definition evaluate_ace :: "resolver \<Rightarrow> u64 \<Rightarrow> event list \<times> resolver" where
  "evaluate_ace r event_us =
     (if rs_ace_emitted_this_round r \<or> \<not> rs_round_has_known_start r then ([], r)
      else
        (case (rs_latest_state r, rs_latest_supplement r, rs_local_team r, rs_initial_enemy_total r) of
           (Some st, Some sn, Some team, Some initial_total) \<Rightarrow>
             if ace_confirmed r st sn team initial_total then
               ([(make_semantic_event r Ace event_us)\<lparr>ev_value := gs_round_kills st\<rparr>],
                r\<lparr>rs_ace_emitted_this_round := True\<rparr>)
             else ([], r)
         | _ \<Rightarrow> ([], r)))"

subsection \<open>The two inputs\<close>

definition learn_local_player :: "resolver \<Rightarrow> game_state \<Rightarrow> event list \<Rightarrow> resolver" where
  "learn_local_player r st factual =
     (let acquired = has_event factual LocalPlayerAcquired \<or> gs_local_player_valid st;
          r1 = (if acquired then r\<lparr>rs_local_player_acquired := True\<rparr> else r);
          r2 = (if gs_local_player_valid st \<and> gs_player_team st \<noteq> None
                then r1\<lparr>rs_local_team := gs_player_team st\<rparr> else r1);
          r3 = (if gs_local_player_valid st \<and> gs_health st \<noteq> None
                then r2\<lparr>rs_local_player_alive := Some (the (gs_health st) > 0)\<rparr> else r2);
          r4 = (if has_event factual PlayerDied
                then r3\<lparr>rs_local_player_alive := Some False\<rparr> else r3)
      in (if has_event factual PlayerRespawned
          then r4\<lparr>rs_local_player_alive := Some True\<rparr> else r4))"

definition has_current_round_supplement :: "resolver \<Rightarrow> game_state \<Rightarrow> bool" where
  "has_current_round_supplement r st =
     opt_holds (\<lambda>sn. snapshot_fresh_at r sn (gs_relative_us st)
         \<and> (\<not> rs_round_has_known_start r \<or> sn_relative_us sn \<ge> rs_round_start_us r))
       (rs_latest_supplement r)"

definition fuse_supplement :: "resolver \<Rightarrow> snapshot \<Rightarrow> u64 \<Rightarrow> event list \<times> resolver" where
  "fuse_supplement r sn event_us =
     (let r1 = observe_roster (update_context r sn) sn;
          (clutch, r2) = evaluate_clutch r1 event_us;
          (ace, r3) = evaluate_ace r2 event_us
      in (clutch @ ace, r3))"

text \<open>
  \<open>process_gsi\<close> in three parts: learning from the batch up to \<open>begin_round\<close>, fusing the
  latest snapshot if it describes the current round, and ending the clutch with the round.
\<close>

definition prepare_batch :: "resolver \<Rightarrow> game_state \<Rightarrow> event list \<Rightarrow> resolver" where
  "prepare_batch r st factual =
     (let r0 = (if has_event factual MatchEntered then reset r else r);
          r1 = learn_local_player (r0\<lparr>rs_latest_state := Some st\<rparr>) st factual;
          r2 = update_lifecycle_context r1 st
      in if has_event factual RoundStarted then begin_round r2 st else r2)"

definition fuse_current_supplement :: "resolver \<Rightarrow> game_state \<Rightarrow> event list \<times> resolver" where
  "fuse_current_supplement r st =
     (if has_current_round_supplement r st
      then fuse_supplement r (the (rs_latest_supplement r)) (gs_relative_us st)
      else ([], r\<lparr>rs_context := clear_counts (rs_context r)\<rparr>))"

definition close_round :: "resolver \<Rightarrow> game_state \<Rightarrow> event list \<Rightarrow> event list \<times> resolver" where
  "close_round r st factual =
     (if has_event factual RoundEnded \<or> has_event factual GameOver \<or> has_event factual MatchLeft
      then (let (es, r') = push_end_clutch r (gs_relative_us st)
            in (es, r'\<lparr>rs_round_ended := True\<rparr>))
      else ([], r))"

definition process_gsi :: "resolver \<Rightarrow> game_state \<Rightarrow> event list \<Rightarrow> event list \<times> resolver" where
  "process_gsi r st factual =
     (let (events, r1) = fuse_current_supplement (prepare_batch r st factual) st;
          (ended, r2) = close_round r1 st factual
      in (events @ ended, if has_event factual MatchLeft then reset r2 else r2))"

definition process_supplementary :: "resolver \<Rightarrow> snapshot \<Rightarrow> event list \<times> resolver" where
  "process_supplementary r sn =
     (if \<not> valid_team_counts (sn_teams sn) then ([], r)
      else if opt_holds (\<lambda>last. sn_relative_us sn < last) (rs_last_supplement_us r) then ([], r)
      else if opt_holds (\<lambda>st. sn_relative_us sn < gs_relative_us st) (rs_latest_state r) then ([], r)
      else
        (let r1 = r\<lparr>rs_latest_supplement := Some sn, rs_last_supplement_us := Some (sn_relative_us sn)\<rparr>
         in if rs_latest_state r1 = None then ([], r1)
            else fuse_supplement r1 sn (sn_relative_us sn)))"

end
