(* ===== verification/Resolver_Facts.thy ===== *)
theory Resolver_Facts
  imports Resolver Transducer Detector_Lifecycle
begin

unbundle bit_operations_syntax

text \<open>
  What each operation of the semantic layer leaves alone (frames), and the cases in which
  the operations that produce events answer with one.
\<close>

subsection \<open>Frames\<close>

named_theorems resolver_simps

lemma reset_eq: "reset r = init_resolver (rs_config r)"
  by (simp add: reset_def init_resolver_def)

lemma clear_counts_simps [resolver_simps, simp]:
  "cx_lifecycle (clear_counts cx) = cx_lifecycle cx"
  "cx_match_attached (clear_counts cx) = cx_match_attached cx"
  "cx_scored_round_active (clear_counts cx) = cx_scored_round_active cx"
  "cx_local_player_acquired (clear_counts cx) = cx_local_player_acquired cx"
  "cx_local_player_alive (clear_counts cx) = cx_local_player_alive cx"
  "\<not> cx_supplement_available (clear_counts cx)"
  "cx_local_alive (clear_counts cx) = None"
  "cx_enemy_alive (clear_counts cx) = None"
  "cx_local_total (clear_counts cx) = None"
  "cx_enemy_total (clear_counts cx) = None"
  "cx_alive_delta (clear_counts cx) = None"
  "cx_clutch_active (clear_counts cx) = cx_clutch_active cx"
  "cx_clutch_opponents (clear_counts cx) = cx_clutch_opponents cx"
  "cx_roster_changed_this_round (clear_counts cx) = cx_roster_changed_this_round cx"
  by (simp_all add: clear_counts_def)

lemma learn_local_player_frame [resolver_simps]:
  "rs_config (learn_local_player r st fs) = rs_config r"
  "rs_context (learn_local_player r st fs) = rs_context r"
  "rs_latest_state (learn_local_player r st fs) = rs_latest_state r"
  "rs_latest_supplement (learn_local_player r st fs) = rs_latest_supplement r"
  "rs_round_has_known_start (learn_local_player r st fs) = rs_round_has_known_start r"
  "rs_round_ended (learn_local_player r st fs) = rs_round_ended r"
  "rs_round_start_us (learn_local_player r st fs) = rs_round_start_us r"
  "rs_initial_enemy_total (learn_local_player r st fs) = rs_initial_enemy_total r"
  "rs_initial_roster_revision (learn_local_player r st fs) = rs_initial_roster_revision r"
  "rs_roster_changed_this_round (learn_local_player r st fs) = rs_roster_changed_this_round r"
  "rs_ace_emitted_this_round (learn_local_player r st fs) = rs_ace_emitted_this_round r"
  "rs_clutch_active (learn_local_player r st fs) = rs_clutch_active r"
  "rs_last_clutch_enemy_alive (learn_local_player r st fs) = rs_last_clutch_enemy_alive r"
  "rs_last_supplement_us (learn_local_player r st fs) = rs_last_supplement_us r"
  by (simp_all add: learn_local_player_def Let_def)

lemma update_context_frame [resolver_simps]:
  "rs_config (update_context r sn) = rs_config r"
  "rs_latest_state (update_context r sn) = rs_latest_state r"
  "rs_latest_supplement (update_context r sn) = rs_latest_supplement r"
  "rs_local_team (update_context r sn) = rs_local_team r"
  "rs_local_player_alive (update_context r sn) = rs_local_player_alive r"
  "rs_local_player_acquired (update_context r sn) = rs_local_player_acquired r"
  "rs_round_has_known_start (update_context r sn) = rs_round_has_known_start r"
  "rs_round_ended (update_context r sn) = rs_round_ended r"
  "rs_round_start_us (update_context r sn) = rs_round_start_us r"
  "rs_initial_enemy_total (update_context r sn) = rs_initial_enemy_total r"
  "rs_initial_roster_revision (update_context r sn) = rs_initial_roster_revision r"
  "rs_roster_changed_this_round (update_context r sn) = rs_roster_changed_this_round r"
  "rs_ace_emitted_this_round (update_context r sn) = rs_ace_emitted_this_round r"
  "rs_clutch_active (update_context r sn) = rs_clutch_active r"
  "rs_last_clutch_enemy_alive (update_context r sn) = rs_last_clutch_enemy_alive r"
  "rs_last_supplement_us (update_context r sn) = rs_last_supplement_us r"
  by (simp_all add: update_context_def Let_def split: option.splits)

lemma update_context_keeps [resolver_simps]:
  "cx_clutch_active (rs_context (update_context r sn)) = cx_clutch_active (rs_context r)"
  "cx_clutch_opponents (rs_context (update_context r sn)) = cx_clutch_opponents (rs_context r)"
  "cx_roster_changed_this_round (rs_context (update_context r sn)) =
     cx_roster_changed_this_round (rs_context r)"
  by (simp_all add: update_context_def Let_def split: option.splits)

lemma observe_roster_frame [resolver_simps]:
  "rs_config (observe_roster r sn) = rs_config r"
  "rs_latest_state (observe_roster r sn) = rs_latest_state r"
  "rs_latest_supplement (observe_roster r sn) = rs_latest_supplement r"
  "rs_local_team (observe_roster r sn) = rs_local_team r"
  "rs_local_player_alive (observe_roster r sn) = rs_local_player_alive r"
  "rs_local_player_acquired (observe_roster r sn) = rs_local_player_acquired r"
  "rs_round_has_known_start (observe_roster r sn) = rs_round_has_known_start r"
  "rs_round_ended (observe_roster r sn) = rs_round_ended r"
  "rs_round_start_us (observe_roster r sn) = rs_round_start_us r"
  "rs_initial_enemy_total (observe_roster r sn) = rs_initial_enemy_total r"
  "rs_initial_roster_revision (observe_roster r sn) = rs_initial_roster_revision r"
  "rs_ace_emitted_this_round (observe_roster r sn) = rs_ace_emitted_this_round r"
  "rs_clutch_active (observe_roster r sn) = rs_clutch_active r"
  "rs_last_clutch_enemy_alive (observe_roster r sn) = rs_last_clutch_enemy_alive r"
  "rs_last_supplement_us (observe_roster r sn) = rs_last_supplement_us r"
  by (simp_all add: observe_roster_def Let_def split: option.splits)

lemma make_semantic_event_simps [simp]:
  "ev_type (make_semantic_event r ty t) = ty"
  "ev_evidence (make_semantic_event r ty t) = Deterministic"
  "ev_sources (make_semantic_event r ty t) = src_gsi OR src_supplementary"
  "ev_relative_us (make_semantic_event r ty t) = t"
  by (simp_all add: make_semantic_event_def)

text \<open>\<open>push_end_clutch\<close>, \<open>advance_clutch\<close> and \<open>evaluate_clutch\<close> write only the clutch members.\<close>

definition same_but_clutch :: "resolver \<Rightarrow> resolver \<Rightarrow> bool" where
  "same_but_clutch r r' \<longleftrightarrow>
     (\<exists>active opponents cx_active cx_opponents.
       r' = r\<lparr>rs_clutch_active := active, rs_last_clutch_enemy_alive := opponents,
              rs_context := (rs_context r)\<lparr>cx_clutch_active := cx_active,
                cx_clutch_opponents := cx_opponents\<rparr>\<rparr>)"

lemma same_but_clutchI:
  "r' = r\<lparr>rs_clutch_active := a, rs_last_clutch_enemy_alive := l,
          rs_context := (rs_context r)\<lparr>cx_clutch_active := ca, cx_clutch_opponents := co\<rparr>\<rparr> \<Longrightarrow>
   same_but_clutch r r'"
  unfolding same_but_clutch_def by blast

lemma same_but_clutch_refl [simp]: "same_but_clutch r r"
  by (rule same_but_clutchI [where a = "rs_clutch_active r" and l = "rs_last_clutch_enemy_alive r"
        and ca = "cx_clutch_active (rs_context r)" and co = "cx_clutch_opponents (rs_context r)"]) simp

lemma push_end_clutch_frame: "same_but_clutch r (snd (push_end_clutch r t))"
proof (cases "rs_clutch_active r")
  case True
  then show ?thesis
    by (simp add: push_end_clutch_def end_clutch_def)
      (rule same_but_clutchI [where a = False and l = None and ca = False and co = None], simp)
qed (simp add: push_end_clutch_def end_clutch_def)

lemma advance_clutch_frame: "same_but_clutch r (snd (advance_clutch r t n))"
  by (rule same_but_clutchI [where a = "rs_clutch_active (snd (advance_clutch r t n))"
        and l = "rs_last_clutch_enemy_alive (snd (advance_clutch r t n))"
        and ca = "rs_clutch_active (snd (advance_clutch r t n))"
        and co = "rs_last_clutch_enemy_alive (snd (advance_clutch r t n))"])
    (simp add: advance_clutch_def Let_def)

lemma evaluate_clutch_disj:
  "evaluate_clutch r t = ([], r)
   \<or> evaluate_clutch r t = push_end_clutch r t \<and> rs_latest_state r \<noteq> None
   \<or> (\<exists>st n. evaluate_clutch r t = advance_clutch r t n \<and> rs_latest_state r = Some st
        \<and> clutch_now r st 1 n \<and> rs_round_has_known_start r)"
proof (cases "rs_latest_state r"; cases "rs_latest_supplement r"; cases "rs_local_team r")
  fix st sn team
  assume eqs: "rs_latest_state r = Some st" "rs_latest_supplement r = Some sn" "rs_local_team r = Some team"
  show ?thesis
  proof (cases "perspective_for_team (sn_teams sn) team")
    case None
    with eqs show ?thesis by (auto simp: evaluate_clutch_def)
  next
    case (Some p)
    with eqs show ?thesis
      by (cases "pc_local_alive p"; cases "pc_enemy_alive p")
        (auto simp: evaluate_clutch_def clutch_now_def)
  qed
qed (simp_all add: evaluate_clutch_def)

lemma evaluate_clutch_cases:
  obtains "evaluate_clutch r t = ([], r)"
  | "evaluate_clutch r t = push_end_clutch r t" "rs_latest_state r \<noteq> None"
  | st n where "evaluate_clutch r t = advance_clutch r t n" "rs_latest_state r = Some st"
      "clutch_now r st 1 n" "rs_round_has_known_start r"
  using evaluate_clutch_disj [of r t] by blast

lemma evaluate_clutch_frame: "same_but_clutch r (snd (evaluate_clutch r t))"
  by (rule evaluate_clutch_cases [of r t]) (auto simp: push_end_clutch_frame advance_clutch_frame)

lemma same_but_clutch_fields:
  assumes "same_but_clutch r r'"
  shows "rs_config r' = rs_config r" "rs_latest_state r' = rs_latest_state r"
    "rs_latest_supplement r' = rs_latest_supplement r" "rs_local_team r' = rs_local_team r"
    "rs_local_player_alive r' = rs_local_player_alive r"
    "rs_local_player_acquired r' = rs_local_player_acquired r"
    "rs_round_has_known_start r' = rs_round_has_known_start r" "rs_round_ended r' = rs_round_ended r"
    "rs_round_start_us r' = rs_round_start_us r"
    "rs_initial_enemy_total r' = rs_initial_enemy_total r"
    "rs_initial_roster_revision r' = rs_initial_roster_revision r"
    "rs_roster_changed_this_round r' = rs_roster_changed_this_round r"
    "rs_ace_emitted_this_round r' = rs_ace_emitted_this_round r"
    "rs_last_supplement_us r' = rs_last_supplement_us r"
  using assms by (auto simp: same_but_clutch_def)

lemma evaluate_ace_disj:
  "evaluate_ace r t = ([], r)
   \<or> (\<exists>st sn team n. evaluate_ace r t =
          ([(make_semantic_event r Ace t)\<lparr>ev_value := Some n\<rparr>], r\<lparr>rs_ace_emitted_this_round := True\<rparr>)
        \<and> \<not> rs_ace_emitted_this_round r \<and> rs_round_has_known_start r
        \<and> rs_latest_state r = Some st \<and> rs_latest_supplement r = Some sn
        \<and> rs_local_team r = Some team \<and> rs_initial_enemy_total r = Some n
        \<and> gs_round_kills st = Some n \<and> ace_confirmed r st sn team n)"
  by (cases "rs_latest_state r"; cases "rs_latest_supplement r"; cases "rs_local_team r";
      cases "rs_initial_enemy_total r")
    (auto simp: evaluate_ace_def ace_confirmed_def split: if_splits)

lemma evaluate_ace_cases:
  obtains "evaluate_ace r t = ([], r)"
  | st sn team n where
      "evaluate_ace r t =
         ([(make_semantic_event r Ace t)\<lparr>ev_value := Some n\<rparr>], r\<lparr>rs_ace_emitted_this_round := True\<rparr>)"
      "\<not> rs_ace_emitted_this_round r" "rs_round_has_known_start r"
      "rs_latest_state r = Some st" "rs_latest_supplement r = Some sn"
      "rs_local_team r = Some team" "rs_initial_enemy_total r = Some n"
      "gs_round_kills st = Some n" "ace_confirmed r st sn team n"
  using evaluate_ace_disj [of r t] by blast

lemma push_end_clutch_events:
  "e \<in> set (fst (push_end_clutch r t)) \<Longrightarrow> ev_type e = ClutchEnded"
  by (auto simp: push_end_clutch_def end_clutch_def split: if_splits)

lemma advance_clutch_events:
  "e \<in> set (fst (advance_clutch r t n)) \<Longrightarrow> ev_type e \<in> {ClutchStarted, ClutchUpdated}"
  by (auto simp: advance_clutch_def Let_def split: if_splits)

lemma establish_round_baseline_disj:
  "establish_round_baseline r sn = r
   \<or> (\<exists>team p n. rs_round_has_known_start r \<and> rs_local_team r = Some team
        \<and> perspective_for_team (sn_teams sn) team = Some p \<and> pc_enemy_total p = Some n
        \<and> (cf_require_roster_revision_for_ace (rs_config r) \<longrightarrow> sn_roster_revision sn \<noteq> None)
        \<and> establish_round_baseline r sn =
            r\<lparr>rs_initial_enemy_total := Some n, rs_initial_roster_revision := sn_roster_revision sn\<rparr>)"
  by (cases "rs_local_team r"; cases "sn_roster_revision sn")
    (auto simp: establish_round_baseline_def split: option.splits)

lemma snapshot_fresh_at_config:
  "rs_config r = rs_config r' \<Longrightarrow> snapshot_fresh_at r sn t = snapshot_fresh_at r' sn t"
  by (simp add: snapshot_fresh_at_def)

lemma begin_round_cases:
  obtains team sn p n where
      "rs_latest_supplement r = Some sn" "snapshot_fresh_at r sn (gs_relative_us st)"
      "rs_local_team r = Some team" "perspective_for_team (sn_teams sn) team = Some p"
      "pc_enemy_total p = Some n"
      "rs_initial_enemy_total (begin_round r st) = Some n"
      "rs_initial_roster_revision (begin_round r st) = sn_roster_revision sn"
      "cf_require_roster_revision_for_ace (rs_config r) \<longrightarrow> sn_roster_revision sn \<noteq> None"
  | "rs_initial_enemy_total (begin_round r st) = None"
    "rs_initial_roster_revision (begin_round r st) = None"
proof (cases "rs_latest_supplement r")
  case None
  then show ?thesis using that(2) by (simp add: begin_round_def Let_def)
next
  case (Some sn)
  show ?thesis
  proof (cases "snapshot_fresh_at r sn (gs_relative_us st)")
    case False
    then have "\<not> snapshot_fresh_at (r\<lparr>rs_round_has_known_start := True, rs_round_ended := False,
        rs_round_start_us := gs_relative_us st, rs_initial_enemy_total := None,
        rs_initial_roster_revision := None, rs_roster_changed_this_round := False,
        rs_ace_emitted_this_round := False, rs_clutch_active := False,
        rs_last_clutch_enemy_alive := None, rs_context := cx\<rparr>) sn (gs_relative_us st)" for cx
      by (subst snapshot_fresh_at_config [of _ r]) simp_all
    with Some show ?thesis using that(2) by (simp add: begin_round_def Let_def)
  next
    case True
    let ?r1 = "r\<lparr>rs_round_has_known_start := True, rs_round_ended := False,
        rs_round_start_us := gs_relative_us st, rs_initial_enemy_total := None,
        rs_initial_roster_revision := None, rs_roster_changed_this_round := False,
        rs_ace_emitted_this_round := False, rs_clutch_active := False,
        rs_last_clutch_enemy_alive := None, rs_context := (rs_context r)\<lparr>
          cx_roster_changed_this_round := False, cx_clutch_active := False,
          cx_clutch_opponents := None\<rparr>\<rparr>"
    have fresh: "snapshot_fresh_at ?r1 sn (gs_relative_us st)"
      using True by (subst snapshot_fresh_at_config [of _ r]) simp_all
    have br: "rs_initial_enemy_total (begin_round r st) = rs_initial_enemy_total (establish_round_baseline ?r1 sn)"
      "rs_initial_roster_revision (begin_round r st) = rs_initial_roster_revision (establish_round_baseline ?r1 sn)"
      using Some fresh by (simp_all add: begin_round_def Let_def)
    from establish_round_baseline_disj [of ?r1 sn] show ?thesis
    proof (elim disjE exE conjE)
      assume "establish_round_baseline ?r1 sn = ?r1"
      with br show ?thesis using that(2) by simp
    next
      fix team p n
      assume "rs_local_team ?r1 = Some team" "perspective_for_team (sn_teams sn) team = Some p"
        "pc_enemy_total p = Some n"
        "cf_require_roster_revision_for_ace (rs_config ?r1) \<longrightarrow> sn_roster_revision sn \<noteq> None"
        "establish_round_baseline ?r1 sn =
            ?r1\<lparr>rs_initial_enemy_total := Some n, rs_initial_roster_revision := sn_roster_revision sn\<rparr>"
      with br show ?thesis using that(1) [OF Some True] by simp
    qed
  qed
qed

lemma establish_round_baseline_frame [resolver_simps]:
  "rs_config (establish_round_baseline r sn) = rs_config r"
  "rs_context (establish_round_baseline r sn) = rs_context r"
  "rs_latest_state (establish_round_baseline r sn) = rs_latest_state r"
  "rs_latest_supplement (establish_round_baseline r sn) = rs_latest_supplement r"
  "rs_local_team (establish_round_baseline r sn) = rs_local_team r"
  "rs_local_player_alive (establish_round_baseline r sn) = rs_local_player_alive r"
  "rs_local_player_acquired (establish_round_baseline r sn) = rs_local_player_acquired r"
  "rs_round_has_known_start (establish_round_baseline r sn) = rs_round_has_known_start r"
  "rs_round_ended (establish_round_baseline r sn) = rs_round_ended r"
  "rs_round_start_us (establish_round_baseline r sn) = rs_round_start_us r"
  "rs_roster_changed_this_round (establish_round_baseline r sn) = rs_roster_changed_this_round r"
  "rs_ace_emitted_this_round (establish_round_baseline r sn) = rs_ace_emitted_this_round r"
  "rs_clutch_active (establish_round_baseline r sn) = rs_clutch_active r"
  "rs_last_clutch_enemy_alive (establish_round_baseline r sn) = rs_last_clutch_enemy_alive r"
  "rs_last_supplement_us (establish_round_baseline r sn) = rs_last_supplement_us r"
  by (simp_all add: establish_round_baseline_def split: option.splits)

lemma begin_round_frame [resolver_simps]:
  "rs_config (begin_round r st) = rs_config r"
  "rs_latest_state (begin_round r st) = rs_latest_state r"
  "rs_latest_supplement (begin_round r st) = rs_latest_supplement r"
  "rs_local_team (begin_round r st) = rs_local_team r"
  "rs_local_player_alive (begin_round r st) = rs_local_player_alive r"
  "rs_round_has_known_start (begin_round r st)"
  "\<not> rs_round_ended (begin_round r st)"
  "rs_round_start_us (begin_round r st) = gs_relative_us st"
  "\<not> rs_roster_changed_this_round (begin_round r st)"
  "\<not> rs_ace_emitted_this_round (begin_round r st)"
  "\<not> rs_clutch_active (begin_round r st)"
  "rs_last_clutch_enemy_alive (begin_round r st) = None"
  "rs_last_supplement_us (begin_round r st) = rs_last_supplement_us r"
  "rs_context (begin_round r st) = clear_counts ((rs_context r)\<lparr>
     cx_roster_changed_this_round := False, cx_clutch_active := False, cx_clutch_opponents := None\<rparr>)"
  by (simp_all add: begin_round_def Let_def establish_round_baseline_frame split: option.splits)

end
