(* ===== verification/Resolver_Protocol.thy ===== *)
theory Resolver_Protocol
  imports Resolver_Facts
begin

unbundle bit_operations_syntax

text \<open>
  What the semantic layer keeps over whole runs: the agreement of its members with the
  public context, the protocol of clutch events and at most one ACE per round. The two
  inputs are joined in \<open>resolver_step\<close>, whose output is the stream an observer sees: the
  factual events of a batch followed by the semantic ones.
\<close>

datatype resolver_input =
    GsiInput game_state "event list"
  | SupplementInput snapshot

fun resolver_step :: "resolver \<Rightarrow> resolver_input \<Rightarrow> event list \<times> resolver" where
  "resolver_step r (GsiInput st factual) =
     (let (semantic, r') = process_gsi r st factual in (factual @ semantic, r'))"
| "resolver_step r (SupplementInput sn) = process_supplementary r sn"

abbreviation semantic_types :: "event_type set" where
  "semantic_types \<equiv> {Ace, ClutchStarted, ClutchUpdated, ClutchEnded}"

definition factual_batch :: "event list \<Rightarrow> bool" where
  "factual_batch fs \<longleftrightarrow>
     (\<forall>e\<in>set fs. ev_type e \<notin> semantic_types) \<and> (\<forall>e\<in>set (tl fs). ev_type e \<noteq> MatchEntered)"

fun factual_input :: "resolver_input \<Rightarrow> bool" where
  "factual_input (GsiInput st fs) = factual_batch fs"
| "factual_input (SupplementInput sn) = True"

subsection \<open>The invariant\<close>

definition clutch_inv :: "resolver \<Rightarrow> bool" where
  "clutch_inv r \<longleftrightarrow>
     cx_clutch_active (rs_context r) = rs_clutch_active r
     \<and> cx_clutch_opponents (rs_context r) = rs_last_clutch_enemy_alive r
     \<and> rs_clutch_active r = (rs_last_clutch_enemy_alive r \<noteq> None)
     \<and> (rs_clutch_active r \<longrightarrow> rs_round_has_known_start r)
     \<and> rs_last_clutch_enemy_alive r \<notin> Some ` {..0}"

definition round_inv :: "resolver \<Rightarrow> bool" where
  "round_inv r \<longleftrightarrow>
     cx_roster_changed_this_round (rs_context r) = rs_roster_changed_this_round r
     \<and> (rs_initial_enemy_total r \<noteq> None \<longrightarrow> rs_round_has_known_start r)
     \<and> (rs_ace_emitted_this_round r \<longrightarrow> rs_round_has_known_start r)
     \<and> rs_initial_enemy_total r \<notin> Some ` {..<0}"

definition supplement_inv :: "resolver \<Rightarrow> bool" where
  "supplement_inv r \<longleftrightarrow>
     rs_last_supplement_us r = map_option sn_relative_us (rs_latest_supplement r)
     \<and> (\<forall>sn\<in>set_option (rs_latest_supplement r). valid_team_counts (sn_teams sn))"

definition context_inv :: "resolver \<Rightarrow> bool" where
  "context_inv r \<longleftrightarrow>
     (let cx = rs_context r in
       (cx_scored_round_active cx \<longleftrightarrow> cx_lifecycle cx = PhaseLiveRound)
       \<and> (cx_supplement_available cx \<or>
            cx_local_alive cx = None \<and> cx_enemy_alive cx = None
            \<and> cx_local_total cx = None \<and> cx_enemy_total cx = None)
       \<and> alive_fits_total (cx_local_alive cx) (cx_local_total cx)
       \<and> alive_fits_total (cx_enemy_alive cx) (cx_enemy_total cx)
       \<and> valid_nonnegative (cx_local_alive cx) \<and> valid_nonnegative (cx_enemy_alive cx)
       \<and> cx_alive_delta cx = alive_difference (cx_local_alive cx) (cx_enemy_alive cx))"

lemma alive_difference_None [simp]: "alive_difference None e = None" "alive_difference l None = None"
  by (simp_all add: alive_difference_def split: option.splits)

definition resolver_inv :: "resolver \<Rightarrow> bool" where
  "resolver_inv r \<longleftrightarrow> clutch_inv r \<and> round_inv r \<and> supplement_inv r \<and> context_inv r"

lemma resolver_inv_init: "resolver_inv (init_resolver config)"
  by (simp add: resolver_inv_def clutch_inv_def round_inv_def supplement_inv_def context_inv_def
      init_resolver_def empty_context_def image_iff)

lemma resolver_inv_reset: "resolver_inv (reset r)"
  by (simp add: reset_eq resolver_inv_init)

lemmas resolver_inv_defs =
  resolver_inv_def clutch_inv_def round_inv_def supplement_inv_def context_inv_def

lemma clear_counts_inv: "resolver_inv r \<Longrightarrow> resolver_inv (r\<lparr>rs_context := clear_counts (rs_context r)\<rparr>)"
  by (simp add: resolver_inv_defs Let_def)

lemma learn_local_player_inv: "resolver_inv r \<Longrightarrow> resolver_inv (learn_local_player r st fs)"
  by (simp add: resolver_inv_defs resolver_simps)

lemma latest_state_inv: "resolver_inv r \<Longrightarrow> resolver_inv (r\<lparr>rs_latest_state := x\<rparr>)"
  by (simp add: resolver_inv_defs)

lemma update_lifecycle_context_inv: "resolver_inv r \<Longrightarrow> resolver_inv (update_lifecycle_context r st)"
  by (simp add: resolver_inv_defs update_lifecycle_context_def Let_def)

lemma begin_round_inv:
  assumes "resolver_inv r"
  shows "resolver_inv (begin_round r st)"
proof -
  have "rs_initial_enemy_total (begin_round r st) \<notin> Some ` {..<0}"
    by (rule begin_round_cases [of r st]) (auto dest: perspective_bounds(3))
  with assms show ?thesis
    by (simp add: resolver_inv_defs begin_round_frame Let_def image_iff)
qed

lemma prepare_batch_inv: "resolver_inv r \<Longrightarrow> resolver_inv (prepare_batch r st fs)"
  by (simp add: prepare_batch_def Let_def begin_round_inv update_lifecycle_context_inv
      learn_local_player_inv latest_state_inv resolver_inv_reset)

lemma update_context_context_inv:
  assumes "context_inv r"
  shows "context_inv (update_context r sn)"
proof (cases "rs_local_team r")
  case None
  with assms show ?thesis by (simp add: context_inv_def update_context_def Let_def)
next
  case (Some team)
  show ?thesis
  proof (cases "perspective_for_team (sn_teams sn) team")
    case None
    with assms Some show ?thesis by (simp add: context_inv_def update_context_def Let_def)
  next
    case (Some p)
    have "alive_fits_total (pc_local_alive p) (pc_local_total p)"
      "alive_fits_total (pc_enemy_alive p) (pc_enemy_total p)"
      "valid_nonnegative (pc_local_alive p)" "valid_nonnegative (pc_enemy_alive p)"
      using Some by (auto simp: perspective_for_team_def valid_team_counts_def split: if_splits)
    with assms Some \<open>rs_local_team r = Some team\<close> show ?thesis
      by (simp add: context_inv_def update_context_def Let_def)
  qed
qed

lemma update_context_inv: "resolver_inv r \<Longrightarrow> resolver_inv (update_context r sn)"
  using update_context_context_inv [of r sn]
  by (simp add: resolver_inv_def clutch_inv_def round_inv_def supplement_inv_def resolver_simps)

lemma observe_roster_disj:
  "observe_roster r sn = r
   \<or> (\<exists>c. observe_roster r sn = r\<lparr>rs_roster_changed_this_round := c,
        rs_context := (rs_context r)\<lparr>cx_roster_changed_this_round := c\<rparr>\<rparr>)"
  by (auto simp: observe_roster_def Let_def split: option.splits)

lemma observe_roster_inv:
  assumes "resolver_inv r"
  shows "resolver_inv (observe_roster r sn)"
  using observe_roster_disj [of r sn]
proof (elim disjE exE)
  fix c
  assume "observe_roster r sn = r\<lparr>rs_roster_changed_this_round := c,
        rs_context := (rs_context r)\<lparr>cx_roster_changed_this_round := c\<rparr>\<rparr>"
  with assms show ?thesis by (simp add: resolver_inv_defs Let_def)
qed (simp add: assms)

lemma push_end_clutch_inv: "resolver_inv r \<Longrightarrow> resolver_inv (snd (push_end_clutch r t))"
  by (simp add: push_end_clutch_def end_clutch_def resolver_inv_defs Let_def image_iff)

lemma advance_clutch_inv:
  "resolver_inv r \<Longrightarrow> rs_round_has_known_start r \<Longrightarrow> 1 \<le> n \<Longrightarrow> resolver_inv (snd (advance_clutch r t n))"
  by (auto simp: advance_clutch_def resolver_inv_defs Let_def)

lemma evaluate_clutch_inv: "resolver_inv r \<Longrightarrow> resolver_inv (snd (evaluate_clutch r t))"
  by (rule evaluate_clutch_cases [of r t])
    (auto simp: push_end_clutch_inv advance_clutch_inv clutch_now_def)

lemma evaluate_ace_inv: "resolver_inv r \<Longrightarrow> resolver_inv (snd (evaluate_ace r t))"
  by (rule evaluate_ace_cases [of r t]) (auto simp: resolver_inv_defs)

lemma fuse_supplement_inv: "resolver_inv r \<Longrightarrow> resolver_inv (snd (fuse_supplement r sn t))"
  by (simp add: fuse_supplement_def Let_def case_prod_beta evaluate_ace_inv evaluate_clutch_inv
      observe_roster_inv update_context_inv)

lemma fuse_current_supplement_inv: "resolver_inv r \<Longrightarrow> resolver_inv (snd (fuse_current_supplement r st))"
  by (simp add: fuse_current_supplement_def fuse_supplement_inv clear_counts_inv)

lemma close_round_inv: "resolver_inv r \<Longrightarrow> resolver_inv (snd (close_round r st fs))"
  using push_end_clutch_inv [of r "gs_relative_us st"]
  by (simp add: close_round_def case_prod_beta) (simp add: resolver_inv_defs)

lemma process_gsi_inv: "resolver_inv r \<Longrightarrow> resolver_inv (snd (process_gsi r st fs))"
  by (simp add: process_gsi_def case_prod_beta resolver_inv_reset close_round_inv
      fuse_current_supplement_inv prepare_batch_inv)

lemma process_supplementary_inv: "resolver_inv r \<Longrightarrow> resolver_inv (snd (process_supplementary r sn))"
proof -
  assume inv: "resolver_inv r"
  have "resolver_inv (r\<lparr>rs_latest_supplement := Some sn, rs_last_supplement_us := Some (sn_relative_us sn)\<rparr>)"
    if "valid_team_counts (sn_teams sn)"
    using inv that by (simp add: resolver_inv_defs)
  with inv show ?thesis
    by (simp add: process_supplementary_def Let_def fuse_supplement_inv)
qed

subsection \<open>The protocol of clutch events\<close>

text \<open>
  The automaton remembers the opponents of the clutch that an observer believes to be
  running. A round start or a new match silently drops it, as the program does.
\<close>

definition clutch_watch :: "i32 option \<Rightarrow> event \<Rightarrow> i32 option option" where
  "clutch_watch running e =
     (case ev_type e of
        ClutchStarted \<Rightarrow>
          if running = None \<and> opt_holds (\<lambda>n. n \<ge> 1) (ev_value e) then Some (ev_value e) else None
      | ClutchUpdated \<Rightarrow>
          (case (running, ev_value e) of
             (Some old, Some new) \<Rightarrow>
               if new \<ge> 1 \<and> new \<noteq> old \<and> ev_from e = int_to_string old \<and> ev_to e = int_to_string new
               then Some (Some new) else None
           | _ \<Rightarrow> None)
      | ClutchEnded \<Rightarrow> if running \<noteq> None \<and> ev_value e = running then Some None else None
      | RoundStarted \<Rightarrow> Some None
      | MatchEntered \<Rightarrow> Some None
      | _ \<Rightarrow> Some running)"

lemma clutch_watch_factual:
  assumes "\<forall>e\<in>set fs. ev_type e \<notin> semantic_types"
  shows "monitor_run clutch_watch m fs =
     Some (if has_event fs MatchEntered \<or> has_event fs RoundStarted then None else m)"
  using assms
proof (induction fs arbitrary: m)
  case (Cons e fs)
  then show ?case by (cases "ev_type e") (auto simp: clutch_watch_def has_event_def)
qed (simp add: has_event_def)

lemma prepare_batch_clutch:
  "rs_last_clutch_enemy_alive (prepare_batch r st fs) =
     (if has_event fs MatchEntered \<or> has_event fs RoundStarted then None
      else rs_last_clutch_enemy_alive r)"
  by (simp add: prepare_batch_def Let_def resolver_simps update_lifecycle_context_def reset_eq
      init_resolver_def)

lemma push_end_clutch_watch:
  assumes "resolver_inv r"
  shows "monitor_run clutch_watch (rs_last_clutch_enemy_alive r) (fst (push_end_clutch r t)) =
     Some (rs_last_clutch_enemy_alive (snd (push_end_clutch r t)))"
  using assms
  by (auto simp: push_end_clutch_def end_clutch_def clutch_watch_def resolver_inv_def clutch_inv_def)

lemma advance_clutch_watch:
  assumes "resolver_inv r" "1 \<le> n"
  shows "monitor_run clutch_watch (rs_last_clutch_enemy_alive r) (fst (advance_clutch r t n)) =
     Some (rs_last_clutch_enemy_alive (snd (advance_clutch r t n)))"
  using assms
  by (cases "rs_last_clutch_enemy_alive r")
    (auto simp: advance_clutch_def clutch_watch_def resolver_inv_def clutch_inv_def Let_def)

lemma evaluate_clutch_watch:
  assumes "resolver_inv r"
  shows "monitor_run clutch_watch (rs_last_clutch_enemy_alive r) (fst (evaluate_clutch r t)) =
     Some (rs_last_clutch_enemy_alive (snd (evaluate_clutch r t)))"
  by (rule evaluate_clutch_cases [of r t])
    (auto simp: push_end_clutch_watch advance_clutch_watch assms clutch_now_def)

lemma evaluate_ace_watch:
  "monitor_run clutch_watch (rs_last_clutch_enemy_alive r) (fst (evaluate_ace r t)) =
     Some (rs_last_clutch_enemy_alive (snd (evaluate_ace r t)))"
  by (rule evaluate_ace_cases [of r t]) (auto simp: clutch_watch_def)

lemma fuse_supplement_watch:
  assumes "resolver_inv r"
  shows "monitor_run clutch_watch (rs_last_clutch_enemy_alive r) (fst (fuse_supplement r sn t)) =
     Some (rs_last_clutch_enemy_alive (snd (fuse_supplement r sn t)))"
  using evaluate_clutch_watch [of "observe_roster (update_context r sn) sn" t] assms
  by (simp add: fuse_supplement_def Let_def case_prod_beta monitor_run_append evaluate_ace_watch
      observe_roster_inv update_context_inv resolver_simps)

lemma fuse_current_supplement_watch:
  "resolver_inv r \<Longrightarrow>
   monitor_run clutch_watch (rs_last_clutch_enemy_alive r) (fst (fuse_current_supplement r st)) =
     Some (rs_last_clutch_enemy_alive (snd (fuse_current_supplement r st)))"
  by (simp add: fuse_current_supplement_def fuse_supplement_watch)

lemma close_round_watch:
  "resolver_inv r \<Longrightarrow>
   monitor_run clutch_watch (rs_last_clutch_enemy_alive r) (fst (close_round r st fs)) =
     Some (rs_last_clutch_enemy_alive (snd (close_round r st fs)))"
  by (simp add: close_round_def case_prod_beta push_end_clutch_watch)

lemma close_round_left:
  "has_event fs MatchLeft \<Longrightarrow> resolver_inv r \<Longrightarrow> rs_last_clutch_enemy_alive (snd (close_round r st fs)) = None"
  by (auto simp: close_round_def case_prod_beta push_end_clutch_def end_clutch_def resolver_inv_def
      clutch_inv_def)

lemma process_gsi_watch:
  assumes "resolver_inv r" "\<forall>e\<in>set fs. ev_type e \<notin> semantic_types"
  shows "monitor_run clutch_watch (rs_last_clutch_enemy_alive r) (fs @ fst (process_gsi r st fs)) =
     Some (rs_last_clutch_enemy_alive (snd (process_gsi r st fs)))"
proof -
  let ?r1 = "prepare_batch r st fs"
  let ?r2 = "snd (fuse_current_supplement ?r1 st)"
  have inv1: "resolver_inv ?r1" and inv2: "resolver_inv ?r2"
    using assms(1) by (auto intro: prepare_batch_inv fuse_current_supplement_inv)
  have start: "monitor_run clutch_watch (rs_last_clutch_enemy_alive r) fs =
      Some (rs_last_clutch_enemy_alive ?r1)"
    using clutch_watch_factual [OF assms(2)] by (simp add: prepare_batch_clutch)
  show ?thesis
    by (simp add: process_gsi_def case_prod_beta monitor_run_append_Some [OF start]
        monitor_run_append_Some [OF fuse_current_supplement_watch [OF inv1]]
        close_round_watch [OF inv2] close_round_left inv2 reset_eq init_resolver_def)
qed

interpretation clutches: monitored resolver_step resolver_inv factual_input clutch_watch
  rs_last_clutch_enemy_alive
proof unfold_locales
  fix r x
  assume inv: "resolver_inv r"
  show "resolver_inv (snd (resolver_step r x))"
    using inv by (cases x) (auto simp: case_prod_beta process_gsi_inv process_supplementary_inv)
  assume ok: "factual_input x"
  show "monitor_run clutch_watch (rs_last_clutch_enemy_alive r) (fst (resolver_step r x)) =
      Some (rs_last_clutch_enemy_alive (snd (resolver_step r x)))"
  proof (cases x)
    case (GsiInput st fs)
    then show ?thesis using process_gsi_watch [OF inv] ok by (simp add: case_prod_beta factual_batch_def)
  next
    case (SupplementInput sn)
    let ?r1 = "r\<lparr>rs_latest_supplement := Some sn, rs_last_supplement_us := Some (sn_relative_us sn)\<rparr>"
    have "resolver_inv ?r1" if "valid_team_counts (sn_teams sn)"
      using inv that by (simp add: resolver_inv_defs)
    with SupplementInput show ?thesis
      using fuse_supplement_watch [of ?r1 sn "sn_relative_us sn"]
      by (simp add: process_supplementary_def Let_def)
  qed
qed

subsection \<open>One ACE per round\<close>

definition ace_watch :: "bool \<Rightarrow> event \<Rightarrow> bool option" where
  "ace_watch armed e =
     (case ev_type e of
        RoundStarted \<Rightarrow> Some True
      | MatchEntered \<Rightarrow> Some False
      | Ace \<Rightarrow> if armed then Some False else None
      | _ \<Rightarrow> Some armed)"

definition ace_rel :: "resolver \<Rightarrow> bool \<Rightarrow> bool" where
  "ace_rel r armed \<longleftrightarrow> (rs_round_has_known_start r \<and> \<not> rs_ace_emitted_this_round r \<longrightarrow> armed)"

lemma ace_watch_silent:
  assumes "\<forall>e\<in>set es. ev_type e \<notin> {RoundStarted, MatchEntered, Ace}"
  shows "monitor_run ace_watch m es = Some m"
  using assms
proof (induction es arbitrary: m)
  case (Cons e es)
  then show ?case by (cases "ev_type e") (auto simp: ace_watch_def)
qed simp

lemma ace_watch_factual:
  assumes "\<forall>e\<in>set fs. ev_type e \<notin> {MatchEntered, Ace}"
  shows "monitor_run ace_watch m fs = Some (m \<or> has_event fs RoundStarted)"
  using assms
proof (induction fs arbitrary: m)
  case (Cons e fs)
  then show ?case by (cases "ev_type e") (auto simp: ace_watch_def has_event_def)
qed (simp add: has_event_def)

lemma ace_watch_batch:
  assumes "factual_batch fs"
  shows "monitor_run ace_watch m fs =
     Some (m \<and> \<not> has_event fs MatchEntered \<or> has_event fs RoundStarted)"
proof (cases fs)
  case (Cons e es)
  with assms have tl: "\<forall>e\<in>set es. ev_type e \<notin> {MatchEntered, Ace}" and hd: "ev_type e \<noteq> Ace"
    by (auto simp: factual_batch_def)
  have no: "\<not> has_event es MatchEntered"
    using tl by (auto simp: has_event_def list_ex_iff)
  show ?thesis
    using Cons hd no ace_watch_factual [OF tl]
    by (cases "ev_type e") (auto simp: ace_watch_def has_event_def)
qed (simp add: has_event_def)

lemma prepare_batch_armed:
  "ace_rel r m \<Longrightarrow>
   ace_rel (prepare_batch r st fs) (m \<and> \<not> has_event fs MatchEntered \<or> has_event fs RoundStarted)"
  by (auto simp: ace_rel_def prepare_batch_def Let_def resolver_simps update_lifecycle_context_def
      reset_eq init_resolver_def)

lemma evaluate_clutch_types:
  "e \<in> set (fst (evaluate_clutch r t)) \<Longrightarrow> ev_type e \<in> {ClutchStarted, ClutchUpdated, ClutchEnded}"
  by (rule evaluate_clutch_cases [of r t]) (auto dest: push_end_clutch_events advance_clutch_events)

lemma evaluate_ace_armed:
  assumes "ace_rel r m"
  shows "\<exists>m'. monitor_run ace_watch m (fst (evaluate_ace r t)) = Some m'
     \<and> ace_rel (snd (evaluate_ace r t)) m'"
  using assms by (cases rule: evaluate_ace_cases [of r t]) (auto simp: ace_watch_def ace_rel_def)

lemma fuse_supplement_armed:
  assumes "ace_rel r m"
  shows "\<exists>m'. monitor_run ace_watch m (fst (fuse_supplement r sn t)) = Some m'
     \<and> ace_rel (snd (fuse_supplement r sn t)) m'"
proof -
  let ?r1 = "observe_roster (update_context r sn) sn"
  let ?c = "evaluate_clutch ?r1 t"
  have silent: "monitor_run ace_watch m (fst ?c) = Some m"
    by (rule ace_watch_silent) (auto dest: evaluate_clutch_types)
  have "ace_rel (snd ?c) m"
    using assms by (simp add: ace_rel_def same_but_clutch_fields [OF evaluate_clutch_frame] resolver_simps)
  from evaluate_ace_armed [OF this, of t] show ?thesis
    by (simp add: fuse_supplement_def Let_def case_prod_beta monitor_run_append_Some [OF silent])
qed

lemma fuse_current_supplement_armed:
  "ace_rel r m \<Longrightarrow> \<exists>m'. monitor_run ace_watch m (fst (fuse_current_supplement r st)) = Some m'
     \<and> ace_rel (snd (fuse_current_supplement r st)) m'"
  using fuse_supplement_armed [of r m]
  by (simp add: fuse_current_supplement_def) (simp add: ace_rel_def)

lemma close_round_armed:
  assumes "ace_rel r m"
  shows "monitor_run ace_watch m (fst (close_round r st fs)) = Some m
     \<and> ace_rel (snd (close_round r st fs)) m"
proof -
  have "monitor_run ace_watch m (fst (push_end_clutch r (gs_relative_us st))) = Some m"
    by (rule ace_watch_silent) (auto dest: push_end_clutch_events)
  with assms show ?thesis
    by (simp add: close_round_def case_prod_beta ace_rel_def
        same_but_clutch_fields(7,13) [OF push_end_clutch_frame])
qed

interpretation aces: simulated resolver_step factual_input ace_watch ace_rel
proof unfold_locales
  fix r m x
  assume rel: "ace_rel r m" and ok: "factual_input x"
  show "\<exists>m'. monitor_run ace_watch m (fst (resolver_step r x)) = Some m' \<and> ace_rel (snd (resolver_step r x)) m'"
  proof (cases x)
    case (GsiInput st fs)
    let ?r1 = "prepare_batch r st fs" and ?m1 = "m \<and> \<not> has_event fs MatchEntered \<or> has_event fs RoundStarted"
    let ?r2 = "snd (fuse_current_supplement ?r1 st)"
    obtain m2 where m2: "monitor_run ace_watch ?m1 (fst (fuse_current_supplement ?r1 st)) = Some m2"
      and rel2: "ace_rel ?r2 m2"
      using fuse_current_supplement_armed [OF prepare_batch_armed [OF rel]] by blast
    have "factual_batch fs" using ok GsiInput by simp
    note head = ace_watch_batch [OF this, of m]
    show ?thesis
      using close_round_armed [OF rel2, of st fs]
      by (auto simp: GsiInput process_gsi_def case_prod_beta monitor_run_append_Some [OF head]
          monitor_run_append_Some [OF m2] reset_eq ace_rel_def init_resolver_def)
  next
    case (SupplementInput sn)
    let ?r1 = "r\<lparr>rs_latest_supplement := Some sn, rs_last_supplement_us := Some (sn_relative_us sn)\<rparr>"
    have "ace_rel ?r1 m" using rel by (simp add: ace_rel_def)
    from fuse_supplement_armed [OF this] rel show ?thesis
      by (auto simp: SupplementInput process_supplementary_def Let_def ace_rel_def)
  qed
qed

end
