(* ===== verification/Resolver_Evidence.thy ===== *)
theory Resolver_Evidence
  imports Resolver_Protocol
begin

unbundle bit_operations_syntax

text \<open>
  The evidence behind semantic events: every ACE is grounded in observations that were
  actually submitted, supplementary snapshots that are invalid or late change nothing, and
  the semantic layer stays silent without a supplementary source.
\<close>

subsection \<open>Where the memory of the resolver comes from\<close>

definition round_start_in :: "resolver_input list \<Rightarrow> u64 \<Rightarrow> bool" where
  "round_start_in hist start_us \<longleftrightarrow>
     (\<exists>st fs. GsiInput st fs \<in> set hist \<and> has_event fs RoundStarted \<and> gs_relative_us st = start_us)"

definition baseline_in ::
  "resolver_input list \<Rightarrow> resolver_config \<Rightarrow> u64 \<Rightarrow> i32 \<Rightarrow> u64 option \<Rightarrow> bool" where
  "baseline_in hist config start_us n revision \<longleftrightarrow>
     (\<exists>sn team p. SupplementInput sn \<in> set hist \<and> sn_relative_us sn \<le> start_us
        \<and> perspective_for_team (sn_teams sn) team = Some p \<and> pc_enemy_total p = Some n
        \<and> sn_roster_revision sn = revision
        \<and> (cf_require_roster_revision_for_ace config \<longrightarrow> revision \<noteq> None))"

definition grounded :: "resolver_input list \<Rightarrow> resolver \<Rightarrow> bool" where
  "grounded hist r \<longleftrightarrow>
     (\<forall>sn. rs_latest_supplement r = Some sn \<longrightarrow> SupplementInput sn \<in> set hist)
     \<and> (\<forall>st. rs_latest_state r = Some st \<longrightarrow> (\<exists>fs. GsiInput st fs \<in> set hist))
     \<and> (rs_round_has_known_start r \<longrightarrow> round_start_in hist (rs_round_start_us r))
     \<and> (\<forall>n. rs_initial_enemy_total r = Some n \<longrightarrow>
          baseline_in hist (rs_config r) (rs_round_start_us r) n (rs_initial_roster_revision r))"

lemma round_start_in_mono: "round_start_in hist t \<Longrightarrow> set hist \<subseteq> set hist' \<Longrightarrow> round_start_in hist' t"
  by (auto simp: round_start_in_def)

lemma baseline_in_mono: "baseline_in hist c t n v \<Longrightarrow> set hist \<subseteq> set hist' \<Longrightarrow> baseline_in hist' c t n v"
  unfolding baseline_in_def by blast

lemma grounded_mono: "grounded hist r \<Longrightarrow> set hist \<subseteq> set hist' \<Longrightarrow> grounded hist' r"
  unfolding grounded_def using round_start_in_mono baseline_in_mono by (meson subset_iff)

lemma grounded_init: "grounded hist (init_resolver config)"
  by (simp add: grounded_def init_resolver_def)

lemma grounded_frame:
  assumes "grounded hist r" "rs_latest_supplement r' = rs_latest_supplement r"
    "rs_latest_state r' = rs_latest_state r" "rs_round_has_known_start r' = rs_round_has_known_start r"
    "rs_round_start_us r' = rs_round_start_us r" "rs_initial_enemy_total r' = rs_initial_enemy_total r"
    "rs_initial_roster_revision r' = rs_initial_roster_revision r" "rs_config r' = rs_config r"
  shows "grounded hist r'"
  using assms by (simp add: grounded_def)

lemma grounded_observed: "grounded hist r \<Longrightarrow> grounded hist (observe_roster (update_context r sn) sn)"
  by (erule grounded_frame) (simp_all add: resolver_simps)

lemma grounded_clutch: "grounded hist r \<Longrightarrow> grounded hist (snd (evaluate_clutch r t))"
  by (erule grounded_frame) (simp_all add: same_but_clutch_fields [OF evaluate_clutch_frame])

lemma grounded_ace: "grounded hist r \<Longrightarrow> grounded hist (snd (evaluate_ace r t))"
  by (rule evaluate_ace_cases [of r t]) (auto elim: grounded_frame)

lemma grounded_fuse: "grounded hist r \<Longrightarrow> grounded hist (snd (fuse_supplement r sn t))"
  by (simp add: fuse_supplement_def Let_def case_prod_beta grounded_ace grounded_clutch grounded_observed)

lemma grounded_fuse_current: "grounded hist r \<Longrightarrow> grounded hist (snd (fuse_current_supplement r st))"
  by (simp add: fuse_current_supplement_def grounded_fuse) (auto elim: grounded_frame)

lemma grounded_close: "grounded hist r \<Longrightarrow> grounded hist (snd (close_round r st fs))"
  by (erule grounded_frame)
    (simp_all add: close_round_def case_prod_beta same_but_clutch_fields [OF push_end_clutch_frame])

lemma grounded_begin_round:
  assumes "grounded hist r" "GsiInput st fs \<in> set hist" "has_event fs RoundStarted"
  shows "grounded hist (begin_round r st)"
proof -
  have start: "round_start_in hist (gs_relative_us st)"
    using assms(2,3) by (auto simp: round_start_in_def)
  have base: "baseline_in hist (rs_config r) (gs_relative_us st) n (rs_initial_roster_revision (begin_round r st))"
    if "rs_initial_enemy_total (begin_round r st) = Some n" for n
  proof (rule begin_round_cases [of r st])
    fix team sn p m
    assume "rs_latest_supplement r = Some sn" and fresh: "snapshot_fresh_at r sn (gs_relative_us st)"
      and p: "perspective_for_team (sn_teams sn) team = Some p" "pc_enemy_total p = Some m"
      and "rs_initial_enemy_total (begin_round r st) = Some m"
      and "rs_initial_roster_revision (begin_round r st) = sn_roster_revision sn"
      and "cf_require_roster_revision_for_ace (rs_config r) \<longrightarrow> sn_roster_revision sn \<noteq> None"
    moreover have "SupplementInput sn \<in> set hist"
      using assms(1) \<open>rs_latest_supplement r = Some sn\<close> by (simp add: grounded_def)
    moreover have "sn_relative_us sn \<le> gs_relative_us st"
      using fresh by (simp add: snapshot_fresh_at_def split: if_splits)
    ultimately show ?thesis
      using that unfolding baseline_in_def by auto
  qed (use that in simp)
  show ?thesis
    using assms(1) start base by (simp add: grounded_def begin_round_frame)
qed

lemma grounded_prepare:
  assumes "grounded hist r" "GsiInput st fs \<in> set hist"
  shows "grounded hist (prepare_batch r st fs)"
proof -
  let ?r0 = "if has_event fs MatchEntered then reset r else r"
  let ?r2 = "update_lifecycle_context (learn_local_player (?r0\<lparr>rs_latest_state := Some st\<rparr>) st fs) st"
  have "grounded hist ?r0" using assms(1) by (simp add: reset_eq grounded_init)
  then have "grounded hist (?r0\<lparr>rs_latest_state := Some st\<rparr>)"
    using assms(2) by (auto simp: grounded_def)
  then have "grounded hist ?r2"
    by (rule grounded_frame) (simp_all add: resolver_simps update_lifecycle_context_def)
  then show ?thesis
    using grounded_begin_round [OF _ assms(2), of ?r2] by (simp add: prepare_batch_def Let_def)
qed

lemma grounded_step:
  assumes "grounded hist r" "x \<in> set hist"
  shows "grounded hist (snd (resolver_step r x))"
proof (cases x)
  case (GsiInput st fs)
  with assms show ?thesis
    by (simp add: process_gsi_def case_prod_beta reset_eq grounded_init grounded_close
        grounded_fuse_current grounded_prepare)
next
  case (SupplementInput sn)
  with assms have "grounded hist (r\<lparr>rs_latest_supplement := Some sn, rs_last_supplement_us := Some (sn_relative_us sn)\<rparr>)"
    by (simp add: grounded_def)
  with assms show ?thesis
    by (simp add: SupplementInput process_supplementary_def Let_def grounded_fuse)
qed

lemma grounded_run: "grounded xs (snd (run resolver_step (init_resolver config) xs))"
proof (induction xs rule: rev_induct)
  case (snoc x xs)
  then have "grounded (xs @ [x]) (snd (run resolver_step (init_resolver config) xs))"
    by (rule grounded_mono) auto
  then have "grounded (xs @ [x]) (snd (resolver_step (snd (run resolver_step (init_resolver config) xs)) x))"
    by (rule grounded_step) simp
  then show ?case by (simp add: run_snoc Let_def case_prod_beta)
qed (simp add: grounded_init)

subsection \<open>The evidence of an ACE\<close>

definition ace_evidence :: "resolver_input list \<Rightarrow> resolver_config \<Rightarrow> i32 \<Rightarrow> bool" where
  "ace_evidence hist config n \<longleftrightarrow>
     (\<exists>start_us base team0 p0 now team p st fs.
        round_start_in hist start_us
        \<and> SupplementInput base \<in> set hist \<and> sn_relative_us base \<le> start_us
        \<and> perspective_for_team (sn_teams base) team0 = Some p0 \<and> pc_enemy_total p0 = Some n
        \<and> SupplementInput now \<in> set hist \<and> start_us \<le> sn_relative_us now
        \<and> perspective_for_team (sn_teams now) team = Some p
        \<and> pc_enemy_alive p = Some 0 \<and> pc_enemy_total p = Some n
        \<and> GsiInput st fs \<in> set hist \<and> gs_round_kills st = Some n
        \<and> gs_map_mode st \<in> Some ` {''competitive'', ''casual'', ''retakes''}
        \<and> (cf_require_roster_revision_for_ace config \<longrightarrow>
             sn_roster_revision base \<noteq> None \<and> sn_roster_revision now = sn_roster_revision base))"

lemma ace_confirmed_unfold:
  "ace_confirmed r st sn team n \<longleftrightarrow>
     supported_round_mode_for_ace (gs_map_mode st) \<and> rs_round_start_us r \<le> sn_relative_us sn
     \<and> \<not> rs_roster_changed_this_round r
     \<and> (cf_require_roster_revision_for_ace (rs_config r) \<longrightarrow> rs_initial_roster_revision r \<noteq> None)
     \<and> gs_round_kills st = Some n
     \<and> (\<exists>p. perspective_for_team (sn_teams sn) team = Some p
          \<and> pc_enemy_alive p = Some 0 \<and> pc_enemy_total p = Some n)
     \<and> (rs_initial_roster_revision r = None
        \<or> sn_roster_revision sn = rs_initial_roster_revision r)"
  by (cases "perspective_for_team (sn_teams sn) team"; cases "rs_initial_roster_revision r")
    (auto simp: ace_confirmed_def split: option.splits)

lemma evaluate_ace_evidence:
  assumes "grounded hist r" "e \<in> set (fst (evaluate_ace r t))"
  shows "\<exists>n. ev_value e = Some n \<and> ace_evidence hist (rs_config r) n"
proof (rule evaluate_ace_cases [of r t])
  fix st sn team n
  assume ev: "evaluate_ace r t =
       ([(make_semantic_event r Ace t)\<lparr>ev_value := Some n\<rparr>], r\<lparr>rs_ace_emitted_this_round := True\<rparr>)"
    and known: "rs_round_has_known_start r" and st: "rs_latest_state r = Some st"
    and sn: "rs_latest_supplement r = Some sn" and n: "rs_initial_enemy_total r = Some n"
    and kills: "gs_round_kills st = Some n" and conf: "ace_confirmed r st sn team n"
  have start: "round_start_in hist (rs_round_start_us r)"
    and snap: "SupplementInput sn \<in> set hist"
    using assms(1) known sn by (auto simp: grounded_def)
  obtain fs where fs: "GsiInput st fs \<in> set hist"
    using assms(1) st by (auto simp: grounded_def)
  have "baseline_in hist (rs_config r) (rs_round_start_us r) n (rs_initial_roster_revision r)"
    using assms(1) n by (auto simp: grounded_def)
  then obtain base team0 p0 where base: "SupplementInput base \<in> set hist"
    "sn_relative_us base \<le> rs_round_start_us r" "perspective_for_team (sn_teams base) team0 = Some p0"
    "pc_enemy_total p0 = Some n" "sn_roster_revision base = rs_initial_roster_revision r"
    by (auto simp: baseline_in_def)
  have mode: "gs_map_mode st \<in> Some ` {''competitive'', ''casual'', ''retakes''}"
    using conf by (auto simp: ace_confirmed_unfold supported_round_mode_for_ace_def opt_holds_iff)
  obtain p where p: "perspective_for_team (sn_teams sn) team = Some p"
    "pc_enemy_alive p = Some 0" "pc_enemy_total p = Some n"
    using conf by (auto simp: ace_confirmed_unfold)
  have rev: "cf_require_roster_revision_for_ace (rs_config r) \<longrightarrow>
      sn_roster_revision base \<noteq> None \<and> sn_roster_revision sn = sn_roster_revision base"
    using conf base(5) by (auto simp: ace_confirmed_unfold)
  have late: "rs_round_start_us r \<le> sn_relative_us sn"
    using conf by (simp add: ace_confirmed_unfold)
  have "ace_evidence hist (rs_config r) n"
    unfolding ace_evidence_def
    using start base(1-4) snap late p fs kills mode rev by blast
  moreover have "ev_value e = Some n" using assms(2) ev by simp
  ultimately show ?thesis by blast
qed (use assms(2) in simp)

lemma fuse_ace_evidence:
  assumes "grounded hist r" "e \<in> set (fst (fuse_supplement r sn t))" "ev_type e = Ace"
  shows "\<exists>n. ev_value e = Some n \<and> ace_evidence hist (rs_config r) n"
proof -
  let ?r1 = "snd (evaluate_clutch (observe_roster (update_context r sn) sn) t)"
  have "grounded hist ?r1" by (simp add: assms(1) grounded_clutch grounded_observed)
  moreover have "e \<in> set (fst (evaluate_ace ?r1 t))"
    using assms(2,3) evaluate_clutch_types [of e "observe_roster (update_context r sn) sn" t]
    by (auto simp: fuse_supplement_def Let_def case_prod_beta)
  moreover have "rs_config ?r1 = rs_config r"
    by (simp add: same_but_clutch_fields [OF evaluate_clutch_frame] resolver_simps)
  ultimately show ?thesis using evaluate_ace_evidence by metis
qed

lemma prepare_batch_config: "rs_config (prepare_batch r st fs) = rs_config r"
  by (simp add: prepare_batch_def Let_def resolver_simps update_lifecycle_context_def reset_eq
      init_resolver_def)

lemma step_ace_evidence:
  assumes "grounded hist r" "x \<in> set hist" "factual_input x"
    and "e \<in> set (fst (resolver_step r x))" "ev_type e = Ace"
  shows "\<exists>n. ev_value e = Some n \<and> ace_evidence hist (rs_config r) n"
proof (cases x)
  case (GsiInput st fs)
  let ?r1 = "prepare_batch r st fs"
  have "grounded hist ?r1" using assms(1,2) GsiInput by (simp add: grounded_prepare)
  moreover have "e \<notin> set fs" using assms(3,5) GsiInput by (auto simp: factual_batch_def)
  then have "e \<in> set (fst (fuse_current_supplement ?r1 st))"
    using assms(4,5) GsiInput
    by (auto simp: process_gsi_def case_prod_beta close_round_def dest: push_end_clutch_events
        split: if_splits)
  then have "e \<in> set (fst (fuse_supplement ?r1 (the (rs_latest_supplement ?r1)) (gs_relative_us st)))"
    by (simp add: fuse_current_supplement_def split: if_splits)
  ultimately show ?thesis
    using fuse_ace_evidence [OF _ _ assms(5), of hist ?r1] by (simp add: prepare_batch_config)
next
  case (SupplementInput sn)
  let ?r1 = "r\<lparr>rs_latest_supplement := Some sn, rs_last_supplement_us := Some (sn_relative_us sn)\<rparr>"
  have "grounded hist ?r1" using assms(1,2) SupplementInput by (simp add: grounded_def)
  moreover have "e \<in> set (fst (fuse_supplement ?r1 sn (sn_relative_us sn)))"
    using assms(4) SupplementInput
    by (simp add: process_supplementary_def Let_def split: if_splits)
  ultimately show ?thesis
    using fuse_ace_evidence [OF _ _ assms(5), of hist ?r1] by simp
qed

lemma fuse_supplement_config: "rs_config (snd (fuse_supplement r sn t)) = rs_config r"
proof -
  have "rs_config (snd (evaluate_ace r' t')) = rs_config r'" for r' t'
    by (rule evaluate_ace_cases [of r' t']) auto
  then show ?thesis
    by (simp add: fuse_supplement_def Let_def case_prod_beta
        same_but_clutch_fields [OF evaluate_clutch_frame] resolver_simps)
qed

lemma resolver_step_config: "rs_config (snd (resolver_step r x)) = rs_config r"
  by (cases x)
    (simp_all add: process_gsi_def process_supplementary_def fuse_current_supplement_def close_round_def
      Let_def case_prod_beta fuse_supplement_config prepare_batch_config reset_eq init_resolver_def
      same_but_clutch_fields [OF push_end_clutch_frame])

lemma run_config: "rs_config (snd (run resolver_step r xs)) = rs_config r"
  by (induction xs arbitrary: r) (simp_all add: Let_def case_prod_beta resolver_step_config)

lemma ace_evidence_mono: "ace_evidence hist c n \<Longrightarrow> set hist \<subseteq> set hist' \<Longrightarrow> ace_evidence hist' c n"
  unfolding ace_evidence_def using round_start_in_mono by (meson subset_iff)

lemma run_ace_evidence:
  assumes "list_all factual_input xs" "e \<in> set (fst (run resolver_step (init_resolver config) xs))"
    "ev_type e = Ace"
  shows "\<exists>n. ev_value e = Some n \<and> ace_evidence xs config n"
  using assms
proof (induction xs rule: rev_induct)
  case (snoc x xs)
  let ?r = "snd (run resolver_step (init_resolver config) xs)"
  from snoc.prems(2) consider "e \<in> set (fst (run resolver_step (init_resolver config) xs))"
    | "e \<in> set (fst (resolver_step ?r x))"
    by (auto simp: run_snoc Let_def case_prod_beta)
  then show ?case
  proof cases
    case 1
    with snoc obtain n where "ev_value e = Some n" "ace_evidence xs config n" by auto
    then show ?thesis using ace_evidence_mono [of xs config n "xs @ [x]"] by auto
  next
    case 2
    have "grounded (xs @ [x]) ?r" using grounded_run by (rule grounded_mono) auto
    from step_ace_evidence [OF this _ _ 2 snoc.prems(3)] show ?thesis
      using snoc.prems(1) by (simp add: run_config init_resolver_def)
  qed
qed simp

subsection \<open>What supplementary snapshots may change\<close>

definition late_or_invalid :: "resolver \<Rightarrow> snapshot \<Rightarrow> bool" where
  "late_or_invalid r sn \<longleftrightarrow>
     \<not> valid_team_counts (sn_teams sn)
     \<or> opt_holds (\<lambda>last. sn_relative_us sn < sn_relative_us last) (rs_latest_supplement r)
     \<or> opt_holds (\<lambda>st. sn_relative_us sn < gs_relative_us st) (rs_latest_state r)"

lemma opt_holds_map: "opt_holds P (map_option f x) = opt_holds (P \<circ> f) x"
  by (cases x) auto

lemma process_supplementary_cases:
  assumes "supplement_inv r"
  shows "process_supplementary r sn =
     (if late_or_invalid r sn then ([], r)
      else if rs_latest_state r = None then
        ([], r\<lparr>rs_latest_supplement := Some sn, rs_last_supplement_us := Some (sn_relative_us sn)\<rparr>)
      else fuse_supplement
        (r\<lparr>rs_latest_supplement := Some sn, rs_last_supplement_us := Some (sn_relative_us sn)\<rparr>)
        sn (sn_relative_us sn))"
  using assms
  by (simp add: process_supplementary_def late_or_invalid_def Let_def supplement_inv_def opt_holds_map
      comp_def)

lemma gsi_only_silent:
  assumes "rs_latest_supplement r = None" "\<not> rs_clutch_active r"
  shows "fst (process_gsi r st fs) = []
     \<and> rs_latest_supplement (snd (process_gsi r st fs)) = None
     \<and> \<not> rs_clutch_active (snd (process_gsi r st fs))"
proof -
  let ?r1 = "prepare_batch r st fs"
  have p: "rs_latest_supplement ?r1 = None" "\<not> rs_clutch_active ?r1"
    using assms
    by (simp_all add: prepare_batch_def Let_def resolver_simps update_lifecycle_context_def reset_eq
        init_resolver_def)
  have "fuse_current_supplement ?r1 st = ([], ?r1\<lparr>rs_context := clear_counts (rs_context ?r1)\<rparr>)"
    by (simp add: fuse_current_supplement_def has_current_round_supplement_def p)
  with p show ?thesis
    by (simp add: process_gsi_def case_prod_beta close_round_def push_end_clutch_def end_clutch_def
        reset_eq init_resolver_def)
qed

lemma run_gsi_only_silent:
  assumes "\<forall>x\<in>set xs. \<exists>st fs. x = GsiInput st fs"
    and "rs_latest_supplement r = None" "\<not> rs_clutch_active r"
  shows "fst (run resolver_step r xs) = concat (map (\<lambda>x. case x of GsiInput st fs \<Rightarrow> fs | _ \<Rightarrow> []) xs)"
  using assms
proof (induction xs arbitrary: r)
  case (Cons x xs)
  then obtain st fs where x: "x = GsiInput st fs" by auto
  note silent = gsi_only_silent [OF Cons.prems(2,3), of st fs]
  have "fst (run resolver_step (snd (process_gsi r st fs)) xs)
      = concat (map (\<lambda>x. case x of GsiInput st fs \<Rightarrow> fs | _ \<Rightarrow> []) xs)"
    using Cons.IH [of "snd (process_gsi r st fs)"] Cons.prems(1) silent by simp
  then show ?case
    using silent by (simp add: x Let_def case_prod_beta)
qed simp

subsection \<open>The source label\<close>

text \<open>
  A replayed snapshot carries the source \<open>Replay\<close>. Two resolvers that differ in such labels
  only answer every input with the same events.
\<close>

definition with_source :: "source_kind \<Rightarrow> snapshot \<Rightarrow> snapshot" where
  "with_source k sn = sn\<lparr>sn_source := k\<rparr>"

definition relabel :: "source_kind \<Rightarrow> resolver \<Rightarrow> resolver" where
  "relabel k r = r\<lparr>
     rs_latest_supplement := map_option (with_source k) (rs_latest_supplement r),
     rs_context := (rs_context r)\<lparr>cx_supplement_source := k\<rparr>\<rparr>"

lemma relabel_frame [resolver_simps]:
  "rs_config (relabel k r) = rs_config r"
  "rs_latest_state (relabel k r) = rs_latest_state r"
  "rs_local_team (relabel k r) = rs_local_team r"
  "rs_local_player_alive (relabel k r) = rs_local_player_alive r"
  "rs_local_player_acquired (relabel k r) = rs_local_player_acquired r"
  "rs_round_has_known_start (relabel k r) = rs_round_has_known_start r"
  "rs_round_ended (relabel k r) = rs_round_ended r"
  "rs_round_start_us (relabel k r) = rs_round_start_us r"
  "rs_initial_enemy_total (relabel k r) = rs_initial_enemy_total r"
  "rs_initial_roster_revision (relabel k r) = rs_initial_roster_revision r"
  "rs_roster_changed_this_round (relabel k r) = rs_roster_changed_this_round r"
  "rs_ace_emitted_this_round (relabel k r) = rs_ace_emitted_this_round r"
  "rs_clutch_active (relabel k r) = rs_clutch_active r"
  "rs_last_clutch_enemy_alive (relabel k r) = rs_last_clutch_enemy_alive r"
  "rs_last_supplement_us (relabel k r) = rs_last_supplement_us r"
  "rs_latest_supplement (relabel k r) = map_option (with_source k) (rs_latest_supplement r)"
  by (simp_all add: relabel_def)

lemma with_source_simps [simp]:
  "sn_relative_us (with_source k sn) = sn_relative_us sn"
  "sn_teams (with_source k sn) = sn_teams sn"
  "sn_roster_revision (with_source k sn) = sn_roster_revision sn"
  "sn_source (with_source k sn) = k"
  by (simp_all add: with_source_def)

lemma relabel_idem [simp]: "relabel k (relabel k r) = relabel k r"
  by (cases "rs_latest_supplement r") (simp_all add: relabel_def with_source_def)

lemma relabel_learn: "learn_local_player (relabel k r) st fs = relabel k (learn_local_player r st fs)"
  by (cases "gs_player_team st"; cases "gs_health st")
    (simp_all add: learn_local_player_def relabel_def Let_def)

lemma relabel_latest_state: "(relabel k r)\<lparr>rs_latest_state := x\<rparr> = relabel k (r\<lparr>rs_latest_state := x\<rparr>)"
  by (simp add: relabel_def)

lemma relabel_lifecycle: "update_lifecycle_context (relabel k r) st = relabel k (update_lifecycle_context r st)"
  by (simp add: update_lifecycle_context_def relabel_def)

lemma relabel_clear:
  "(relabel k r)\<lparr>rs_context := clear_counts (rs_context (relabel k r))\<rparr> =
   relabel k (r\<lparr>rs_context := clear_counts (rs_context r)\<rparr>)"
  by (simp add: clear_counts_def relabel_def)

lemma relabel_fresh: "snapshot_fresh_at (relabel k r) (with_source k sn) t = snapshot_fresh_at r sn t"
  by (simp add: snapshot_fresh_at_def relabel_frame split: option.splits)

lemma relabel_baseline:
  "establish_round_baseline (relabel k r) (with_source k sn) = relabel k (establish_round_baseline r sn)"
  by (auto simp: establish_round_baseline_def relabel_frame split: option.splits)
    (auto simp: relabel_def)

lemma relabel_update_context: "update_context (relabel k r) (with_source k sn) = relabel k (update_context r sn)"
  by (simp add: update_context_def Let_def relabel_frame clear_counts_def split: option.splits)
    (simp add: relabel_def)

lemma relabel_observe: "observe_roster (relabel k r) (with_source k sn) = relabel k (observe_roster r sn)"
  by (simp add: observe_roster_def Let_def relabel_frame split: option.splits)
    (simp add: relabel_def)

lemma relabel_semantic_event: "make_semantic_event (relabel k r) ty t = make_semantic_event r ty t"
  by (simp add: make_semantic_event_def relabel_frame)

lemma relabel_push_end:
  "push_end_clutch (relabel k r) t = map_prod id (relabel k) (push_end_clutch r t)"
  by (simp add: push_end_clutch_def end_clutch_def relabel_frame relabel_semantic_event)
    (simp add: relabel_def)

lemma relabel_advance:
  "advance_clutch (relabel k r) t n = map_prod id (relabel k) (advance_clutch r t n)"
  by (simp add: advance_clutch_def Let_def relabel_frame relabel_semantic_event)
    (simp add: relabel_def)

lemma relabel_clutch: "evaluate_clutch (relabel k r) t = map_prod id (relabel k) (evaluate_clutch r t)"
  by (simp add: evaluate_clutch_def clutch_now_def relabel_frame relabel_push_end relabel_advance
      split: option.splits)

lemma relabel_confirmed:
  "ace_confirmed (relabel k r) st (with_source k sn) team n = ace_confirmed r st sn team n"
  by (simp add: ace_confirmed_unfold relabel_frame)

lemma relabel_ace: "evaluate_ace (relabel k r) t = map_prod id (relabel k) (evaluate_ace r t)"
  by (cases "rs_latest_state r"; cases "rs_latest_supplement r"; cases "rs_local_team r";
      cases "rs_initial_enemy_total r")
    (simp_all add: evaluate_ace_def relabel_confirmed relabel_frame relabel_semantic_event,
      simp add: relabel_def)

lemma relabel_fuse:
  "fuse_supplement (relabel k r) (with_source k sn) t = map_prod id (relabel k) (fuse_supplement r sn t)"
  by (simp add: fuse_supplement_def Let_def case_prod_beta relabel_update_context relabel_observe
      relabel_clutch relabel_ace)

lemma relabel_fuse_current:
  "fuse_current_supplement (relabel k r) st = map_prod id (relabel k) (fuse_current_supplement r st)"
  by (cases "rs_latest_supplement r")
    (auto simp: fuse_current_supplement_def has_current_round_supplement_def relabel_frame
      relabel_fresh relabel_clear relabel_fuse)

lemma relabel_close: "close_round (relabel k r) st fs = map_prod id (relabel k) (close_round r st fs)"
  by (simp add: close_round_def case_prod_beta relabel_push_end) (simp add: relabel_def)

lemma relabel_begin_round: "begin_round (relabel k r) st = relabel k (begin_round r st)"
proof -
  have upd: "(relabel k r)\<lparr>rs_round_has_known_start := True, rs_round_ended := False,
      rs_round_start_us := t, rs_initial_enemy_total := None, rs_initial_roster_revision := None,
      rs_roster_changed_this_round := False, rs_ace_emitted_this_round := False,
      rs_clutch_active := False, rs_last_clutch_enemy_alive := None,
      rs_context := (rs_context (relabel k r))\<lparr>cx_roster_changed_this_round := False,
        cx_clutch_active := False, cx_clutch_opponents := None\<rparr>\<rparr> =
    relabel k (r\<lparr>rs_round_has_known_start := True, rs_round_ended := False,
      rs_round_start_us := t, rs_initial_enemy_total := None, rs_initial_roster_revision := None,
      rs_roster_changed_this_round := False, rs_ace_emitted_this_round := False,
      rs_clutch_active := False, rs_last_clutch_enemy_alive := None,
      rs_context := (rs_context r)\<lparr>cx_roster_changed_this_round := False,
        cx_clutch_active := False, cx_clutch_opponents := None\<rparr>\<rparr>)" for t
    by (simp add: relabel_def)
  show ?thesis
    unfolding begin_round_def Let_def upd
    by (cases "rs_latest_supplement r")
      (simp_all add: relabel_frame relabel_fresh relabel_baseline relabel_clear)
qed

lemma relabel_prepare:
  "prepare_batch (relabel k r) st fs =
     (if has_event fs MatchEntered then prepare_batch r st fs else relabel k (prepare_batch r st fs))"
  by (simp add: prepare_batch_def Let_def relabel_latest_state relabel_learn relabel_lifecycle
      relabel_begin_round reset_eq relabel_frame)

lemma relabel_process_gsi:
  "fst (process_gsi (relabel k r) st fs) = fst (process_gsi r st fs)
   \<and> relabel k (snd (process_gsi (relabel k r) st fs)) = relabel k (snd (process_gsi r st fs))"
  by (cases "has_event fs MatchEntered")
    (simp_all add: process_gsi_def case_prod_beta relabel_prepare relabel_fuse_current relabel_close
      reset_eq relabel_frame)

lemma relabel_process_supplementary:
  "process_supplementary (relabel k r) (with_source k sn) =
     map_prod id (relabel k) (process_supplementary r sn)"
proof -
  have "(relabel k r)\<lparr>rs_latest_supplement := Some (with_source k sn), rs_last_supplement_us := u\<rparr> =
    relabel k (r\<lparr>rs_latest_supplement := Some sn, rs_last_supplement_us := u\<rparr>)" for u
    by (simp add: relabel_def)
  then show ?thesis
    by (simp add: process_supplementary_def Let_def relabel_frame relabel_fuse)
qed

text \<open>The label of one input.\<close>

fun relabel_input :: "source_kind \<Rightarrow> resolver_input \<Rightarrow> resolver_input" where
  "relabel_input k (GsiInput st fs) = GsiInput st fs"
| "relabel_input k (SupplementInput sn) = SupplementInput (with_source k sn)"

lemma relabel_step:
  "fst (resolver_step (relabel k r) (relabel_input k x)) = fst (resolver_step r x)
   \<and> relabel k (snd (resolver_step (relabel k r) (relabel_input k x))) = relabel k (snd (resolver_step r x))"
  using relabel_process_gsi [of k r]
  by (cases x) (simp_all add: case_prod_beta relabel_process_supplementary)

lemma relabel_step_alike:
  assumes "relabel k r1 = relabel k r2"
  shows "fst (resolver_step r1 (relabel_input k x)) = fst (resolver_step r2 x)
   \<and> relabel k (snd (resolver_step r1 (relabel_input k x))) = relabel k (snd (resolver_step r2 x))"
proof -
  have idem: "relabel_input k (relabel_input k x) = relabel_input k x"
    by (cases x) (simp_all add: with_source_def)
  show ?thesis
    using relabel_step [of k r1 "relabel_input k x"] relabel_step [of k r2 x] assms idem by simp
qed

end
