(* ===== verification/Live_Pipeline.thy ===== *)
theory Live_Pipeline
  imports Game_State Detector_Facts Resolver_Evidence Fifo_Worker
begin

text \<open>
  Class \<open>LiveEventPipeline\<close> of \<open>include/cspromator/live_event_pipeline.hpp\<close> and
  \<open>src/live_event_pipeline.cpp\<close>. The first part is the body of \<open>worker_loop\<close> for one item:
  normalize, detect, resolve, hand the batch to the handler. The second part is the object
  that two threads share: the queue with its flags, the worker's turns and the operations of
  the clients, as a step relation. The handler is a caller's \<open>std::function\<close>: here a parameter
  that says whether a call throws.
\<close>

subsection \<open>One item\<close>

record pending_payload =
  pp_sequence :: u64
  pp_relative_us :: u64
  pp_body :: string

datatype pending_item = PendingGsi pending_payload | PendingSupplementary snapshot

type_synonym batch = "game_state \<times> event list"

record processor =
  pr_detector :: detector
  pr_resolver :: resolver
  pr_latest_state :: "game_state option"

definition init_processor :: processor where
  "init_processor = \<lparr>pr_detector = init_detector, pr_resolver = init_resolver default_config,
     pr_latest_state = None\<rparr>"

definition process_item :: "processor \<Rightarrow> pending_item \<Rightarrow> batch list \<times> processor" where
  "process_item pr item =
     (case item of
        PendingSupplementary sn \<Rightarrow>
          (let (semantic, resolver) = process_supplementary (pr_resolver pr) sn;
               pr' = pr\<lparr>pr_resolver := resolver\<rparr>
           in (if semantic \<noteq> [] \<and> pr_latest_state pr' \<noteq> None
               then [(the (pr_latest_state pr'), semantic)] else [], pr'))
      | PendingGsi payload \<Rightarrow>
          (let st = normalize_gsi (pp_body payload) (pp_sequence payload) (pp_relative_us payload)
           in if \<not> gs_payload_valid st then ([], pr)
              else
                (let (factual, detector) = process (pr_detector pr) st;
                     (semantic, resolver) = process_gsi (pr_resolver pr) st factual;
                     events = factual @ semantic
                 in (if events \<noteq> [] then [(st, events)] else [],
                     \<lparr>pr_detector = detector, pr_resolver = resolver, pr_latest_state = Some st\<rparr>))))"

definition batch_events :: "batch list \<Rightarrow> event list" where
  "batch_events batches = concat (map snd batches)"

lemma batch_events_simps [simp]:
  "batch_events [] = []"
  "batch_events ((st, es) # bs) = es @ batch_events bs"
  "batch_events (bs @ cs) = batch_events bs @ batch_events cs"
  by (simp_all add: batch_events_def)

subsection \<open>The resolver inside the pipeline\<close>

text \<open>The inputs the resolver gets from one item, and from a sequence of items.\<close>

definition item_inputs :: "detector \<Rightarrow> pending_item \<Rightarrow> resolver_input list" where
  "item_inputs d item =
     (case item of
        PendingSupplementary sn \<Rightarrow> [SupplementInput sn]
      | PendingGsi payload \<Rightarrow>
          (let st = normalize_gsi (pp_body payload) (pp_sequence payload) (pp_relative_us payload)
           in if gs_payload_valid st then [GsiInput st (fst (process d st))] else []))"

definition item_detector :: "detector \<Rightarrow> pending_item \<Rightarrow> detector" where
  "item_detector d item =
     (case item of
        PendingSupplementary sn \<Rightarrow> d
      | PendingGsi payload \<Rightarrow>
          snd (process d (normalize_gsi (pp_body payload) (pp_sequence payload) (pp_relative_us payload))))"

fun resolver_inputs :: "detector \<Rightarrow> pending_item list \<Rightarrow> resolver_input list" where
  "resolver_inputs d [] = []"
| "resolver_inputs d (item # items) = item_inputs d item @ resolver_inputs (item_detector d item) items"

text \<open>
  The pipeline keeps its own copy of the latest state; it has one whenever the resolver has
  one, so no batch of semantic events is lost.
\<close>

definition processor_inv :: "processor \<Rightarrow> bool" where
  "processor_inv pr \<longleftrightarrow> (rs_latest_state (pr_resolver pr) \<noteq> None \<longrightarrow> pr_latest_state pr \<noteq> None)"

lemma processor_inv_init: "processor_inv init_processor"
  by (simp add: processor_inv_def init_processor_def init_resolver_def)

lemma process_supplementary_keeps_state:
  "rs_latest_state (snd (process_supplementary r sn)) = rs_latest_state r"
proof -
  have "rs_latest_state (snd (evaluate_ace r' t')) = rs_latest_state r'" for r' t'
    by (rule evaluate_ace_cases [of r' t']) auto
  then show ?thesis
    by (simp add: process_supplementary_def fuse_supplement_def Let_def case_prod_beta
        same_but_clutch_fields [OF evaluate_clutch_frame] resolver_simps)
qed

lemma process_supplementary_needs_state:
  "rs_latest_state r = None \<Longrightarrow> fst (process_supplementary r sn) = []"
  by (simp add: process_supplementary_def Let_def)

lemma process_item_inv: "processor_inv pr \<Longrightarrow> processor_inv (snd (process_item pr item))"
  by (cases item)
    (simp_all add: process_item_def processor_inv_def Let_def case_prod_beta
      process_supplementary_keeps_state)

lemma process_item_events:
  assumes "processor_inv pr"
  shows "batch_events (fst (process_item pr item)) =
      fst (run resolver_step (pr_resolver pr) (item_inputs (pr_detector pr) item))
    \<and> pr_resolver (snd (process_item pr item)) =
      snd (run resolver_step (pr_resolver pr) (item_inputs (pr_detector pr) item))
    \<and> pr_detector (snd (process_item pr item)) = item_detector (pr_detector pr) item"
proof (cases item)
  case (PendingGsi payload)
  then show ?thesis
    by (simp add: process_item_def item_inputs_def item_detector_def Let_def case_prod_beta)
      (simp add: process_def)
next
  case (PendingSupplementary sn)
  then show ?thesis
    using assms process_supplementary_needs_state [of "pr_resolver pr" sn]
    by (auto simp: process_item_def item_inputs_def item_detector_def Let_def case_prod_beta
        processor_inv_def)
qed

lemma run_items_events:
  "processor_inv pr \<Longrightarrow>
   batch_events (fst (run process_item pr items)) =
     fst (run resolver_step (pr_resolver pr) (resolver_inputs (pr_detector pr) items))"
proof (induction items arbitrary: pr)
  case (Cons item items)
  let ?pr = "snd (process_item pr item)"
  have "batch_events (fst (run process_item ?pr items)) =
      fst (run resolver_step (pr_resolver ?pr) (resolver_inputs (pr_detector ?pr) items))"
    using Cons process_item_inv by blast
  then show ?case
    using process_item_events [OF Cons.prems, of item]
    by (simp add: Let_def case_prod_beta run_append)
qed simp

subsection \<open>Batches of the detector are factual\<close>

lemma in_set_tl_emit: "x \<in> set (tl (emit_if b e @ xs)) \<Longrightarrow> x \<in> set xs"
  by (cases b; cases xs) simp_all

lemma process_entered_first:
  assumes "e \<in> set (tl (fst (process d cur)))"
  shows "ev_type e \<noteq> MatchEntered"
proof (cases "gs_payload_valid cur")
  case True
  show ?thesis
  proof (cases "det_previous d")
    case None
    with assms True show ?thesis
      by (cases "gs_map_name cur") (auto simp: process_def process_first_def Let_def emit_if_def)
  next
    case (Some prev)
    show ?thesis
    proof (cases "gs_map_name prev \<noteq> None \<and> gs_map_name cur = None")
      case True
      with assms Some \<open>gs_payload_valid cur\<close> show ?thesis
        by (simp add: process_def process_next_leave)
    next
      case False
      let ?d3 = "after_observation (after_enter d prev cur) cur"
      let ?d4 = "snd (round_end_block prev cur ?d3)"
      let ?d5 = "snd (outcome_block prev cur ?d4)"
      let ?rest = "observation_events (after_enter d prev cur) cur @ local_events prev cur
         @ bomb_events prev cur @ fst (round_end_block prev cur ?d3) @ fst (outcome_block prev cur ?d4)
         @ phase_events prev cur @ team_events cur ?d5
         @ emit_if (game_over_started prev cur) (make_event GameOver cur)"
      have eq: "fst (process d cur) = emit_if (gs_map_name prev = None \<and> gs_map_name cur \<noteq> None)
          (make_event MatchEntered cur) @ ?rest"
        using Some True by (simp add: process_def process_next_stay [OF False] Let_def)
      have none: "ev_type x \<noteq> MatchEntered" if "x \<in> set ?rest" for x
        using that
        by (auto dest!: observation_events_types local_events_types bomb_events_types
            round_end_block_types outcome_block_types phase_events_types team_events_types
            simp: local_player_event_def)
      have "e \<in> set ?rest"
        using assms unfolding eq by (rule in_set_tl_emit)
      then show ?thesis by (rule none)
    qed
  qed
qed (use assms in \<open>simp add: process_def\<close>)

lemma process_factual_batch: "factual_batch (fst (process d cur))"
  using process_provenance [of _ d cur] process_entered_first [of _ d cur]
  by (auto simp: factual_batch_def factual_provenance_def)

lemma resolver_inputs_factual: "list_all factual_input (resolver_inputs d items)"
  by (induction items arbitrary: d)
    (auto simp: item_inputs_def Let_def process_factual_batch split: pending_item.splits)

subsection \<open>The shared object\<close>

text \<open>
  The worker is waiting at the condition variable, or busy with an item it has taken from the
  queue and released the lock, or has returned. The last three fields are not in the class:
  they record what was accepted, what was completed and which calls of the handler returned
  or threw, and no operation reads them.
\<close>

datatype worker_phase = WorkerWaiting | WorkerBusy pending_item | WorkerDone

datatype pipeline_error = PipelineStopping | WorkerError string

record pipeline =
  pl_queue :: "pending_item list"
  pl_stopping :: bool
  pl_stopped :: bool
  pl_worker_error :: "string option"
  pl_worker :: worker_phase
  pl_processor :: processor
  pl_accepted :: "pending_item list"
  pl_handled :: "pending_item list"
  pl_calls :: "batch list"

definition init_pipeline :: pipeline where
  "init_pipeline = \<lparr>pl_queue = [], pl_stopping = False, pl_stopped = False, pl_worker_error = None,
     pl_worker = WorkerWaiting, pl_processor = init_processor,
     pl_accepted = [], pl_handled = [], pl_calls = []\<rparr>"

text \<open>\<open>enqueue\<close> and \<open>enqueue_supplementary\<close> differ in the item they build only.\<close>

definition push_item :: "pipeline \<Rightarrow> pending_item \<Rightarrow> pipeline_error + pipeline" where
  "push_item p item =
     (if pl_stopping p \<or> pl_stopped p then Inl PipelineStopping
      else (case pl_worker_error p of
              Some what \<Rightarrow> Inl (WorkerError what)
            | None \<Rightarrow> Inr (p\<lparr>pl_queue := pl_queue p @ [item], pl_accepted := pl_accepted p @ [item]\<rparr>)))"

definition enqueue :: "pipeline \<Rightarrow> u64 \<Rightarrow> u64 \<Rightarrow> string \<Rightarrow> pipeline_error + pipeline" where
  "enqueue p sequence relative_us body =
     push_item p (PendingGsi \<lparr>pp_sequence = sequence, pp_relative_us = relative_us, pp_body = body\<rparr>)"

definition enqueue_supplementary :: "pipeline \<Rightarrow> snapshot \<Rightarrow> pipeline_error + pipeline" where
  "enqueue_supplementary p sn = push_item p (PendingSupplementary sn)"

text \<open>
  \<open>stop_and_flush\<close> up to the join, and after it. The first part answers at once when the
  pipeline was stopped before.
\<close>

definition stop_begin :: "pipeline \<Rightarrow> pipeline" where
  "stop_begin p = (if pl_stopped p then p else p\<lparr>pl_stopping := True\<rparr>)"

definition stop_result :: "pipeline \<Rightarrow> pipeline_error + unit" where
  "stop_result p = (case pl_worker_error p of Some what \<Rightarrow> Inl (WorkerError what) | None \<Rightarrow> Inr ())"

definition stop_joined :: "pipeline \<Rightarrow> pipeline" where
  "stop_joined p = p\<lparr>pl_stopped := True\<rparr>"

text \<open>
  One turn of the worker: \<open>None\<close> while it waits at the condition variable. A handler that
  throws ends the loop: the exception is kept and the pipeline stops. The detector and the
  resolver have changed by then.
\<close>

definition worker_turn :: "(batch \<Rightarrow> string option) \<Rightarrow> pipeline \<Rightarrow> pipeline option" where
  "worker_turn throws p =
     (case pl_worker p of
        WorkerDone \<Rightarrow> None
      | WorkerWaiting \<Rightarrow>
          (case pl_queue p of
             [] \<Rightarrow> if pl_stopping p then Some (p\<lparr>pl_worker := WorkerDone\<rparr>) else None
           | item # rest \<Rightarrow> Some (p\<lparr>pl_queue := rest, pl_worker := WorkerBusy item\<rparr>))
      | WorkerBusy item \<Rightarrow>
          (let (calls, pr) = process_item (pl_processor p) item;
               p' = p\<lparr>pl_processor := pr, pl_handled := pl_handled p @ [item],
                      pl_calls := pl_calls p @ calls\<rparr>
           in case List.map_filter throws calls of
                [] \<Rightarrow> Some (p'\<lparr>pl_worker := WorkerWaiting\<rparr>)
              | what # _ \<Rightarrow> Some (p'\<lparr>pl_worker := WorkerDone, pl_worker_error := Some what,
                                      pl_stopping := True\<rparr>)))"

inductive pipeline_step :: "(batch \<Rightarrow> string option) \<Rightarrow> pipeline \<Rightarrow> pipeline \<Rightarrow> bool"
  for throws :: "batch \<Rightarrow> string option" where
  step_enqueue: "enqueue p sequence relative_us body = Inr p' \<Longrightarrow> pipeline_step throws p p'"
| step_enqueue_supplementary: "enqueue_supplementary p sn = Inr p' \<Longrightarrow> pipeline_step throws p p'"
| step_stop: "pipeline_step throws p (stop_begin p)"
| step_joined: "pl_stopping p \<Longrightarrow> pl_worker p = WorkerDone \<Longrightarrow> pipeline_step throws p (stop_joined p)"
| step_worker: "worker_turn throws p = Some p' \<Longrightarrow> pipeline_step throws p p'"

abbreviation pipeline_reachable :: "(batch \<Rightarrow> string option) \<Rightarrow> pipeline \<Rightarrow> bool" where
  "pipeline_reachable throws \<equiv> (pipeline_step throws)\<^sup>*\<^sup>* init_pipeline"

subsection \<open>Nothing is lost or reordered\<close>

definition pl_in_flight :: "pipeline \<Rightarrow> pending_item list" where
  "pl_in_flight p = (case pl_worker p of WorkerBusy item \<Rightarrow> item # pl_queue p | _ \<Rightarrow> pl_queue p)"

lemma push_item_Inr:
  "push_item p item = Inr p' \<longleftrightarrow>
   \<not> pl_stopping p \<and> \<not> pl_stopped p \<and> pl_worker_error p = None
   \<and> p' = p\<lparr>pl_queue := pl_queue p @ [item], pl_accepted := pl_accepted p @ [item]\<rparr>"
  by (auto simp: push_item_def split: option.splits)

lemma pipeline_step_cases:
  assumes "pipeline_step throws p p'"
  obtains (push) item where "push_item p item = Inr p'"
  | (stop) "p' = stop_begin p"
  | (joined) "pl_stopping p" "pl_worker p = WorkerDone" "p' = stop_joined p"
  | (worker) "worker_turn throws p = Some p'"
  using assms by (cases rule: pipeline_step.cases) (auto simp: enqueue_def enqueue_supplementary_def)

lemma worker_turn_cases:
  assumes "worker_turn throws p = Some p'"
  obtains (exit) "pl_worker p = WorkerWaiting" "pl_queue p = []" "pl_stopping p"
      "p' = p\<lparr>pl_worker := WorkerDone\<rparr>"
  | (take) item rest where "pl_worker p = WorkerWaiting" "pl_queue p = item # rest"
      "p' = p\<lparr>pl_queue := rest, pl_worker := WorkerBusy item\<rparr>"
  | (handle) item where "pl_worker p = WorkerBusy item"
      "List.map_filter throws (fst (process_item (pl_processor p) item)) = []"
      "p' = p\<lparr>pl_processor := snd (process_item (pl_processor p) item),
              pl_handled := pl_handled p @ [item],
              pl_calls := pl_calls p @ fst (process_item (pl_processor p) item),
              pl_worker := WorkerWaiting\<rparr>"
  | (fail) item what whats where "pl_worker p = WorkerBusy item"
      "List.map_filter throws (fst (process_item (pl_processor p) item)) = what # whats"
      "p' = p\<lparr>pl_processor := snd (process_item (pl_processor p) item),
              pl_handled := pl_handled p @ [item],
              pl_calls := pl_calls p @ fst (process_item (pl_processor p) item),
              pl_worker := WorkerDone, pl_worker_error := Some what, pl_stopping := True\<rparr>"
  using assms
  by (cases "pl_worker p"; cases "pl_queue p")
    (auto simp: worker_turn_def Let_def case_prod_beta split: list.splits if_splits)

interpretation pipeline_fifo: fifo_worker "pipeline_step throws" init_pipeline pl_accepted pl_handled
  "\<lambda>item. item" pl_in_flight pl_processor pl_calls process_item "\<lambda>_. True" for throws
proof unfold_locales
  fix p p'
  assume "pipeline_step throws p p'"
  then show "\<exists>new. pl_accepted p' = pl_accepted p @ new \<and>
      pl_in_flight p @ new =
        map (\<lambda>item. item) (drop (length (pl_handled p)) (pl_handled p')) @ pl_in_flight p'"
  proof (cases rule: pipeline_step_cases)
    case worker
    then show ?thesis
      by (cases rule: worker_turn_cases) (auto simp: pl_in_flight_def)
  qed (auto simp: push_item_Inr pl_in_flight_def stop_begin_def stop_joined_def split: worker_phase.splits)
next
  fix p p'
  assume "pipeline_step throws p p'"
  then show "pl_handled p' = pl_handled p \<and> pl_processor p' = pl_processor p \<and> pl_calls p' = pl_calls p
      \<or> (\<exists>i. pl_handled p' = pl_handled p @ [i] \<and> pl_processor p' = snd (process_item (pl_processor p) i)
           \<and> pl_calls p' = pl_calls p @ fst (process_item (pl_processor p) i))"
  proof (cases rule: pipeline_step_cases)
    case worker
    then show ?thesis by (cases rule: worker_turn_cases) auto
  qed (auto simp: push_item_Inr stop_begin_def stop_joined_def)
qed (simp_all add: init_pipeline_def pl_in_flight_def)

definition pipeline_inv :: "pipeline \<Rightarrow> bool" where
  "pipeline_inv p \<longleftrightarrow>
     (pl_worker_error p \<noteq> None \<longrightarrow> pl_stopping p \<and> pl_worker p = WorkerDone)
     \<and> (pl_stopped p \<longrightarrow> pl_stopping p \<and> pl_worker p = WorkerDone)
     \<and> (pl_worker p = WorkerDone \<longrightarrow> pl_stopping p \<and> (pl_worker_error p = None \<longrightarrow> pl_queue p = []))"

lemma pipeline_inv_step:
  assumes "pipeline_step throws p p'" "pipeline_inv p"
  shows "pipeline_inv p'"
  using assms(1)
proof (cases rule: pipeline_step_cases)
  case worker
  then show ?thesis
    using assms(2) by (cases rule: worker_turn_cases) (auto simp: pipeline_inv_def)
qed (use assms(2) in \<open>auto simp: push_item_Inr stop_begin_def stop_joined_def pipeline_inv_def\<close>)

lemma pipeline_inv_reachable: "pipeline_reachable throws p \<Longrightarrow> pipeline_inv p"
  by (induction rule: rtranclp_induct)
    (auto simp: pipeline_inv_step, simp add: init_pipeline_def pipeline_inv_def)

subsection \<open>The worker's loop\<close>

definition worker_work :: "pipeline \<Rightarrow> nat" where
  "worker_work p = 2 * length (pl_queue p) +
     (case pl_worker p of WorkerDone \<Rightarrow> 0 | WorkerWaiting \<Rightarrow> 1 | WorkerBusy _ \<Rightarrow> 2)"

lemma worker_turn_decreases: "worker_turn throws p = Some p' \<Longrightarrow> worker_work p' < worker_work p"
  by (erule worker_turn_cases) (simp_all add: worker_work_def)

text \<open>Turns of the worker until it blocks or has returned, with no client in between.\<close>

function worker_loop :: "(batch \<Rightarrow> string option) \<Rightarrow> pipeline \<Rightarrow> pipeline" where
  "worker_loop throws p =
     (case worker_turn throws p of None \<Rightarrow> p | Some p' \<Rightarrow> worker_loop throws p')"
  by pat_completeness auto
termination worker_loop
  by (relation "measure (worker_work \<circ> snd)") (auto simp: worker_turn_decreases)

declare worker_loop.simps [simp del]

lemma worker_loop_steps: "(pipeline_step throws)\<^sup>*\<^sup>* p (worker_loop throws p)"
proof (induction throws p rule: worker_loop.induct)
  case (1 throws p)
  show ?case
  proof (cases "worker_turn throws p")
    case None
    then show ?thesis by (simp add: worker_loop.simps)
  next
    case (Some p')
    then have "pipeline_step throws p p'" by (rule step_worker)
    then show ?thesis
      using 1 [OF Some] Some by (simp add: worker_loop.simps converse_rtranclp_into_rtranclp)
  qed
qed

lemma worker_loop_blocked: "worker_turn throws (worker_loop throws p) = None"
  by (induction throws p rule: worker_loop.induct)
    (auto simp: worker_loop.simps split: option.splits)

lemma worker_turn_keeps:
  "worker_turn throws p = Some p' \<Longrightarrow> pl_accepted p' = pl_accepted p \<and> (pl_stopping p \<longrightarrow> pl_stopping p')"
  by (erule worker_turn_cases) simp_all

lemma worker_loop_keeps:
  "pl_accepted (worker_loop throws p) = pl_accepted p
   \<and> (pl_stopping p \<longrightarrow> pl_stopping (worker_loop throws p))"
proof (induction throws p rule: worker_loop.induct)
  case (1 throws p)
  then show ?case
    by (cases "worker_turn throws p") (auto simp: worker_loop.simps dest: worker_turn_keeps)
qed

lemma worker_blocked_stopping: "worker_turn throws p = None \<Longrightarrow> pl_stopping p \<Longrightarrow> pl_worker p = WorkerDone"
  by (auto simp: worker_turn_def Let_def case_prod_beta split: worker_phase.splits list.splits if_splits)

lemma worker_loop_no_error:
  assumes "\<And>b. throws b = None"
  shows "pl_worker_error (worker_loop throws p) = pl_worker_error p"
  using assms
proof (induction throws p rule: worker_loop.induct)
  case (1 throws p)
  have none: "List.map_filter throws bs = []" for bs
    using 1(2) by (simp add: List.map_filter_def)
  show ?case
  proof (cases "worker_turn throws p")
    case None
    then show ?thesis by (simp add: worker_loop.simps)
  next
    case (Some p')
    then have "pl_worker_error p' = pl_worker_error p"
      by (cases rule: worker_turn_cases) (simp_all add: none)
    moreover have "pl_worker_error (worker_loop throws p') = pl_worker_error p'"
      using 1(1) [OF Some] 1(2) by blast
    moreover have "worker_loop throws p = worker_loop throws p'"
      using Some by (subst worker_loop.simps) simp
    ultimately show ?thesis by simp
  qed
qed

subsection \<open>Properties of the shared object\<close>

text \<open>
  C7: In every reachable state of the two-thread object, whatever the interleaving and even
  after a handler failure, the accepted items are the handled ones followed by those still in
  flight, in order, and the calls of the handler and the state of detector and resolver are
  those of handling the accepted items one after the other.
\<close>

theorem pipeline_delivers_in_order:
  assumes "pipeline_reachable throws p"
  shows "pl_accepted p = pl_handled p @ pl_in_flight p \<and>
     run process_item init_processor (pl_handled p) = (pl_calls p, pl_processor p)"
  using pipeline_fifo.reachable_fifo [OF assms] by (simp add: init_pipeline_def)

text \<open>
  C17: After \<open>stop_and_flush\<close> has announced the stop, the worker's loop returns, and if no
  handler call throws it returns with an empty queue, no error, and every accepted item
  processed: the handler has received exactly the batches of the sequential run.
\<close>

theorem flush_delivers_everything:
  assumes "pipeline_reachable throws p" "pl_worker_error p = None" "\<And>b. throws b = None"
  shows "pl_worker (worker_loop throws (stop_begin p)) = WorkerDone
     \<and> pl_queue (worker_loop throws (stop_begin p)) = []
     \<and> pl_calls (worker_loop throws (stop_begin p)) = fst (run process_item init_processor (pl_accepted p))
     \<and> stop_result (stop_joined (worker_loop throws (stop_begin p))) = Inr ()"
proof -
  let ?p = "worker_loop throws (stop_begin p)"
  have "pipeline_reachable throws (stop_begin p)"
    using assms(1) step_stop by (rule rtranclp.rtrancl_into_rtrancl)
  then have reach: "pipeline_reachable throws ?p"
    using worker_loop_steps by (rule rtranclp_trans)
  have inv: "pipeline_inv p" using assms(1) by (rule pipeline_inv_reachable)
  then have stopping: "pl_stopping (stop_begin p)" by (auto simp: stop_begin_def pipeline_inv_def)
  then have stopping': "pl_stopping ?p" using worker_loop_keeps by blast
  have accepted: "pl_accepted ?p = pl_accepted p"
    using worker_loop_keeps [where p = "stop_begin p" and throws = throws] by (simp add: stop_begin_def)
  have finished: "pl_worker ?p = WorkerDone"
    using worker_loop_blocked stopping' by (rule worker_blocked_stopping)
  have no_error: "pl_worker_error ?p = None"
    using worker_loop_no_error [of throws "stop_begin p", OF assms(3)] assms(2) by (simp add: stop_begin_def)
  have empty: "pl_queue ?p = []"
    using pipeline_inv_reachable [OF reach] finished no_error by (simp add: pipeline_inv_def)
  have "pl_accepted ?p = pl_handled ?p \<and>
      run process_item init_processor (pl_handled ?p) = (pl_calls ?p, pl_processor ?p)"
    using pipeline_fifo.reachable_fifo [OF reach] finished empty
    by (simp add: init_pipeline_def pl_in_flight_def)
  with accepted have "pl_calls ?p = fst (run process_item init_processor (pl_accepted p))" by simp
  then show ?thesis
    using finished empty no_error by (simp add: stop_result_def stop_joined_def)
qed

theorem flush_delivers_everything_witness:
  "pl_queue (worker_loop (\<lambda>_. None) (stop_begin
     (init_pipeline\<lparr>pl_queue := [PendingGsi \<lparr>pp_sequence = 1, pp_relative_us = 5, pp_body = ''{}''\<rparr>],
        pl_accepted := [PendingGsi \<lparr>pp_sequence = 1, pp_relative_us = 5, pp_body = ''{}''\<rparr>]\<rparr>))) = []"
proof -
  let ?item = "PendingGsi \<lparr>pp_sequence = 1, pp_relative_us = 5, pp_body = ''{}''\<rparr>"
  have "enqueue init_pipeline 1 5 ''{}'' =
      Inr (init_pipeline\<lparr>pl_queue := [?item], pl_accepted := [?item]\<rparr>)"
    by (simp add: enqueue_def push_item_def init_pipeline_def)
  then have "pipeline_step (\<lambda>_. None) init_pipeline
      (init_pipeline\<lparr>pl_queue := [?item], pl_accepted := [?item]\<rparr>)"
    by (rule step_enqueue)
  then have "pipeline_reachable (\<lambda>_. None) (init_pipeline\<lparr>pl_queue := [?item], pl_accepted := [?item]\<rparr>)"
    by (rule r_into_rtranclp)
  from flush_delivers_everything [OF this] show ?thesis by (simp add: init_pipeline_def)
qed

theorem pipeline_delivers_in_order_witness:
  "run process_item init_processor [] = (pl_calls (stop_begin init_pipeline), pl_processor (stop_begin init_pipeline))"
proof -
  have "pipeline_step (\<lambda>_. None) init_pipeline (stop_begin init_pipeline)" by (rule step_stop)
  then have "pipeline_reachable (\<lambda>_. None) (stop_begin init_pipeline)" by (rule r_into_rtranclp)
  from pipeline_delivers_in_order [OF this] show ?thesis
    by (simp add: stop_begin_def init_pipeline_def)
qed

text \<open>
  Once the pipeline is stopping, by \<open>stop_and_flush\<close> or by a handler that threw, it stays
  so: no later state has accepted another item, and every enqueue is refused with the
  stopping error.
\<close>

theorem stopped_for_good:
  assumes "(pipeline_step throws)\<^sup>*\<^sup>* p p'" "pl_stopping p"
  shows "pl_stopping p' \<and> pl_accepted p' = pl_accepted p
     \<and> enqueue p' sequence relative_us body = Inl PipelineStopping
     \<and> enqueue_supplementary p' sn = Inl PipelineStopping"
proof -
  have "pl_stopping p' \<and> pl_accepted p' = pl_accepted p"
    using assms(1)
  proof (induction rule: rtranclp_induct)
    case (step p1 p2)
    from step.hyps(2) show ?case
    proof (cases rule: pipeline_step_cases)
      case worker
      then show ?thesis using step.IH worker_turn_keeps by metis
    qed (use step.IH in \<open>auto simp: push_item_Inr stop_begin_def stop_joined_def\<close>)
  qed (simp add: assms(2))
  then show ?thesis by (simp add: enqueue_def enqueue_supplementary_def push_item_def)
qed

theorem stopped_for_good_witness:
  "enqueue (stop_begin init_pipeline) 7 70 ''{}'' = Inl PipelineStopping"
  using stopped_for_good [of "\<lambda>_. None" "stop_begin init_pipeline" "stop_begin init_pipeline" 7 70 "''{}''"]
  by (simp add: stop_begin_def init_pipeline_def)

text \<open>
  A client that keeps enqueueing never sees the exception of the worker: \<open>enqueue\<close> tests
  \<open>stopping_\<close> first, which the failing worker has set, so in no reachable state does
  \<open>rethrow_exception(worker_error_)\<close> run inside it. Only \<open>stop_and_flush\<close> reports the error.
\<close>

theorem enqueue_hides_worker_error:
  assumes "pipeline_reachable throws p"
  shows "enqueue p sequence relative_us body \<noteq> Inl (WorkerError what)
     \<and> enqueue_supplementary p sn \<noteq> Inl (WorkerError what)
     \<and> (pl_worker_error p = Some why \<longrightarrow> enqueue p sequence relative_us body = Inl PipelineStopping
          \<and> stop_result p = Inl (WorkerError why))"
  using pipeline_inv_reachable [OF assms]
  by (auto simp: pipeline_inv_def enqueue_def enqueue_supplementary_def push_item_def stop_result_def
      split: option.splits if_splits)

theorem enqueue_hides_worker_error_witness:
  "enqueue init_pipeline 1 2 ''{}'' \<noteq> Inl (WorkerError ''boom'')"
  using enqueue_hides_worker_error [of "\<lambda>_. None" init_pipeline] by simp

subsection \<open>Properties of the event stream\<close>

abbreviation pipeline_events :: "pending_item list \<Rightarrow> event list" where
  "pipeline_events items \<equiv> batch_events (fst (run process_item init_processor items))"

lemma pipeline_events_resolver:
  "pipeline_events items =
     fst (run resolver_step (init_resolver default_config) (resolver_inputs init_detector items))"
  using run_items_events [OF processor_inv_init] by (simp add: init_processor_def)

text \<open>
  C8: For every sequence of payloads and supplementary snapshots, the clutch events the
  handler sees obey their protocol: a clutch is started only when none is running and with at
  least one opponent, an update names the old and a different new number of opponents, an end
  names the current one; only a round start or a new match drops a clutch silently.
\<close>

theorem clutch_protocol:
  "\<exists>opponents. monitor_run clutch_watch None (pipeline_events items) = Some opponents"
proof -
  have "monitor_run clutch_watch (rs_last_clutch_enemy_alive (init_resolver default_config))
      (pipeline_events items) = Some (rs_last_clutch_enemy_alive
        (snd (run resolver_step (init_resolver default_config) (resolver_inputs init_detector items))))"
    unfolding pipeline_events_resolver
    by (rule clutches.mon_run [OF resolver_inv_init resolver_inputs_factual])
  then show ?thesis by (simp add: init_resolver_def)
qed

text \<open>
  C9: Between two round starts the handler sees at most one ACE, and none before the first
  round start after a map has been entered, for every sequence of payloads and snapshots.
\<close>

theorem at_most_one_ace_per_round:
  "\<exists>armed. monitor_run ace_watch False (pipeline_events items) = Some armed"
proof -
  have "ace_rel (init_resolver default_config) False" by (simp add: ace_rel_def init_resolver_def)
  from aces.sim_run [OF this resolver_inputs_factual] show ?thesis
    unfolding pipeline_events_resolver by blast
qed

text \<open>
  C6: Every ACE the handler sees is backed by submitted observations: a round start, a
  snapshot at or before it that gives the enemy total, a snapshot at or after it of the same
  roster revision that shows the same total and no enemy alive, and a GSI state of a supported
  mode whose round kills equal that total, which is the value of the event.
\<close>

theorem ace_is_grounded:
  assumes "e \<in> set (pipeline_events items)" "ev_type e = Ace"
  shows "\<exists>n. ev_value e = Some n \<and> ace_evidence (resolver_inputs init_detector items) default_config n"
  using run_ace_evidence [OF resolver_inputs_factual] assms
  unfolding pipeline_events_resolver by blast

text \<open>A competitive round against two opponents, as the game and a provider report it.\<close>

definition ace_body :: "string \<Rightarrow> string \<Rightarrow> string" where
  "ace_body phase kills =
     ''{\"provider\":{\"steamid\":\"1\"},\"map\":{\"name\":\"m\",\"mode\":\"casual\"},'' @
     ''\"round\":{\"phase\":\"'' @ phase @ ''\"},\"player\":{\"steamid\":\"1\",\"team\":\"CT\",'' @
     ''\"state\":{\"health\":90,\"round_kills\":'' @ kills @ ''}}}''"

definition ace_snapshot :: "u64 \<Rightarrow> u64 \<Rightarrow> i32 \<Rightarrow> snapshot" where
  "ace_snapshot q t enemies = \<lparr>sn_sequence = q, sn_observed_tick = 0, sn_relative_us = t,
     sn_roster_revision = Some 7, sn_source = Synthetic,
     sn_teams = \<lparr>tc_ct_alive = Some 2, tc_t_alive = Some enemies, tc_ct_total = Some 2, tc_t_total = Some 2\<rparr>\<rparr>"

definition ace_items :: "pending_item list" where
  "ace_items = [
     PendingGsi \<lparr>pp_sequence = 1, pp_relative_us = 10, pp_body = ace_body ''freezetime'' ''0''\<rparr>,
     PendingSupplementary (ace_snapshot 1 20 2),
     PendingGsi \<lparr>pp_sequence = 2, pp_relative_us = 30, pp_body = ace_body ''live'' ''0''\<rparr>,
     PendingGsi \<lparr>pp_sequence = 3, pp_relative_us = 40, pp_body = ace_body ''live'' ''2''\<rparr>,
     PendingSupplementary (ace_snapshot 2 50 0)]"

lemma ace_items_events:
  "map ev_type (pipeline_events ace_items) =
     [MatchEntered, LocalPlayerAcquired, FreezeEnded, RoundStarted, PlayerKill, Ace]"
  by code_simp

theorem ace_is_grounded_witness:
  "\<exists>n. ev_value (last (pipeline_events ace_items)) = Some n
     \<and> ace_evidence (resolver_inputs init_detector ace_items) default_config n"
proof (rule ace_is_grounded)
  have nonempty: "pipeline_events ace_items \<noteq> []" using ace_items_events by force
  show "last (pipeline_events ace_items) \<in> set (pipeline_events ace_items)"
    using nonempty by (rule last_in_set)
  show "ev_type (last (pipeline_events ace_items)) = Ace"
    using ace_items_events nonempty by (simp add: last_map [symmetric])
qed

text \<open>
  C23: Without a supplementary source the pipeline is the GSI edition: the handler sees exactly
  the factual events of the detector, and the resolver adds nothing.
\<close>

theorem gsi_only_is_factual:
  "pipeline_events (map PendingGsi payloads) =
     fst (run process init_detector
       (map (\<lambda>p. normalize_gsi (pp_body p) (pp_sequence p) (pp_relative_us p)) payloads))"
proof -
  have inputs: "\<forall>x\<in>set (resolver_inputs d (map PendingGsi payloads)). \<exists>st fs. x = GsiInput st fs" for d
    by (induction payloads arbitrary: d) (auto simp: item_inputs_def Let_def)
  have "concat (map (\<lambda>x. case x of GsiInput st fs \<Rightarrow> fs | _ \<Rightarrow> []) (resolver_inputs d (map PendingGsi payloads)))
      = fst (run process d (map (\<lambda>p. normalize_gsi (pp_body p) (pp_sequence p) (pp_relative_us p)) payloads))"
    for d
    by (induction payloads arbitrary: d)
      (auto simp: item_inputs_def item_detector_def Let_def case_prod_beta process_def)
  then show ?thesis
    unfolding pipeline_events_resolver
    by (subst run_gsi_only_silent [OF inputs]) (simp_all add: init_resolver_def)
qed

end
