(* ===== verification/Ingress.thy ===== *)
theory Ingress
  imports Recorder_Facts Live_Pipeline "HOL-Library.Sublist"
begin

text \<open>
  Class \<open>TelemetryIngress\<close> (\<open>src/telemetry_ingress.cpp\<close>): under one mutex an observation is
  given to the recorder, and what the recorder made of it to the live pipeline. The theory
  joins the two shared objects into the system of one recording session and shows that the
  order on disk is the order of the live events.
\<close>

record telemetry =
  tm_recorder :: recorder
  tm_pipeline :: pipeline

datatype ingress_error = FromRecorder recorder_error | FromPipeline pipeline_error

definition init_telemetry :: "u64 \<Rightarrow> u64 \<Rightarrow> telemetry" where
  "init_telemetry frequency start_tick =
     \<lparr>tm_recorder = init_recorder frequency start_tick, tm_pipeline = init_pipeline\<rparr>"

text \<open>
  An exception of the recorder leaves everything as it was; one of the pipeline comes after
  the recorder has accepted the observation.
\<close>

definition ingress_gsi ::
  "telemetry \<Rightarrow> u64 \<Rightarrow> u64 \<Rightarrow> u64 \<Rightarrow> string \<Rightarrow> (ingress_error + snapshot_record) \<times> telemetry" where
  "ingress_gsi t accepted_tick body_complete_tick ack_sent_tick body =
     (case enqueue_snapshot (tm_recorder t) accepted_tick body_complete_tick ack_sent_tick body of
        Inl e \<Rightarrow> (Inl (FromRecorder e), t)
      | Inr (rec, recorder) \<Rightarrow>
          (let t1 = t\<lparr>tm_recorder := recorder\<rparr>
           in case enqueue (tm_pipeline t1) (sr_sequence rec) (sr_relative_us rec) body of
                Inl e \<Rightarrow> (Inl (FromPipeline e), t1)
              | Inr p \<Rightarrow> (Inr rec, t1\<lparr>tm_pipeline := p\<rparr>)))"

definition ingress_supplementary ::
  "telemetry \<Rightarrow> snapshot \<Rightarrow> (ingress_error + supplementary_record) \<times> telemetry" where
  "ingress_supplementary t sn =
     (case enqueue_observation (tm_recorder t) sn of
        Inl e \<Rightarrow> (Inl (FromRecorder e), t)
      | Inr (rec, recorder) \<Rightarrow>
          (let t1 = t\<lparr>tm_recorder := recorder\<rparr>
           in case Live_Pipeline.enqueue_supplementary (tm_pipeline t1) (su_snapshot rec) of
                Inl e \<Rightarrow> (Inl (FromPipeline e), t1)
              | Inr p \<Rightarrow> (Inr rec, t1\<lparr>tm_pipeline := p\<rparr>)))"

text \<open>
  Everything that can happen in a recording session: observations through the gate, turns of
  the two workers, and the two shutdowns of \<open>command_record\<close>.
\<close>

inductive telemetry_step :: "(batch \<Rightarrow> string option) \<Rightarrow> telemetry \<Rightarrow> telemetry \<Rightarrow> bool"
  for throws :: "batch \<Rightarrow> string option" where
  through_gsi: "telemetry_step throws t (snd (ingress_gsi t accepted_tick body_tick ack_tick body))"
| through_supplementary: "telemetry_step throws t (snd (ingress_supplementary t sn))"
| recorder_works: "recorder_turn ti (tm_recorder t) = Some r \<Longrightarrow> telemetry_step throws t (t\<lparr>tm_recorder := r\<rparr>)"
| recorder_stops: "telemetry_step throws t (t\<lparr>tm_recorder := recorder_stop_begin (tm_recorder t)\<rparr>)"
| pipeline_works: "worker_turn throws (tm_pipeline t) = Some p \<Longrightarrow> telemetry_step throws t (t\<lparr>tm_pipeline := p\<rparr>)"
| pipeline_stops: "telemetry_step throws t (t\<lparr>tm_pipeline := stop_begin (tm_pipeline t)\<rparr>)"

abbreviation telemetry_reachable ::
  "(batch \<Rightarrow> string option) \<Rightarrow> u64 \<Rightarrow> u64 \<Rightarrow> telemetry \<Rightarrow> bool" where
  "telemetry_reachable throws frequency start_tick \<equiv>
     (telemetry_step throws)\<^sup>*\<^sup>* (init_telemetry frequency start_tick)"

text \<open>What the pipeline is given for a record.\<close>

fun live_item :: "pending_record \<Rightarrow> pending_item" where
  "live_item (RecordSnapshot rec body) =
     PendingGsi \<lparr>pp_sequence = sr_sequence rec, pp_relative_us = sr_relative_us rec, pp_body = body\<rparr>"
| "live_item (RecordSupplementary rec) = PendingSupplementary (su_snapshot rec)"

definition recorded_items :: "telemetry \<Rightarrow> pending_item list" where
  "recorded_items t = map live_item (rc_accepted (tm_recorder t))"

subsection \<open>The session as its two parts\<close>

lemma push_item_Inl:
  "push_item p item = Inl e \<Longrightarrow> pl_stopping p \<or> pl_stopped p \<or> pl_worker_error p \<noteq> None"
  by (auto simp: push_item_def split: if_splits option.splits)

lemma ingress_gsi_cases:
  obtains (refused) "snd (ingress_gsi t a b k body) = t"
  | (half) rec r where "enqueue_snapshot (tm_recorder t) a b k body = Inr (rec, r)"
      "snd (ingress_gsi t a b k body) = t\<lparr>tm_recorder := r\<rparr>"
      "pl_stopping (tm_pipeline t) \<or> pl_stopped (tm_pipeline t) \<or> pl_worker_error (tm_pipeline t) \<noteq> None"
  | (both) rec r p where "enqueue_snapshot (tm_recorder t) a b k body = Inr (rec, r)"
      "push_item (tm_pipeline t) (live_item (RecordSnapshot rec body)) = Inr p"
      "snd (ingress_gsi t a b k body) = \<lparr>tm_recorder = r, tm_pipeline = p\<rparr>"
proof (cases "enqueue_snapshot (tm_recorder t) a b k body")
  case (Inl e)
  then show ?thesis by (intro refused) (simp add: ingress_gsi_def)
next
  case (Inr res)
  obtain rec r where res: "res = (rec, r)" by (cases res)
  show ?thesis
  proof (cases "push_item (tm_pipeline t) (live_item (RecordSnapshot rec body))")
    case (Inl e)
    with Inr res show ?thesis
      by (intro half [of rec r] push_item_Inl [OF Inl]) (simp_all add: ingress_gsi_def enqueue_def)
  next
    case (Inr p)
    with \<open>enqueue_snapshot (tm_recorder t) a b k body = Inr res\<close> res show ?thesis
      by (intro both [of rec r p]) (simp_all add: ingress_gsi_def enqueue_def)
  qed
qed

lemma ingress_supplementary_cases:
  obtains (refused) "snd (ingress_supplementary t sn) = t"
  | (half) rec r where "enqueue_observation (tm_recorder t) sn = Inr (rec, r)"
      "snd (ingress_supplementary t sn) = t\<lparr>tm_recorder := r\<rparr>"
      "pl_stopping (tm_pipeline t) \<or> pl_stopped (tm_pipeline t) \<or> pl_worker_error (tm_pipeline t) \<noteq> None"
  | (both) rec r p where "enqueue_observation (tm_recorder t) sn = Inr (rec, r)"
      "push_item (tm_pipeline t) (live_item (RecordSupplementary rec)) = Inr p"
      "snd (ingress_supplementary t sn) = \<lparr>tm_recorder = r, tm_pipeline = p\<rparr>"
proof (cases "enqueue_observation (tm_recorder t) sn")
  case (Inl e)
  then show ?thesis by (intro refused) (simp add: ingress_supplementary_def)
next
  case (Inr res)
  obtain rec r where res: "res = (rec, r)" by (cases res)
  show ?thesis
  proof (cases "push_item (tm_pipeline t) (live_item (RecordSupplementary rec))")
    case (Inl e)
    with Inr res show ?thesis
      by (intro half [of rec r] push_item_Inl [OF Inl])
        (simp_all add: ingress_supplementary_def enqueue_supplementary_def)
  next
    case (Inr p)
    with \<open>enqueue_observation (tm_recorder t) sn = Inr res\<close> res show ?thesis
      by (intro both [of rec r p]) (simp_all add: ingress_supplementary_def enqueue_supplementary_def)
  qed
qed

lemma push_item_step:
  "push_item p item = Inr p' \<Longrightarrow> pipeline_step throws p p'"
proof (cases item)
  case (PendingGsi payload)
  moreover assume "push_item p item = Inr p'"
  ultimately have "enqueue p (pp_sequence payload) (pp_relative_us payload) (pp_body payload) = Inr p'"
    by (cases payload) (simp add: enqueue_def)
  then show ?thesis by (rule step_enqueue)
next
  case (PendingSupplementary sn)
  moreover assume "push_item p item = Inr p'"
  ultimately have "Live_Pipeline.enqueue_supplementary p sn = Inr p'"
    by (simp add: enqueue_supplementary_def)
  then show ?thesis by (rule step_enqueue_supplementary)
qed

definition telemetry_parts :: "(batch \<Rightarrow> string option) \<Rightarrow> telemetry \<Rightarrow> telemetry \<Rightarrow> bool" where
  "telemetry_parts throws t t' \<longleftrightarrow>
     recorder_step\<^sup>*\<^sup>* (tm_recorder t) (tm_recorder t')
     \<and> (pipeline_step throws)\<^sup>*\<^sup>* (tm_pipeline t) (tm_pipeline t')"

lemma telemetry_step_parts: "telemetry_step throws t t' \<Longrightarrow> telemetry_parts throws t t'"
proof (induction rule: telemetry_step.induct)
  case (through_gsi t a b k body)
  show ?case
    by (cases rule: ingress_gsi_cases [of t a b k body])
      (auto simp: telemetry_parts_def intro: step_snapshot push_item_step)
next
  case (through_supplementary t sn)
  show ?case
    by (cases rule: ingress_supplementary_cases [of t sn])
      (auto simp: telemetry_parts_def intro: step_observation push_item_step)
next
  case (recorder_works ti t r)
  then show ?case by (auto simp: telemetry_parts_def intro: step_recorder_worker)
next
  case (recorder_stops t)
  show ?case by (auto simp: telemetry_parts_def intro: step_recorder_stop)
next
  case (pipeline_works t p)
  then show ?case by (auto simp: telemetry_parts_def intro: step_worker)
next
  case (pipeline_stops t)
  show ?case by (auto simp: telemetry_parts_def intro: step_stop)
qed

lemma telemetry_reachable_parts:
  assumes "telemetry_reachable throws frequency start_tick t"
  shows "recorder_step\<^sup>*\<^sup>* (init_recorder frequency start_tick) (tm_recorder t)"
    and "pipeline_reachable throws (tm_pipeline t)"
proof -
  have "telemetry_parts throws (init_telemetry frequency start_tick) t"
    using assms
  proof (induction rule: rtranclp_induct)
    case (step t1 t2)
    then show ?case
      using telemetry_step_parts [OF step.hyps(2)] by (auto simp: telemetry_parts_def)
  qed (simp add: telemetry_parts_def)
  then show "recorder_step\<^sup>*\<^sup>* (init_recorder frequency start_tick) (tm_recorder t)"
    "pipeline_reachable throws (tm_pipeline t)"
    by (simp_all add: telemetry_parts_def init_telemetry_def)
qed

subsection \<open>One order\<close>

definition same_order :: "telemetry \<Rightarrow> bool" where
  "same_order t \<longleftrightarrow>
     prefix (pl_accepted (tm_pipeline t)) (recorded_items t)
     \<and> (\<not> pl_stopping (tm_pipeline t) \<longrightarrow> pl_accepted (tm_pipeline t) = recorded_items t)"

lemma same_order_step:
  assumes "telemetry_step throws t t'" "same_order t" "pipeline_inv (tm_pipeline t)"
  shows "same_order t'"
  using assms(1)
proof (cases rule: telemetry_step.cases)
  case (through_gsi a b k body)
  show ?thesis
  proof (cases rule: ingress_gsi_cases [of t a b k body])
    case (half rec r)
    then show ?thesis
      using assms(2,3) through_gsi enqueue_snapshot_Inr [OF half(1)]
      by (auto simp: same_order_def recorded_items_def pipeline_inv_def prefix_prefix)
  next
    case (both rec r p)
    then show ?thesis
      using assms(2) through_gsi enqueue_snapshot_Inr [OF both(1)]
      by (auto simp: same_order_def recorded_items_def push_item_Inr)
  qed (use assms(2) through_gsi in simp)
next
  case (through_supplementary sn)
  show ?thesis
  proof (cases rule: ingress_supplementary_cases [of t sn])
    case (half rec r)
    then show ?thesis
      using assms(2,3) through_supplementary enqueue_observation_Inr [OF half(1)]
      by (auto simp: same_order_def recorded_items_def pipeline_inv_def prefix_prefix)
  next
    case (both rec r p)
    then show ?thesis
      using assms(2) through_supplementary enqueue_observation_Inr [OF both(1)]
      by (auto simp: same_order_def recorded_items_def push_item_Inr)
  qed (use assms(2) through_supplementary in simp)
next
  case (recorder_works ti r)
  then show ?thesis
    using assms(2) recorder_turn_frame [OF recorder_works(2)] by (simp add: same_order_def recorded_items_def)
next
  case recorder_stops
  then show ?thesis
    using assms(2) by (simp add: same_order_def recorded_items_def recorder_stop_begin_def)
next
  case (pipeline_works p)
  then show ?thesis
    using assms(2) worker_turn_keeps [OF pipeline_works(2)] by (auto simp: same_order_def recorded_items_def)
next
  case pipeline_stops
  then show ?thesis
    using assms(2) by (auto simp: same_order_def recorded_items_def stop_begin_def)
qed

lemma same_order_reachable: "telemetry_reachable throws frequency start_tick t \<Longrightarrow> same_order t"
proof (induction rule: rtranclp_induct)
  case base
  show ?case
    by (simp add: same_order_def recorded_items_def init_telemetry_def init_pipeline_def init_recorder_def)
next
  case (step t1 t2)
  then show ?case
    using same_order_step pipeline_inv_reachable telemetry_reachable_parts(2) by blast
qed

text \<open>
  C16: In every reachable state of a recording session the pipeline has accepted a prefix of
  what the recorder has accepted, in the same order and with the recorder's sequence numbers
  and times; while the pipeline is not stopping it is all of it.
\<close>

theorem recorded_order_is_live_order:
  assumes "telemetry_reachable throws frequency start_tick t"
  shows "prefix (pl_accepted (tm_pipeline t)) (recorded_items t)
     \<and> (pl_stopping (tm_pipeline t) \<or> pl_accepted (tm_pipeline t) = recorded_items t)"
  using same_order_reachable [OF assms] by (auto simp: same_order_def)

theorem recorded_order_is_live_order_witness:
  "pl_accepted (tm_pipeline (snd (ingress_gsi (init_telemetry 1000000000 0) 1 2000 3000 ''{}''))) =
   recorded_items (snd (ingress_gsi (init_telemetry 1000000000 0) 1 2000 3000 ''{}''))
   \<and> recorded_items (snd (ingress_gsi (init_telemetry 1000000000 0) 1 2000 3000 ''{}'')) \<noteq> []"
proof -
  let ?t = "snd (ingress_gsi (init_telemetry 1000000000 0) 1 2000 3000 ''{}'')"
  have "telemetry_step (\<lambda>_. None) (init_telemetry 1000000000 0) ?t" by (rule through_gsi)
  then have "telemetry_reachable (\<lambda>_. None) 1000000000 0 ?t" by (rule r_into_rtranclp)
  from recorded_order_is_live_order [OF this] show ?thesis
    by (simp add: ingress_gsi_def init_telemetry_def enqueue_snapshot_def init_recorder_def
        enqueue_def push_item_def init_pipeline_def recorded_items_def Let_def)
qed

end
