(* ===== verification/Edition.thy ===== *)
theory Edition
  imports Prelude
begin

unbundle bit_operations_syntax

text \<open>
  Editions, providers and capabilities: \<open>include/cspromator/edition.hpp\<close> and
  \<open>src/edition.cpp\<close>. \<open>Capability\<close> is an enumeration over \<open>std::uint32_t\<close> whose values are
  combined bitwise, so it is the type \<open>u32\<close> here, with the source's enumerators as constants.
\<close>

subsection \<open>Capabilities\<close>

type_synonym capability = u32

definition cap_none :: capability where "cap_none = 0"
definition cap_gsi_facts :: capability where "cap_gsi_facts = push_bit 0 1"
definition cap_deterministic_replay :: capability where "cap_deterministic_replay = push_bit 1 1"
definition cap_supplementary_team_counts :: capability where "cap_supplementary_team_counts = push_bit 2 1"
definition cap_steam_timeline_events :: capability where "cap_steam_timeline_events = push_bit 3 1"
definition cap_round_end_report :: capability where "cap_round_end_report = push_bit 4 1"
definition cap_current_round_odds :: capability where "cap_current_round_odds = push_bit 5 1"
definition cap_deep_stats :: capability where "cap_deep_stats = push_bit 6 1"

lemmas cap_defs = cap_none_def cap_gsi_facts_def cap_deterministic_replay_def
  cap_supplementary_team_counts_def cap_steam_timeline_events_def cap_round_end_report_def
  cap_current_round_odds_def cap_deep_stats_def

definition has_capability :: "capability \<Rightarrow> capability \<Rightarrow> bool" where
  "has_capability capabilities c \<longleftrightarrow> capabilities AND c \<noteq> cap_none"

subsection \<open>Descriptors\<close>

datatype edition_kind = EditionGsi | EditionExtended

datatype provider_status = StatusActive | StatusPlanned | StatusResearchOnly

record capability_descriptor =
  cd_capability :: capability
  cd_id :: string
  cd_description :: string

record provider_descriptor =
  pd_id :: string
  pd_display_name :: string
  pd_status :: provider_status
  pd_required :: bool
  pd_capabilities :: capability
  pd_note :: string

record edition_descriptor =
  ed_kind :: edition_kind
  ed_id :: string
  ed_display_name :: string
  ed_executable_name :: string
  ed_providers :: "provider_descriptor list"

fun edition_to_string :: "edition_kind \<Rightarrow> string" where
  "edition_to_string EditionGsi = ''gsi''"
| "edition_to_string EditionExtended = ''extended''"

fun status_to_string :: "provider_status \<Rightarrow> string" where
  "status_to_string StatusActive = ''active''"
| "status_to_string StatusPlanned = ''planned''"
| "status_to_string StatusResearchOnly = ''research-only''"

subsection \<open>The catalog\<close>

definition capability_catalog :: "capability_descriptor list" where
  "capability_catalog = [
     \<lparr>cd_capability = cap_gsi_facts, cd_id = ''gsi-facts'',
      cd_description = ''Factual local-player, round, bomb and lifecycle state from CS2 GSI.''\<rparr>,
     \<lparr>cd_capability = cap_deterministic_replay, cd_id = ''deterministic-replay'',
      cd_description = ''Record and replay accepted telemetry in canonical ingress order.''\<rparr>,
     \<lparr>cd_capability = cap_supplementary_team_counts, cd_id = ''supplementary-team-counts'',
      cd_description = ''Player-visible CT/T alive and total counts for evidence fusion.''\<rparr>,
     \<lparr>cd_capability = cap_steam_timeline_events, cd_id = ''steam-timeline-events'',
      cd_description = ''Valve Steam Timeline semantic event enrichment.''\<rparr>,
     \<lparr>cd_capability = cap_round_end_report, cd_id = ''round-end-report'',
      cd_description = ''Historical per-round analytical report data.''\<rparr>,
     \<lparr>cd_capability = cap_current_round_odds, cd_id = ''current-round-odds'',
      cd_description = ''Current round win-odds telemetry; research-only until trust semantics are known.''\<rparr>,
     \<lparr>cd_capability = cap_deep_stats, cd_id = ''deep-stats'',
      cd_description = ''Historical Deep Stats / 360-style match analytics.''\<rparr>]"

definition gsi_capabilities :: capability where
  "gsi_capabilities = cap_gsi_facts OR cap_deterministic_replay"

definition gsi_providers :: "provider_descriptor list" where
  "gsi_providers = [
     \<lparr>pd_id = ''gsi'', pd_display_name = ''Game State Integration'',
      pd_status = StatusActive, pd_required = True, pd_capabilities = gsi_capabilities,
      pd_note = ''Required factual spine; loopback HTTP only.''\<rparr>]"

definition extended_providers :: "provider_descriptor list" where
  "extended_providers = [
     \<lparr>pd_id = ''gsi'', pd_display_name = ''Game State Integration'',
      pd_status = StatusActive, pd_required = True, pd_capabilities = gsi_capabilities,
      pd_note = ''Required factual spine; Extended must degrade to this provider alone.''\<rparr>,
     \<lparr>pd_id = ''visible-team-state'', pd_display_name = ''Visible Team State'',
      pd_status = StatusPlanned, pd_required = False, pd_capabilities = cap_supplementary_team_counts,
      pd_note = ''Provider contract exists; no supported live external bridge is enabled yet.''\<rparr>,
     \<lparr>pd_id = ''steam-timeline'', pd_display_name = ''Steam Timeline'',
      pd_status = StatusPlanned, pd_required = False, pd_capabilities = cap_steam_timeline_events,
      pd_note = ''Awaiting measured live-write behavior of Steam Game Recording timeline metadata.''\<rparr>,
     \<lparr>pd_id = ''round-report'', pd_display_name = ''CS2 Round End Report'',
      pd_status = StatusResearchOnly, pd_required = False, pd_capabilities = cap_round_end_report,
      pd_note = ''Current CS2 protocol contains the data, but no supported external bridge is known.''\<rparr>,
     \<lparr>pd_id = ''current-round-odds'', pd_display_name = ''CS2 Current Round Odds'',
      pd_status = StatusResearchOnly, pd_required = False, pd_capabilities = cap_current_round_odds,
      pd_note = ''Quarantined from Director use until its information inputs and trust boundary are understood.''\<rparr>,
     \<lparr>pd_id = ''deep-stats'', pd_display_name = ''CS2 Deep Stats'',
      pd_status = StatusResearchOnly, pd_required = False, pd_capabilities = cap_deep_stats,
      pd_note = ''Historical analytics only; not part of the live Director path.''\<rparr>]"

definition gsi_edition :: edition_descriptor where
  "gsi_edition = \<lparr>ed_kind = EditionGsi, ed_id = ''gsi'', ed_display_name = ''CSPromator GSI'',
     ed_executable_name = ''cspromator-gsi'', ed_providers = gsi_providers\<rparr>"

definition extended_edition :: edition_descriptor where
  "extended_edition = \<lparr>ed_kind = EditionExtended, ed_id = ''extended'',
     ed_display_name = ''CSPromator Extended'', ed_executable_name = ''cspromator-extended'',
     ed_providers = extended_providers\<rparr>"

definition edition_of_kind :: "edition_kind \<Rightarrow> edition_descriptor" where
  "edition_of_kind kind = (if kind = EditionExtended then extended_edition else gsi_edition)"

definition active_capabilities :: "edition_descriptor \<Rightarrow> capability" where
  "active_capabilities edition =
     fold (\<lambda>provider result.
         if pd_status provider = StatusActive then result OR pd_capabilities provider else result)
       (ed_providers edition) cap_none"

definition potential_capabilities :: "edition_descriptor \<Rightarrow> capability" where
  "potential_capabilities edition =
     fold (\<lambda>provider result. result OR pd_capabilities provider) (ed_providers edition) cap_none"

definition has_provider :: "edition_descriptor \<Rightarrow> string \<Rightarrow> bool" where
  "has_provider edition provider_id = list_ex (\<lambda>p. pd_id p = provider_id) (ed_providers edition)"

text \<open>
  What \<open>print_capabilities\<close> of \<open>src/main.cpp\<close> lists: the catalog entries of a capability set.
\<close>

definition listed_capabilities :: "capability \<Rightarrow> string list" where
  "listed_capabilities capabilities =
     map cd_id (filter (\<lambda>d. has_capability capabilities (cd_capability d)) capability_catalog)"

subsection \<open>Facts\<close>

lemma has_capability_none [simp]: "\<not> has_capability cap_none c"
  by (simp add: has_capability_def cap_none_def)

lemma has_capability_or:
  "has_capability (a OR b) c \<longleftrightarrow> has_capability a c \<or> has_capability b c"
proof -
  have "(a OR b) AND c = (a AND c) OR (b AND c)"
    by (rule bit.conj_disj_distrib2)
  moreover have "x OR y = 0 \<longleftrightarrow> x = 0 \<and> y = 0" for x y :: u32
    by (auto simp: bit_eq_iff bit_simps)
  ultimately show ?thesis by (simp add: has_capability_def cap_none_def)
qed

lemma has_capability_fold:
  "has_capability (fold (\<lambda>p result. if active p then result OR pd_capabilities p else result) ps start) c
   \<longleftrightarrow> has_capability start c \<or> list_ex (\<lambda>p. active p \<and> has_capability (pd_capabilities p) c) ps"
  by (induction ps arbitrary: start) (auto simp: has_capability_or)

text \<open>
  An edition has a capability active exactly if one of its active providers brings it:
  planned and research-only providers contribute nothing. Potential are those of all providers.
\<close>

theorem active_capabilities_from_active_providers:
  "(has_capability (active_capabilities edition) c \<longleftrightarrow>
      list_ex (\<lambda>p. pd_status p = StatusActive \<and> has_capability (pd_capabilities p) c) (ed_providers edition))
   \<and> (has_capability (potential_capabilities edition) c \<longleftrightarrow>
      list_ex (\<lambda>p. has_capability (pd_capabilities p) c) (ed_providers edition))"
  using has_capability_fold [of "\<lambda>p. pd_status p = StatusActive" "ed_providers edition" cap_none c]
    has_capability_fold [of "\<lambda>_. True" "ed_providers edition" cap_none c]
  by (auto simp: active_capabilities_def potential_capabilities_def list_ex_iff)

text \<open>
  The Extended edition degrades to GSI: its active capabilities are those of the GSI
  edition, its potential ones are all seven of the catalog, both list the required provider
  \<open>gsi\<close>, and every name maps to one edition.
\<close>

theorem extended_degrades_to_gsi:
  "active_capabilities (edition_of_kind EditionExtended) = active_capabilities (edition_of_kind EditionGsi)
   \<and> listed_capabilities (active_capabilities (edition_of_kind EditionExtended))
       = [''gsi-facts'', ''deterministic-replay'']
   \<and> listed_capabilities (potential_capabilities (edition_of_kind EditionExtended)) = map cd_id capability_catalog
   \<and> potential_capabilities (edition_of_kind EditionGsi) = active_capabilities (edition_of_kind EditionGsi)
   \<and> map pd_id (filter pd_required (ed_providers (edition_of_kind kind))) = [''gsi'']
   \<and> ed_kind (edition_of_kind kind) = kind \<and> ed_id (edition_of_kind kind) = edition_to_string kind"
proof -
  have "active_capabilities (edition_of_kind EditionExtended) = active_capabilities (edition_of_kind EditionGsi)"
    by code_simp
  moreover have "listed_capabilities (active_capabilities (edition_of_kind EditionExtended))
       = [''gsi-facts'', ''deterministic-replay'']"
    by code_simp
  moreover have "listed_capabilities (potential_capabilities (edition_of_kind EditionExtended))
      = map cd_id capability_catalog"
    by code_simp
  moreover have "potential_capabilities (edition_of_kind EditionGsi) = active_capabilities (edition_of_kind EditionGsi)"
    by code_simp
  moreover have "map pd_id (filter pd_required (ed_providers (edition_of_kind kind))) = [''gsi'']"
    "ed_kind (edition_of_kind kind) = kind" "ed_id (edition_of_kind kind) = edition_to_string kind"
    by (cases kind; simp add: edition_of_kind_def gsi_edition_def extended_edition_def
        gsi_providers_def extended_providers_def)+
  ultimately show ?thesis by blast
qed

end
