(* ===== verification/Replay.thy ===== *)
theory Replay
  imports Recorder "HOL-Library.Sublist" "HOL-Library.Product_Lexorder"
begin

text \<open>
  Reading a session back: \<open>load_timeline\<close>, \<open>load_supplementary_timeline\<close>,
  \<open>load_replay_stream\<close> and \<open>load_replay_body\<close> of \<open>src/session.cpp\<close>. A session directory is the
  contents of its files, absent ones \<open>None\<close>; the directory \<open>raw\<close> of schema v1 is a function
  from file names.
\<close>

record session_files =
  sf_timeline :: "string option"
  sf_supplementary :: "string option"
  sf_raw_gsi :: "string option"
  sf_raw_directory :: "string \<Rightarrow> string option"

record replay_entry =
  re_record :: snapshot_record
  re_packed_v2 :: bool

record supplementary_replay_entry =
  se_record :: supplementary_record
  se_recorded_source :: source_kind

text \<open>\<open>std::getline\<close> of the header: an empty file gives an empty header.\<close>

definition read_header :: "string \<Rightarrow> string" where
  "read_header text = (case getlines text of [] \<Rightarrow> [] | h # _ \<Rightarrow> h)"

definition read_rows :: "string \<Rightarrow> string list" where
  "read_rows text = filter (\<lambda>line. line \<noteq> []) (tl (getlines text))"

definition is_packed_v2 :: "string \<Rightarrow> bool" where
  "is_packed_v2 header = list_ex (prefix ''body_offset'') (suffixes header)"

definition has_ingress_order :: "string \<Rightarrow> bool" where
  "has_ingress_order header = prefix (''ingress_order'' @ [tab]) header"

text \<open>
  One row. \<open>fields[i++]\<close> is the head of the remaining fields; the row has been tested to be
  long enough. The ingress order of an older session is its sequence number.
\<close>

definition empty_snapshot_record :: snapshot_record where
  "empty_snapshot_record = \<lparr>sr_ingress_order = 0, sr_sequence = 0, sr_accepted_tick = 0,
     sr_body_complete_tick = 0, sr_ack_sent_tick = 0, sr_persist_complete_tick = 0,
     sr_relative_us = 0, sr_body_offset = 0, sr_body_bytes = 0, sr_body_filename = []\<rparr>"

definition parse_timeline_fields ::
  "bool \<Rightarrow> string list \<Rightarrow> u64 option \<Rightarrow> session_error + snapshot_record" where
  "parse_timeline_fields packed cols ingress_order =
     rbind (stoull (cols ! 0)) (\<lambda>sequence.
     rbind (stoull (cols ! 1)) (\<lambda>accepted.
     rbind (stoull (cols ! 2)) (\<lambda>body_complete.
     rbind (stoull (cols ! 3)) (\<lambda>ack_sent.
     rbind (stoull (cols ! 4)) (\<lambda>persisted.
     rbind (stoull (cols ! 5)) (\<lambda>relative_us.
       let rec = empty_snapshot_record\<lparr>
             sr_ingress_order := value_or ingress_order sequence, sr_sequence := sequence,
             sr_accepted_tick := accepted, sr_body_complete_tick := body_complete,
             sr_ack_sent_tick := ack_sent, sr_persist_complete_tick := persisted,
             sr_relative_us := relative_us\<rparr>
       in if packed then
            rbind (stoull (cols ! 6)) (\<lambda>offset.
            rbind (stoull (cols ! 7)) (\<lambda>bytes.
              Inr (rec\<lparr>sr_body_offset := offset, sr_body_bytes := bytes\<rparr>)))
          else
            rbind (stoull (cols ! 6)) (\<lambda>bytes.
              Inr (rec\<lparr>sr_body_bytes := bytes, sr_body_filename := cols ! 7\<rparr>))))))))"

definition parse_timeline_row :: "bool \<Rightarrow> bool \<Rightarrow> string \<Rightarrow> session_error + replay_entry" where
  "parse_timeline_row packed has_order line =
     (let cols = split_tsv line in
      if length cols < (if has_order then 9 else 8) then Inl MalformedRow
      else rbind
        (if has_order
         then rbind (stoull (hd cols)) (\<lambda>order. parse_timeline_fields packed (tl cols) (Some order))
         else parse_timeline_fields packed cols None)
        (\<lambda>rec. Inr \<lparr>re_record = rec, re_packed_v2 = packed\<rparr>))"

definition load_timeline :: "session_files \<Rightarrow> session_error + replay_entry list" where
  "load_timeline files =
     (case sf_timeline files of
        None \<Rightarrow> Inl CannotOpen
      | Some text \<Rightarrow>
          (let header = read_header text
           in map_result (parse_timeline_row (is_packed_v2 header) (has_ingress_order header))
                (read_rows text)))"

definition parse_supplementary_row :: "string \<Rightarrow> session_error + supplementary_replay_entry" where
  "parse_supplementary_row line =
     (let cols = split_tsv line in
      if length cols < 11 then Inl MalformedRow
      else
        rbind (stoull (cols ! 0)) (\<lambda>order.
        rbind (stoull (cols ! 1)) (\<lambda>sequence.
        rbind (stoull (cols ! 2)) (\<lambda>observed.
        rbind (stoull (cols ! 3)) (\<lambda>persisted.
        rbind (stoull (cols ! 4)) (\<lambda>relative_us.
        rbind (case source_from_string (cols ! 5) of None \<Rightarrow> Inl UnknownSource | Some k \<Rightarrow> Inr k) (\<lambda>source.
        rbind (parse_optional_u64 (cols ! 6)) (\<lambda>revision.
        rbind (parse_optional_int (cols ! 7)) (\<lambda>ct_alive.
        rbind (parse_optional_int (cols ! 8)) (\<lambda>t_alive.
        rbind (parse_optional_int (cols ! 9)) (\<lambda>ct_total.
        rbind (parse_optional_int (cols ! 10)) (\<lambda>t_total.
          let teams = \<lparr>tc_ct_alive = ct_alive, tc_t_alive = t_alive,
                       tc_ct_total = ct_total, tc_t_total = t_total\<rparr>
          in if \<not> valid_team_counts teams then Inl InvalidCounts
             else Inr \<lparr>
               se_record = \<lparr>su_ingress_order = order, su_persist_complete_tick = persisted,
                 su_snapshot = \<lparr>sn_sequence = sequence, sn_observed_tick = observed,
                   sn_relative_us = relative_us, sn_roster_revision = revision,
                   sn_source = Replay, sn_teams = teams\<rparr>\<rparr>,
               se_recorded_source = source\<rparr>))))))))))))"

definition load_supplementary_timeline ::
  "session_files \<Rightarrow> session_error + supplementary_replay_entry list" where
  "load_supplementary_timeline files =
     (case sf_supplementary files of
        None \<Rightarrow> Inr []
      | Some text \<Rightarrow>
          if read_header text \<noteq> supplementary_header then Inl UnsupportedSchema
          else map_result parse_supplementary_row (read_rows text))"

subsection \<open>The merged stream\<close>

datatype replay_payload =
    ReplayGsi replay_entry
  | ReplaySupplementary supplementary_replay_entry

record replay_item =
  ri_ingress_order :: u64
  ri_relative_us :: u64
  ri_payload :: replay_payload

definition gsi_item :: "replay_entry \<Rightarrow> replay_item" where
  "gsi_item entry = \<lparr>ri_ingress_order = sr_ingress_order (re_record entry),
     ri_relative_us = sr_relative_us (re_record entry), ri_payload = ReplayGsi entry\<rparr>"

definition supplementary_item :: "supplementary_replay_entry \<Rightarrow> replay_item" where
  "supplementary_item entry = \<lparr>ri_ingress_order = su_ingress_order (se_record entry),
     ri_relative_us = sn_relative_us (su_snapshot (se_record entry)),
     ri_payload = ReplaySupplementary entry\<rparr>"

definition kind_number :: "replay_payload \<Rightarrow> nat" where
  "kind_number p = (case p of ReplayGsi _ \<Rightarrow> 0 | ReplaySupplementary _ \<Rightarrow> 1)"

text \<open>The comparison given to \<open>std::stable_sort\<close>, and the key it compares.\<close>

definition replay_less :: "replay_item \<Rightarrow> replay_item \<Rightarrow> bool" where
  "replay_less a b =
     (if ri_ingress_order a \<noteq> ri_ingress_order b then ri_ingress_order a < ri_ingress_order b
      else if ri_relative_us a \<noteq> ri_relative_us b then ri_relative_us a < ri_relative_us b
      else kind_number (ri_payload a) < kind_number (ri_payload b))"

definition replay_key :: "replay_item \<Rightarrow> u64 \<times> u64 \<times> nat" where
  "replay_key i = (ri_ingress_order i, ri_relative_us i, kind_number (ri_payload i))"

lemma replay_less_key: "replay_less a b \<longleftrightarrow> replay_key a < replay_key b"
  by (auto simp: replay_less_def replay_key_def less_prod_def)

definition load_replay_stream :: "session_files \<Rightarrow> session_error + replay_item list" where
  "load_replay_stream files =
     rbind (load_timeline files) (\<lambda>gsi.
     rbind (load_supplementary_timeline files) (\<lambda>supplementary.
       Inr (sort_key replay_key (map gsi_item gsi @ map supplementary_item supplementary))))"

definition load_replay_body :: "session_files \<Rightarrow> replay_entry \<Rightarrow> session_error + string" where
  "load_replay_body files entry =
     (if \<not> re_packed_v2 entry then
        (case sf_raw_directory files (sr_body_filename (re_record entry)) of
           None \<Rightarrow> Inl CannotOpen
         | Some text \<Rightarrow> Inr text)
      else
        (case sf_raw_gsi files of
           None \<Rightarrow> Inl CannotOpen
         | Some raw \<Rightarrow>
             (let n = unat (sr_body_bytes (re_record entry));
                  body = take n (drop (unat (sr_body_offset (re_record entry))) raw)
              in if length body \<noteq> n then Inl ShortRead else Inr body)))"

end
