(* ===== verification/Console.thy ===== *)
theory Console
  imports Clock Decimal
begin

text \<open>
  How a \<open>double\<close> is printed: every \<open>operator<<\<close> of the program uses the default format of an
  \<open>ostream\<close>, which is \<open>%g\<close> with six significant digits. The value is rounded to six decimal
  digits (ties to even), printed in fixed or in scientific notation depending on its exponent,
  and trailing zeros are dropped. The program prints only values that are not negative.
\<close>

subsection \<open>Six significant digits\<close>

definition decimal_exponent :: "rat \<Rightarrow> int" where
  "decimal_exponent v =
     (if 1 \<le> v then int (length (int_to_string \<lfloor>v\<rfloor>)) - 1
      else - int (length (int_to_string (\<lceil>1 / v\<rceil> - 1))))"

text \<open>The six digits and the exponent of the first; a carry out of the sixth digit moves it.\<close>

definition six_digits :: "rat \<Rightarrow> int \<times> int" where
  "six_digits v =
     (let e = decimal_exponent v; m = round_half_even (v * 10 powi (5 - e))
      in if m = 1000000 then (100000, e + 1) else (m, e))"

definition strip_zeros :: "string \<Rightarrow> string" where
  "strip_zeros s = rev (dropWhile (\<lambda>c. c = CHR ''0'') (rev s))"

definition with_fraction :: "string \<Rightarrow> string \<Rightarrow> string" where
  "with_fraction whole fraction =
     (let digits = strip_zeros fraction in if digits = [] then whole else whole @ ''.'' @ digits)"

definition show_digits :: "int \<Rightarrow> int \<Rightarrow> string" where
  "show_digits m e =
     (let ds = int_to_string m
      in if -4 \<le> e \<and> e < 6 then
           (if 0 \<le> e then with_fraction (take (nat (e + 1)) ds) (drop (nat (e + 1)) ds)
            else with_fraction ''0'' (replicate (nat (- e - 1)) CHR ''0'' @ ds))
         else
           with_fraction (take 1 ds) (drop 1 ds) @ ''e'' @ (if e < 0 then ''-'' else ''+'')
             @ pad_left 2 (nat_to_string (nat \<bar>e\<bar>)))"

definition show_double :: "rat \<Rightarrow> string" where
  "show_double v = (if v = 0 then ''0'' else case_prod show_digits (six_digits v))"

text \<open>The values of a \<open>double\<close> that a caller of the program can choose.\<close>

datatype double_value = Finite rat | PlusInfinity | MinusInfinity | NaN

definition show_double_value :: "double_value \<Rightarrow> string" where
  "show_double_value v =
     (case v of Finite q \<Rightarrow> show_double q | PlusInfinity \<Rightarrow> ''inf'' | MinusInfinity \<Rightarrow> ''-inf'' | NaN \<Rightarrow> ''nan'')"

text \<open>\<open>relative_us / 1000.0\<close>, as it stands in every line with a session time.\<close>

definition milliseconds :: "u64 \<Rightarrow> rat" where
  "milliseconds us = fl (fl (of_nat (unat us)) / 1000)"

lemma milliseconds_code [code]: "milliseconds us = fl (fl (of_int (uint us)) / 1000)"
  by (simp only: milliseconds_def of_nat_unat_uint)

definition show_ms :: "u64 \<Rightarrow> string" where
  "show_ms us = show_double (milliseconds us)"

subsection \<open>The exponent\<close>

lemma powi10_nat: "(10 :: rat) powi int n = 10 ^ n"
  by simp

lemma powi10_pos [simp]: "0 < (10 :: rat) powi n"
  by (rule zero_less_power_int) simp

lemma powi10_add: "(10 :: rat) powi (m + n) = 10 powi m * 10 powi n"
  by (simp add: power_int_add)

lemma powi10_mono: "m \<le> n \<Longrightarrow> (10 :: rat) powi m \<le> 10 powi n"
  by (rule power_int_increasing) simp_all

lemma digits_of_floor:
  assumes "1 \<le> (v :: rat)"
  shows "10 powi (int (length (nat_to_string (nat \<lfloor>v\<rfloor>))) - 1) \<le> v"
    "v < 10 powi int (length (nat_to_string (nat \<lfloor>v\<rfloor>)))"
proof -
  let ?n = "nat \<lfloor>v\<rfloor>"
  have n: "1 \<le> ?n" using assms by linarith
  have "int (length (nat_to_string ?n)) - 1 = int (length (nat_to_string ?n) - 1)"
    by (simp add: of_nat_diff Suc_leI)
  moreover have "(of_nat (10 ^ (length (nat_to_string ?n) - 1)) :: rat) \<le> of_nat ?n"
    using length_nat_to_string(1) [of ?n] n by (intro of_nat_mono) (simp add: max_def)
  then have "(10 :: rat) ^ (length (nat_to_string ?n) - 1) \<le> of_nat ?n"
    by (simp only: of_nat_power of_nat_numeral)
  moreover have "(of_nat ?n :: rat) \<le> v" using assms by linarith
  ultimately show "10 powi (int (length (nat_to_string ?n)) - 1) \<le> v"
    by (simp only: powi10_nat)
  have "?n + 1 \<le> 10 ^ length (nat_to_string ?n)"
    using length_nat_to_string(2) [of ?n] by linarith
  then have "(of_nat (?n + 1) :: rat) \<le> of_nat (10 ^ length (nat_to_string ?n))" by (rule of_nat_mono)
  moreover have "v < of_nat (?n + 1)" using assms by linarith
  ultimately show "v < 10 powi int (length (nat_to_string ?n))" by (simp only: powi10_nat) simp
qed

lemma decimal_exponent_bounds:
  assumes "0 < v"
  shows "10 powi decimal_exponent v \<le> v" "v < 10 powi (decimal_exponent v + 1)"
proof -
  have "10 powi decimal_exponent v \<le> v \<and> v < 10 powi (decimal_exponent v + 1)"
  proof (cases "1 \<le> v")
    case True
    then have "decimal_exponent v = int (length (nat_to_string (nat \<lfloor>v\<rfloor>))) - 1"
      by (simp add: decimal_exponent_def int_to_string_def)
    then show ?thesis using digits_of_floor [OF True] by simp
  next
    case False
    let ?n = "nat (\<lceil>1 / v\<rceil> - 1)" let ?k = "length (nat_to_string ?n)"
    have "1 < 1 / v" using False assms by simp
    then have n: "1 \<le> ?n" by linarith
    have lower: "of_nat ?n < 1 / v" and upper: "1 / v \<le> of_nat (?n + 1)"
      using n by linarith+
    have "(of_nat (10 ^ (?k - 1)) :: rat) \<le> of_nat ?n"
      using length_nat_to_string(1) [of ?n] n by (intro of_nat_mono) (simp add: max_def)
    then have "(10 :: rat) ^ (?k - 1) \<le> of_nat ?n" by (simp only: of_nat_power of_nat_numeral)
    with lower have a: "10 ^ (?k - 1) < 1 / v" by linarith
    have "?n + 1 \<le> 10 ^ ?k" using length_nat_to_string(2) [of ?n] by linarith
    then have "(of_nat (?n + 1) :: rat) \<le> of_nat (10 ^ ?k)" by (rule of_nat_mono)
    then have "(of_nat (?n + 1) :: rat) \<le> 10 ^ ?k" by (simp only: of_nat_power of_nat_numeral)
    with upper have b: "1 / v \<le> 10 ^ ?k" by linarith
    have "1 / 10 ^ ?k \<le> v" using b assms by (simp add: field_simps)
    moreover have "v < 1 / 10 ^ (?k - 1)" using a assms by (simp add: field_simps)
    moreover have "decimal_exponent v = - int ?k"
      using False assms n by (simp add: decimal_exponent_def int_to_string_def)
    moreover have "- int ?k + 1 = - int (?k - 1)" by (simp add: of_nat_diff Suc_leI)
    moreover have "(10 :: rat) powi (- int ?k) = 1 / 10 ^ ?k" "(10 :: rat) powi (- int (?k - 1)) = 1 / 10 ^ (?k - 1)"
      by (simp_all only: power_int_minus powi10_nat inverse_eq_divide)
    ultimately show ?thesis by (simp only:)
  qed
  then show "10 powi decimal_exponent v \<le> v" "v < 10 powi (decimal_exponent v + 1)" by blast+
qed

lemma decimal_exponent_unique:
  assumes "10 powi e \<le> v" "v < 10 powi (e + 1)"
  shows "decimal_exponent v = e"
proof -
  have pos: "0 < v" using assms(1) powi10_pos [of e] by linarith
  note b = decimal_exponent_bounds [OF pos]
  have "\<not> decimal_exponent v + 1 \<le> e"
    using powi10_mono [of "decimal_exponent v + 1" e] b assms by linarith
  moreover have "\<not> e + 1 \<le> decimal_exponent v"
    using powi10_mono [of "e + 1" "decimal_exponent v"] b assms by linarith
  ultimately show ?thesis by linarith
qed

lemma round_half_even_near:
  assumes "\<bar>x - of_int m\<bar> < 1 / 2"
  shows "round_half_even x = m"
  by (rule round_half_even_nearest) (use assms in \<open>simp add: abs_minus_commute\<close>)

text \<open>
  The six digits of a value near a decimal of six digits: inside half a unit of the sixth
  digit, except below a power of ten, where the unit is ten times smaller.
\<close>

lemma six_digits_eqI:
  assumes near: "\<bar>v * 10 powi (5 - e) - of_int m\<bar> < 1 / 20 \<or>
      (100000 < m \<and> \<bar>v * 10 powi (5 - e) - of_int m\<bar> < 1 / 2)"
    and m: "100000 \<le> m" "m \<le> 999999"
  shows "six_digits v = (m, e)"
proof -
  define w where "w = v * 10 powi (5 - e)"
  have v: "v = w * 10 powi (e - 5)"
    using powi10_add [of "5 - e" "e - 5"] by (simp add: w_def mult.assoc)
  have half: "\<bar>w - of_int m\<bar> < 1 / 2" using near by (auto simp: w_def)
  have mr: "(100000 :: rat) \<le> of_int m" "of_int m \<le> (999999 :: rat)" using m by simp_all
  have shift: "10 powi (5 + i) * (10 :: rat) powi (e - 5) = 10 powi (e + i)" for i
    using powi10_add [of "5 + i" "e - 5"] by (simp add: algebra_simps)
  have above: "10 powi (e + i) \<le> v" if "10 powi (5 + i) \<le> w" for i
    unfolding v shift [symmetric] using that by (rule mult_right_mono) simp
  have below: "v < 10 powi (e + i)" if "w < 10 powi (5 + i)" for i
    unfolding v shift [symmetric] using that by (rule mult_strict_right_mono) simp
  show ?thesis
  proof (cases "100000 \<le> w")
    case True
    have "10 powi e \<le> v" using above [of 0] True by simp
    moreover have "w < 1000000" using half mr by linarith
    then have "v < 10 powi (e + 1)" using below [of 1] by simp
    ultimately have "decimal_exponent v = e" by (rule decimal_exponent_unique)
    with round_half_even_near [OF half] m show ?thesis by (simp add: six_digits_def w_def)
  next
    case False
    have m': "m = 100000"
    proof (rule ccontr)
      assume "m \<noteq> 100000"
      with m have "100001 \<le> m" by simp
      then have "(100001 :: rat) \<le> of_int m" by simp
      with half False show False by linarith
    qed
    with near have close: "\<bar>w - 100000\<bar> < 1 / 20" by (simp add: w_def)
    then have "10000 \<le> w" by linarith
    then have "10 powi (e - 1) \<le> v" using above [of "- 1"] by simp
    moreover have "v < 10 powi (e - 1 + 1)" using below [of 0] False by simp
    ultimately have "decimal_exponent v = e - 1" by (rule decimal_exponent_unique)
    moreover have "v * 10 powi (5 - (e - 1)) = 10 * w"
      using powi10_add [of "5 - e" 1] by (simp add: w_def algebra_simps)
    moreover have "round_half_even (10 * w) = 1000000"
      by (rule round_half_even_near) (use close in linarith)
    ultimately show ?thesis by (simp add: six_digits_def m')
  qed
qed

subsection \<open>Session times in the first second\<close>

text \<open>The milliseconds with up to three decimals.\<close>

definition exact_ms :: "nat \<Rightarrow> string" where
  "exact_ms n = with_fraction (nat_to_string (n div 1000)) (pad_left 3 (nat_to_string (n mod 1000)))"

lemma nat_to_string_times: "0 < n \<Longrightarrow> nat_to_string (n * 10 ^ k) = nat_to_string n @ replicate k CHR ''0''"
proof (induction k)
  case (Suc k)
  have "nat_to_string (n * 10 ^ Suc k) = nat_to_string (n * 10 ^ k) @ [digit_char 0]"
    using Suc.prems by (subst nat_to_string.simps) (simp add: mult.left_commute)
  with Suc show ?case by (simp add: replicate_append_same)
qed simp

lemma nat_to_string_thousands:
  assumes "1000 \<le> n"
  shows "nat_to_string n = nat_to_string (n div 1000) @ pad_left 3 (nat_to_string (n mod 1000))"
proof -
  have unroll: "nat_to_string k = nat_to_string (k div 10) @ [digit_char (k mod 10)]" if "10 \<le> k" for k
    using that by (subst nat_to_string.simps) simp
  have all: "nat_to_string n = nat_to_string (n div 10 div 10 div 10)
      @ [digit_char (n div 10 div 10 mod 10), digit_char (n div 10 mod 10), digit_char (n mod 10)]"
  proof -
    have "10 \<le> n" "10 \<le> n div 10" "10 \<le> n div 10 div 10"
      using assms div_le_mono [OF assms, of 10] div_le_mono [OF div_le_mono [OF assms, of 10], of 10] by simp_all
    then have "nat_to_string n = nat_to_string (n div 10) @ [digit_char (n mod 10)]"
      "nat_to_string (n div 10) = nat_to_string (n div 10 div 10) @ [digit_char (n div 10 mod 10)]"
      "nat_to_string (n div 10 div 10) = nat_to_string (n div 10 div 10 div 10) @ [digit_char (n div 10 div 10 mod 10)]"
      by (simp_all only: unroll)
    then show ?thesis by (simp only: append_assoc append_Cons append_Nil)
  qed
  have two: "replicate 2 c = [c, c]" for c :: char by (simp add: numeral_2_eq_2)
  have three: "pad_left 3 (nat_to_string k) = [digit_char (k div 100), digit_char (k div 10 mod 10), digit_char (k mod 10)]"
    if "k < 1000" for k
  proof -
    consider "k < 10" | "10 \<le> k" "k < 100" | "100 \<le> k" by linarith
    then show ?thesis
    proof cases
      case 1
      then have "nat_to_string k = [digit_char k]" by (subst nat_to_string.simps) simp
      with 1 show ?thesis by (simp add: pad_left_def two)
    next
      case 2
      then have "nat_to_string (k div 10) = [digit_char (k div 10)]"
        by (subst nat_to_string.simps) simp
      then have "nat_to_string k = [digit_char (k div 10), digit_char (k mod 10)]"
        by (simp only: unroll [OF 2(1)] append_Cons append_Nil)
      moreover have "k div 100 = 0" "k div 10 mod 10 = k div 10" using 2 by simp_all
      ultimately show ?thesis by (simp add: pad_left_def)
    next
      case 3
      have "10 \<le> k" "10 \<le> k div 10" "k div 100 < 10" "k div 10 div 10 = k div 100"
        using 3 that div_le_mono [OF 3, of 10] by (simp_all add: div_mult2_eq [symmetric] less_mult_imp_div_less)
      then have "nat_to_string k = nat_to_string (k div 100) @ [digit_char (k div 10 mod 10), digit_char (k mod 10)]"
        by (simp only: unroll append_assoc append_Cons append_Nil)
      moreover have "nat_to_string (k div 100) = [digit_char (k div 100)]"
        using \<open>k div 100 < 10\<close> by (subst nat_to_string.simps) simp
      ultimately show ?thesis by (simp add: pad_left_def)
    qed
  qed
  have mods: "n mod 1000 div 100 = n div 10 div 10 mod 10" "n mod 1000 div 10 mod 10 = n div 10 mod 10"
    "n mod 1000 mod 10 = n mod 10"
  proof -
    have "n mod 1000 = 10 * (n div 10 mod 100) + n mod 10" using mod_mult2_eq [of n 10 100] by simp
    then show "n mod 1000 div 10 mod 10 = n div 10 mod 10" by (simp add: mod_mod_cancel)
    have "n mod 1000 = 100 * (n div 100 mod 10) + n mod 100" using mod_mult2_eq [of n 100 10] by simp
    then show "n mod 1000 div 100 = n div 10 div 10 mod 10" by (simp add: div_mult2_eq [symmetric])
  qed (simp add: mod_mod_cancel)
  from three [of "n mod 1000"] have "pad_left 3 (nat_to_string (n mod 1000))
      = [digit_char (n div 10 div 10 mod 10), digit_char (n div 10 mod 10), digit_char (n mod 10)]"
    using mods by simp
  moreover have "n div 10 div 10 div 10 = n div 1000" by (simp add: div_mult2_eq [symmetric])
  ultimately show ?thesis by (simp only: all append_assoc append_Cons append_Nil)
qed

lemma strip_zeros_append [simp]: "strip_zeros (s @ replicate k CHR ''0'') = strip_zeros s"
  by (simp add: strip_zeros_def dropWhile_append)

lemma strip_zeros_split: "\<exists>k. s = strip_zeros s @ replicate k CHR ''0''"
proof (induction s rule: rev_induct)
  case (snoc c s)
  then obtain k where k: "s = strip_zeros s @ replicate k CHR ''0''" by blast
  show ?case
  proof (cases "c = CHR ''0''")
    case True
    then have "strip_zeros (s @ [c]) = strip_zeros s" by (simp add: strip_zeros_def)
    moreover have "s @ [c] = strip_zeros s @ replicate (Suc k) CHR ''0''"
      using True by (subst k) (simp add: replicate_append_same)
    ultimately show ?thesis by metis
  next
    case False
    then have "s @ [c] = strip_zeros (s @ [c]) @ replicate 0 CHR ''0''" by (simp add: strip_zeros_def)
    then show ?thesis by blast
  qed
qed (simp add: strip_zeros_def)

lemma strip_zeros_inject:
  assumes "strip_zeros s = strip_zeros t" "length s = length t"
  shows "s = t"
proof -
  obtain k l where k: "s = strip_zeros s @ replicate k CHR ''0''" and l: "t = strip_zeros t @ replicate l CHR ''0''"
    using strip_zeros_split by metis
  then have "length s = length (strip_zeros s) + k" "length t = length (strip_zeros t) + l"
    by (metis length_append length_replicate)+
  with assms have "k = l" by simp
  with k l assms(1) show ?thesis by metis
qed

lemma fl_milliseconds:
  assumes "n < 2 ^ 53"
  shows "\<bar>fl (fl (of_nat n) / 1000) - of_nat n / 1000\<bar> \<le> of_nat n / 1000 / 2 ^ 53"
  unfolding fl_of_nat [OF assms] by (rule fl_relative_error) simp

text \<open>The six digits of a session time, from a multiple of ten to a power that is near to it.\<close>

lemma six_digits_milliseconds:
  assumes n: "n < 10 ^ 15" and m: "100000 \<le> m" "m \<le> 999999" and k: "k \<le> 9"
    and exact: "int n * 10 ^ j = m * 10 ^ k \<or> (100000 < m \<and> j = 0 \<and> 2 * \<bar>int n - m * 10 ^ k\<bar> < 10 ^ k)"
  shows "six_digits (fl (fl (of_nat n) / 1000)) = (m, int k - int j + 2)"
proof (rule six_digits_eqI)
  let ?v = "fl (fl (of_nat n) / 1000)" and ?n = "of_nat n :: rat"
  let ?p = "(10 :: rat) powi (5 - (int k - int j + 2))"
  have p: "?p = 10 powi (3 + int j - int k)" by (simp add: algebra_simps)
  also have "\<dots> = 1000 * 10 ^ j / 10 ^ k" by (simp add: power_int_diff power_int_add)
  finally have p: "?p = 1000 * 10 ^ j / 10 ^ k" .
  have "\<bar>?v * ?p - ?n / 1000 * ?p\<bar> = \<bar>?v - ?n / 1000\<bar> * ?p"
    by (simp only: left_diff_distrib [symmetric] abs_mult abs_of_pos [OF powi10_pos])
  also have "\<dots> \<le> ?n / 1000 / 2 ^ 53 * ?p"
    by (rule mult_right_mono) (use fl_milliseconds [of n] n in simp_all)
  also have "\<dots> = ?n * 10 ^ j / 10 ^ k / 2 ^ 53" unfolding p by simp
  finally have err: "\<bar>?v * ?p - ?n * 10 ^ j / 10 ^ k\<bar> \<le> ?n * 10 ^ j / 10 ^ k / 2 ^ 53"
    unfolding p by simp
  show "\<bar>?v * ?p - of_int m\<bar> < 1 / 20 \<or> (100000 < m \<and> \<bar>?v * ?p - of_int m\<bar> < 1 / 2)"
  proof -
    define x where "x = ?n * 10 ^ j / 10 ^ k"
    define y where "y = ?v * ?p"
    define r where "r = (10 :: rat) ^ k"
    have err': "\<bar>y - x\<bar> \<le> x / 2 ^ 53" using err unfolding x_def y_def .
    have r: "1 \<le> r" "r \<le> 10 ^ 9" using power_increasing [OF k, of "10 :: rat"] by (simp_all add: r_def)
    have mr: "of_int m \<le> (999999 :: rat)" using m by simp
    from exact show ?thesis
    proof
      assume "int n * 10 ^ j = m * 10 ^ k"
      then have "?n * 10 ^ j = of_int m * r"
        unfolding r_def by (metis of_int_mult of_int_of_nat_eq of_int_power of_int_numeral)
      then have "x = of_int m" using r by (simp add: x_def r_def [symmetric])
      moreover have "of_int m / 2 ^ 53 \<le> (999999 / 2 ^ 53 :: rat)" using mr by (rule divide_right_mono) simp
      ultimately have "\<bar>y - of_int m\<bar> \<le> 999999 / 2 ^ 53" using err' by simp
      then show ?thesis by (simp add: y_def)
    next
      assume a: "100000 < m \<and> j = 0 \<and> 2 * \<bar>int n - m * 10 ^ k\<bar> < 10 ^ k"
      then have "2 * \<bar>int n - m * 10 ^ k\<bar> + 1 \<le> 10 ^ k" by simp
      then have "of_int (2 * \<bar>int n - m * 10 ^ k\<bar> + 1) \<le> (of_int (10 ^ k) :: rat)" by (simp only: of_int_le_iff)
      then have "2 * \<bar>?n - of_int m * r\<bar> + 1 \<le> r" by (simp add: r_def)
      moreover have "\<bar>x - of_int m\<bar> * r = \<bar>?n - of_int m * r\<bar>"
        using a r by (simp add: x_def r_def [symmetric] abs_mult_pos field_simps)
      ultimately have "(2 * \<bar>x - of_int m\<bar>) * r \<le> r - 1" by simp
      then have "2 * \<bar>x - of_int m\<bar> \<le> (r - 1) / r" using r by (simp add: field_simps)
      also have "\<dots> = 1 - 1 / r" using r by (simp add: field_simps)
      also have "\<dots> \<le> 1 - 1 / 10 ^ 9" using r by (simp add: frac_le)
      finally have near: "2 * \<bar>x - of_int m\<bar> \<le> 1 - 1 / 10 ^ 9" .
      then have "\<bar>x - of_int m\<bar> \<le> 1" by simp
      then have "x - of_int m \<le> 1" by (simp only: abs_le_iff)
      then have "x \<le> 1000000" using mr by linarith
      then have "x / 2 ^ 53 \<le> 1000000 / 2 ^ 53" by (rule divide_right_mono) simp
      with err' have "\<bar>y - x\<bar> \<le> 1000000 / 2 ^ 53" by linarith
      moreover have "\<bar>y - of_int m\<bar> \<le> \<bar>y - x\<bar> + \<bar>x - of_int m\<bar>"
        using abs_triangle_ineq [of "y - x" "x - of_int m"] by simp
      moreover have "1000000 / 2 ^ 53 < (1 / 2 / 10 ^ 9 :: rat)" by simp
      ultimately have "\<bar>y - of_int m\<bar> < 1 / 2" using near by simp
      with a show ?thesis by (simp add: y_def)
    qed
  qed
qed (rule m)+

lemma unat_of_nat_small: "n < 10 ^ 15 \<Longrightarrow> unat (of_nat n :: u64) = n"
  by (simp add: unat_of_nat)

lemma show_ms_digits:
  assumes "0 < n" "n < 10 ^ 15" "six_digits (fl (fl (of_nat n) / 1000)) = (m, e)"
  shows "show_ms (of_nat n) = show_digits m e"
proof -
  have ms: "milliseconds (of_nat n) = fl (fl (of_nat n) / 1000)"
    by (simp only: milliseconds_def unat_of_nat_small [OF assms(2)])
  have "fl (fl (of_nat n) / 1000) \<noteq> (0 :: rat)"
  proof
    assume zero: "fl (fl (of_nat n) / 1000) = (0 :: rat)"
    have "\<bar>0 - of_nat n / 1000\<bar> \<le> (of_nat n / 1000 / 2 ^ 53 :: rat)"
      using fl_milliseconds [of n] assms(2) unfolding zero by simp
    then show False using assms(1) by simp
  qed
  with assms(3) show ?thesis by (simp add: show_ms_def show_double_def ms)
qed

lemma with_fraction_append: "with_fraction whole (f @ replicate k CHR ''0'') = with_fraction whole f"
  by (simp add: with_fraction_def)

lemma short_thousandth: "length (nat_to_string (i mod 1000)) \<le> 3"
proof (rule ccontr)
  assume "\<not> ?thesis"
  then have "(10 :: nat) ^ 3 \<le> 10 ^ (length (nat_to_string (i mod 1000)) - 1)"
    by (intro power_increasing) simp_all
  also have "\<dots> \<le> max 1 (i mod 1000)" by (rule length_nat_to_string)
  also have "\<dots> < 1000" by (simp add: max_def)
  finally show False by simp
qed

lemma exact_ms_inject: "exact_ms k = exact_ms n \<longleftrightarrow> k = n"
proof
  assume eq: "exact_ms k = exact_ms n"
  have dot: "CHR ''.'' \<notin> set (nat_to_string i)" for i
    using nat_to_string_digits [of "CHR ''.''" i] by (auto simp: is_digit_def)
  have whole: "takeWhile (\<lambda>c. c \<noteq> CHR ''.'') (exact_ms i) = nat_to_string (i div 1000)" for i
    using dot [of "i div 1000"] by (auto simp: exact_ms_def with_fraction_def Let_def takeWhile_append takeWhile_eq_all_conv)
  have fraction: "drop (length (nat_to_string (i div 1000)) + 1) (exact_ms i) = strip_zeros (pad_left 3 (nat_to_string (i mod 1000)))" for i
    by (simp add: exact_ms_def with_fraction_def Let_def)
  have div: "k div 1000 = n div 1000" using whole [of k] whole [of n] eq by simp
  have "strip_zeros (pad_left 3 (nat_to_string (k mod 1000))) = strip_zeros (pad_left 3 (nat_to_string (n mod 1000)))"
    using fraction [of k] fraction [of n] eq div by simp
  moreover have "length (pad_left 3 (nat_to_string (k mod 1000))) = length (pad_left 3 (nat_to_string (n mod 1000)))"
    using short_thousandth [of k] short_thousandth [of n] by (simp add: pad_left_def)
  ultimately have "pad_left 3 (nat_to_string (k mod 1000)) = pad_left 3 (nat_to_string (n mod 1000))"
    by (rule strip_zeros_inject)
  then have "digits_value (pad_left 3 (nat_to_string (k mod 1000))) = digits_value (pad_left 3 (nat_to_string (n mod 1000)))"
    by simp
  then have "k mod 1000 = n mod 1000" by (simp only: digits_value_pad_left digits_value_nat_to_string)
  with div show "k = n" by (metis div_mod_decomp)
qed simp

lemma show_digits_exact_ms:
  assumes "0 < n" "length (nat_to_string n) \<le> 6"
  shows "show_digits (int (n * 10 ^ (6 - length (nat_to_string n)))) (int (length (nat_to_string n)) - 4) = exact_ms n"
proof (cases "1000 \<le> n")
  case True
  let ?w = "nat_to_string (n div 1000)" and ?f = "pad_left 3 (nat_to_string (n mod 1000))"
  let ?z = "replicate (6 - length (nat_to_string n)) CHR ''0''"
  have f: "length ?f = 3" using short_thousandth [of n] by (simp add: pad_left_def)
  have len: "length (nat_to_string n) = length ?w + 3"
    using f by (subst nat_to_string_thousands [OF True]) simp
  have "nat_to_string (n * 10 ^ (6 - length (nat_to_string n))) = ?w @ ?f @ ?z"
    by (simp only: nat_to_string_times [OF assms(1)]) (subst nat_to_string_thousands [OF True], simp)
  moreover have "0 < length ?w" by simp
  ultimately show ?thesis
    using assms(2) len
    by (simp add: show_digits_def int_to_string_def exact_ms_def with_fraction_append Let_def del: of_nat_mult of_nat_power)
next
  case False
  let ?d = "length (nat_to_string n)"
  have "?d \<le> 3" using False short_thousandth [of n] by simp
  moreover have "0 < ?d" by simp
  moreover have "nat_to_string 0 = ''0''" by code_simp
  moreover have "nat (3 - int ?d) = 3 - ?d" by linarith
  ultimately show ?thesis
    using False assms(1)
    by (simp add: show_digits_def int_to_string_def exact_ms_def nat_to_string_times pad_left_def with_fraction_append Let_def
        append_assoc [symmetric] del: of_nat_mult of_nat_power append_assoc)
qed

text \<open>
  C39: A session time below one second is printed exactly: the text is the milliseconds with
  up to three decimals, so that two different times have two different texts. The two
  roundings of the \<open>double\<close> computation and the rounding to six digits do not show.
\<close>

theorem times_exact_in_first_second:
  assumes "n < 1000000"
  shows "show_ms (of_nat n) = exact_ms n \<and> (\<forall>k. exact_ms k = exact_ms n \<longleftrightarrow> k = n)"
proof (cases "n = 0")
  case True
  have "show_ms 0 = exact_ms 0" by code_simp
  with True show ?thesis by (simp add: exact_ms_inject)
next
  case False
  define d where "d = length (nat_to_string n)"
  have small: "n < 10 ^ 15" using assms by simp
  have d: "10 ^ (d - 1) \<le> n" "n < 10 ^ d" "0 < d"
    using length_nat_to_string [of n] False by (simp_all add: d_def max_def)
  have "d - 1 < 6"
  proof (rule ccontr)
    assume "\<not> d - 1 < 6"
    then have "(10 :: nat) ^ 6 \<le> 10 ^ (d - 1)" by (intro power_increasing) simp_all
    with d(1) assms show False by simp
  qed
  then have d6: "d \<le> 6" by simp
  have m: "100000 \<le> int (n * 10 ^ (6 - d))" "int (n * 10 ^ (6 - d)) \<le> 999999"
  proof -
    have "(10 :: nat) ^ (d - 1) * 10 ^ (6 - d) \<le> n * 10 ^ (6 - d)" "n * 10 ^ (6 - d) < 10 ^ d * 10 ^ (6 - d)"
      using d by simp_all
    moreover have "(10 :: nat) ^ (d - 1) * 10 ^ (6 - d) = 100000" "(10 :: nat) ^ d * 10 ^ (6 - d) = 1000000"
      using d6 d(3) by (simp_all only: power_add [symmetric]) simp_all
    ultimately have "100000 \<le> n * 10 ^ (6 - d)" "n * 10 ^ (6 - d) < 1000000" by (simp_all only:)
    then show "100000 \<le> int (n * 10 ^ (6 - d))" "int (n * 10 ^ (6 - d)) \<le> 999999" by linarith+
  qed
  have "six_digits (fl (fl (of_nat n) / 1000)) = (int (n * 10 ^ (6 - d)), int 0 - int (6 - d) + 2)"
    by (rule six_digits_milliseconds) (use small m in simp_all)
  then have "show_ms (of_nat n) = show_digits (int (n * 10 ^ (6 - d))) (int d - 4)"
    using show_ms_digits [OF _ small] False d6 by (simp add: of_nat_diff)
  also have "\<dots> = exact_ms n"
    unfolding d_def by (rule show_digits_exact_ms) (use False d6 in \<open>simp_all add: d_def\<close>)
  finally show ?thesis by (simp add: exact_ms_inject)
qed

theorem times_exact_in_first_second_witness:
  "show_ms 2490 = ''2.49'' \<and> show_ms 2491 \<noteq> show_ms 2490"
proof -
  have "exact_ms 2490 = ''2.49''" by code_simp
  then show ?thesis
    using times_exact_in_first_second [of 2490] times_exact_in_first_second [of 2491] by simp
qed

text \<open>
  Later the text has six significant digits and no more: all times within half a unit of the
  sixth digit print the same text, so that \<open>10\<^sup>k\<close> microseconds cannot be told apart.
\<close>

theorem later_times_share_their_text:
  assumes "100000 < m" "m \<le> 999999" "k \<le> 9" "2 * \<bar>int n - m * 10 ^ k\<bar> < 10 ^ k"
  shows "show_ms (of_nat n) = show_digits m (int k + 2)"
proof -
  have between: "a < p \<and> - a < p" if "2 * \<bar>a\<bar> < p" for a p :: int using that by arith
  have "m * 10 ^ k \<le> 999999 * 10 ^ k" using assms(2) by simp
  moreover have "int n - m * 10 ^ k < 10 ^ k" "m * 10 ^ k - int n < 10 ^ k"
    using between [OF assms(4)] by simp_all
  ultimately have "int n < 1000000 * 10 ^ k" by linarith
  also have "\<dots> \<le> 1000000 * 10 ^ 9"
    by (rule mult_left_mono) (use power_increasing [OF assms(3), of "10 :: int"] in simp_all)
  finally have small: "n < 10 ^ 15" by simp
  have "(1 :: int) * 10 ^ k \<le> m * 10 ^ k" using assms(1) by (intro mult_right_mono) simp_all
  then have "0 < n" using assms(4) by (intro gr0I) simp
  moreover have "six_digits (fl (fl (of_nat n) / 1000)) = (m, int k - int 0 + 2)"
    by (rule six_digits_milliseconds) (use assms small in simp_all)
  ultimately show ?thesis using show_ms_digits [OF _ small] by simp
qed

text \<open>Forty minutes into a session, times up to five milliseconds apart.\<close>

theorem later_times_share_their_text_witness:
  "show_ms 2400010000 = ''2.40001e+06'' \<and> show_ms 2400014999 = ''2.40001e+06''"
proof -
  have printed: "show_digits 240001 6 = ''2.40001e+06''" by code_simp
  have "show_ms (of_nat 2400010000) = show_digits 240001 (int 4 + 2)"
    by (rule later_times_share_their_text) simp_all
  moreover have "show_ms (of_nat 2400014999) = show_digits 240001 (int 4 + 2)"
    by (rule later_times_share_their_text) simp_all
  ultimately show ?thesis by (simp add: printed)
qed

end
