(* ===== verification/Cli.thy ===== *)
theory Cli
  imports Edition Live_Pipeline Replay Console
begin

text \<open>
  The commands of \<open>src/main.cpp\<close>: the arguments, the choice of the command, the loop of \<open>analyze\<close>
  and the pacing of \<open>replay\<close>. What is printed is kept as a list of lines in which a number of
  milliseconds is still the \<open>relative_us\<close> it is printed from; \<open>Program\<close> renders them.
\<close>

subsection \<open>analyze\<close>

datatype analyze_line =
    BatchGsiLine u64 u64 u64 string
  | BatchSupplementLine u64 u64 u64 string
  | EventLine string
  | SummaryLine nat nat nat nat
  | CountLine string nat

record analysis =
  an_detector :: detector
  an_resolver :: resolver
  an_counts :: "event_type \<Rightarrow> nat"
  an_invalid_payloads :: nat
  an_gsi_snapshots :: nat
  an_supplementary_snapshots :: nat
  an_events :: "event list"
  an_lines :: "analyze_line list"

definition init_analysis :: analysis where
  "init_analysis = \<lparr>an_detector = init_detector, an_resolver = init_resolver default_config,
     an_counts = (\<lambda>_. 0), an_invalid_payloads = 0, an_gsi_snapshots = 0,
     an_supplementary_snapshots = 0, an_events = [], an_lines = []\<rparr>"

text \<open>The loop over the events of one batch.\<close>

definition count_events :: "analysis \<Rightarrow> event list \<Rightarrow> analysis" where
  "count_events an events = an\<lparr>
     an_counts := fold (\<lambda>e counts. counts(ev_type e := counts (ev_type e) + 1)) events (an_counts an),
     an_events := an_events an @ events,
     an_lines := an_lines an @ map (\<lambda>e. EventLine (describe_event e)) events\<rparr>"

definition analyze_gsi :: "analysis \<Rightarrow> replay_entry \<Rightarrow> string \<Rightarrow> analysis" where
  "analyze_gsi an entry body =
     (let rec = re_record entry;
          st = normalize_gsi body (sr_sequence rec) (sr_relative_us rec);
          an1 = an\<lparr>an_gsi_snapshots := an_gsi_snapshots an + 1\<rparr>
      in if \<not> gs_payload_valid st then an1\<lparr>an_invalid_payloads := an_invalid_payloads an1 + 1\<rparr>
         else
           (let (factual, detector) = process (an_detector an1) st;
                (semantic, resolver) = process_gsi (an_resolver an1) st factual;
                events = factual @ semantic;
                an2 = an1\<lparr>an_detector := detector, an_resolver := resolver,
                  an_lines := an_lines an1 @
                    (if events \<noteq> []
                     then [BatchGsiLine (gs_sequence st) (sr_ingress_order rec) (gs_relative_us st)
                             (lifecycle_to_string (cx_lifecycle (rs_context resolver)))]
                     else [])\<rparr>
            in count_events an2 events))"

definition analyze_supplementary :: "analysis \<Rightarrow> supplementary_replay_entry \<Rightarrow> analysis" where
  "analyze_supplementary an entry =
     (let rec = se_record entry; sn = su_snapshot rec;
          an1 = an\<lparr>an_supplementary_snapshots := an_supplementary_snapshots an + 1\<rparr>;
          (events, resolver) = process_supplementary (an_resolver an1) sn;
          an2 = an1\<lparr>an_resolver := resolver,
            an_lines := an_lines an1 @
              (if events \<noteq> []
               then [BatchSupplementLine (sn_sequence sn) (su_ingress_order rec) (sn_relative_us sn)
                       (source_to_string (se_recorded_source entry))]
               else [])\<rparr>
      in count_events an2 events)"

definition analyze_item :: "session_files \<Rightarrow> analysis \<Rightarrow> replay_item \<Rightarrow> session_error + analysis" where
  "analyze_item files an item =
     (case ri_payload item of
        ReplayGsi entry \<Rightarrow> rbind (load_replay_body files entry) (\<lambda>body. Inr (analyze_gsi an entry body))
      | ReplaySupplementary entry \<Rightarrow> Inr (analyze_supplementary an entry))"

fun analyze_loop :: "session_files \<Rightarrow> analysis \<Rightarrow> replay_item list \<Rightarrow> session_error + analysis" where
  "analyze_loop files an [] = Inr an"
| "analyze_loop files an (item # items) =
     rbind (analyze_item files an item) (\<lambda>an'. analyze_loop files an' items)"

text \<open>The constructors in the order of the enumeration, in which \<open>std::map\<close> lists the counts.\<close>

definition all_event_types :: "event_type list" where
  "all_event_types = [MatchEntered, MatchLeft, FreezeStarted, FreezeEnded, RoundStarted, RoundEnded,
     RoundWon, RoundLost, TeamChanged, LocalPlayerAcquired, LocalPlayerLost, LocalPlayerRestored,
     PlayerRespawned, PlayerDamaged, PlayerDied, PlayerKill, PlayerHeadshotKill, PlayerAssist,
     PlayerFlashed, PlayerSmoked, PlayerBurning, AceCandidate, Ace, ClutchStarted, ClutchUpdated,
     ClutchEnded, MvpGained, BombPlanted, BombDefused, BombExploded, BombStateCleared,
     HalftimeStarted, HalftimeEnded, GameOver]"

definition analyze_summary :: "nat \<Rightarrow> analysis \<Rightarrow> analyze_line list" where
  "analyze_summary observations an =
     SummaryLine observations (an_gsi_snapshots an) (an_supplementary_snapshots an) (an_invalid_payloads an)
     # map (\<lambda>ty. CountLine (event_type_to_string ty) (an_counts an ty))
         (filter (\<lambda>ty. an_counts an ty \<noteq> 0) all_event_types)"

definition analyze_session :: "session_files \<Rightarrow> session_error + analysis" where
  "analyze_session files =
     rbind (load_replay_stream files) (\<lambda>stream.
     rbind (analyze_loop files init_analysis stream) (\<lambda>an.
       Inr (an\<lparr>an_lines := an_lines an @ analyze_summary (length stream) an\<rparr>)))"

definition analyze_exit :: "analysis \<Rightarrow> int" where
  "analyze_exit an = (if an_invalid_payloads an = 0 then 0 else 3)"

subsection \<open>replay\<close>

text \<open>
  The pacing of \<open>replay\<close>: the clock only moves forward, a delayed observation is printed at
  once, and each difference is divided by the speed in \<open>double\<close> arithmetic.
\<close>

definition replay_delta :: "u64 \<Rightarrow> replay_item \<Rightarrow> u64" where
  "replay_delta clock_us item =
     (if ri_relative_us item > clock_us then ri_relative_us item - clock_us else 0)"

definition replay_clock :: "u64 \<Rightarrow> replay_item \<Rightarrow> u64" where
  "replay_clock clock_us item =
     (if ri_relative_us item > clock_us then ri_relative_us item else clock_us)"

text \<open>
  The cast of the quotient to an integer is defined when the quotient is below \<open>2\<^sup>6\<^sup>4\<close>; \<open>None\<close>
  stands for the undefined cast. The quotient by an infinite speed is zero. The value is what the
  cast gives; \<open>std::chrono::microseconds\<close> holds it as a signed 64-bit number, so a pause of \<open>2\<^sup>6\<^sup>3\<close>
  microseconds or more would be taken for a negative one, which the model does not follow.
\<close>

definition scaled_delay :: "double_value \<Rightarrow> u64 \<Rightarrow> u64 option" where
  "scaled_delay speed delta_us =
     (case speed of
        Finite q \<Rightarrow>
          (let scaled = fl (fl (of_nat (unat delta_us)) / q)
           in if scaled < 2 ^ 64 then Some (word_of_int \<lfloor>scaled\<rfloor>) else None)
      | NaN \<Rightarrow> None
      | _ \<Rightarrow> Some 0)"

text \<open>
  What \<open>replay\<close> does to the outside: it prints and it sleeps. After an undefined cast the lines are
  those of a system that takes it for some number.
\<close>

datatype replay_line =
    NoObservations
  | ReplayHeader nat nat nat double_value
  | SleepFor "u64 option"
  | ReplayGsiLine u64 u64 u64 u64
  | DumpedBody string
  | ReplaySupplementLine u64 u64 u64 string string string string string "u64 option"

definition optional_count :: "i32 option \<Rightarrow> string" where
  "optional_count v = (case v of None \<Rightarrow> ''?'' | Some i \<Rightarrow> int_to_string i)"

definition is_gsi_item :: "replay_item \<Rightarrow> bool" where
  "is_gsi_item item = (case ri_payload item of ReplayGsi _ \<Rightarrow> True | ReplaySupplementary _ \<Rightarrow> False)"

definition show_item ::
  "session_files \<Rightarrow> bool \<Rightarrow> replay_item \<Rightarrow> replay_line list \<times> session_error option" where
  "show_item files dump item =
     (case ri_payload item of
        ReplayGsi entry \<Rightarrow>
          (let rec = re_record entry;
               line = ReplayGsiLine (sr_sequence rec) (sr_ingress_order rec) (sr_relative_us rec) (sr_body_bytes rec)
           in if dump then
                (case load_replay_body files entry of
                   Inl e \<Rightarrow> ([line], Some e)
                 | Inr body \<Rightarrow> ([line, DumpedBody body], None))
              else ([line], None))
      | ReplaySupplementary entry \<Rightarrow>
          (let rec = se_record entry; sn = su_snapshot rec; teams = sn_teams sn in
           ([ReplaySupplementLine (sn_sequence sn) (su_ingress_order rec) (sn_relative_us sn)
               (source_to_string (se_recorded_source entry))
               (optional_count (tc_ct_alive teams)) (optional_count (tc_ct_total teams))
               (optional_count (tc_t_alive teams)) (optional_count (tc_t_total teams))
               (sn_roster_revision sn)], None)))"

text \<open>The loop from its second turn on; a body that cannot be loaded ends it.\<close>

fun replay_rest ::
  "session_files \<Rightarrow> bool \<Rightarrow> double_value \<Rightarrow> u64 \<Rightarrow> replay_item list \<Rightarrow> replay_line list \<times> session_error option" where
  "replay_rest files dump speed clock_us [] = ([], None)"
| "replay_rest files dump speed clock_us (item # items) =
     (let (lines, err) = show_item files dump item;
          pause = SleepFor (scaled_delay speed (replay_delta clock_us item))
      in case err of
           Some e \<Rightarrow> (pause # lines, Some e)
         | None \<Rightarrow>
             (let (more, err') = replay_rest files dump speed (replay_clock clock_us item) items
              in (pause # lines @ more, err')))"

definition replay_output ::
  "session_files \<Rightarrow> bool \<Rightarrow> double_value \<Rightarrow> replay_item list \<Rightarrow> replay_line list \<times> session_error option" where
  "replay_output files dump speed stream =
     (case stream of
        [] \<Rightarrow> ([NoObservations], None)
      | item # items \<Rightarrow>
          (let header = ReplayHeader (length stream) (length (filter is_gsi_item stream))
                 (length (filter (\<lambda>i. \<not> is_gsi_item i) stream)) speed;
               (lines, err) = show_item files dump item
           in case err of
                Some e \<Rightarrow> (header # lines, Some e)
              | None \<Rightarrow>
                  (let (more, err') = replay_rest files dump speed (ri_relative_us item) items
                   in (header # lines @ more, err'))))"

subsection \<open>The command line\<close>

datatype cli_error =
    MissingSession
  | PortOutOfRange
  | SpeedNotPositive
  | BadArgument session_error
  | SessionFailure session_error

definition parse_port :: "string list \<Rightarrow> cli_error + i32" where
  "parse_port argv =
     (if length argv < 3 then Inr 3010
      else (case stoi (argv ! 2) of
              Inl e \<Rightarrow> Inl (BadArgument e)
            | Inr parsed \<Rightarrow> if parsed < 1 \<or> parsed > 65535 then Inl PortOutOfRange else Inr parsed))"

text \<open>
  \<open>std::stod\<close> is a parameter; the speed is tested before the session is read. What has been
  printed stays printed when an exception ends the command.
\<close>

definition not_positive :: "double_value \<Rightarrow> bool" where
  "not_positive speed =
     (case speed of Finite q \<Rightarrow> q \<le> 0 | MinusInfinity \<Rightarrow> True | PlusInfinity \<Rightarrow> False | NaN \<Rightarrow> False)"

definition replay_speed :: "(string \<Rightarrow> session_error + double_value) \<Rightarrow> string list \<Rightarrow> cli_error + double_value" where
  "replay_speed stod argv =
     (if length argv \<ge> 4 then
        (case stod (argv ! 3) of
           Inl e \<Rightarrow> Inl (BadArgument e)
         | Inr speed \<Rightarrow> if not_positive speed then Inl SpeedNotPositive else Inr speed)
      else Inr (Finite 1))"

definition command_replay ::
  "(string \<Rightarrow> session_error + double_value) \<Rightarrow> (string \<Rightarrow> session_files) \<Rightarrow> string list
     \<Rightarrow> replay_line list \<times> (cli_error + int)" where
  "command_replay stod session_at argv =
     (if length argv < 3 then ([], Inl MissingSession)
      else
        (case replay_speed stod argv of
           Inl e \<Rightarrow> ([], Inl e)
         | Inr speed \<Rightarrow>
             (let files = session_at (argv ! 2); dump = length argv \<ge> 5 \<and> argv ! 4 = ''dump''
              in case load_replay_stream files of
                   Inl e \<Rightarrow> ([], Inl (SessionFailure e))
                 | Inr stream \<Rightarrow>
                     (case replay_output files dump speed stream of
                        (lines, Some e) \<Rightarrow> (lines, Inl (SessionFailure e))
                      | (lines, None) \<Rightarrow> (lines, Inr 0)))))"

text \<open>The lines of \<open>clock\<close>, given the tick of the moment.\<close>

definition clock_lines :: "clock_info \<Rightarrow> u64 \<Rightarrow> string list" where
  "clock_lines info now =
     [''Clock: '' @ ci_name info,
      ''Frequency: '' @ u64_to_string (ci_frequency info) @ '' ticks/sec'',
      ''Current tick: '' @ u64_to_string now]"

definition usage_lines :: "string \<Rightarrow> edition_descriptor \<Rightarrow> string list" where
  "usage_lines version edition =
     (let exe = ed_executable_name edition in
      [ed_display_name edition @ '' '' @ version, [], ''Usage:'',
       ''  '' @ exe @ '' status'',
       ''  '' @ exe @ '' record [port] [sessions-dir]'',
       ''  '' @ exe @ '' replay <session-dir> [speed] [dump]'',
       ''  '' @ exe @ '' analyze <session-dir>'',
       ''  '' @ exe @ '' clock'', [], ''Examples:'',
       ''  '' @ exe @ '' status'',
       ''  '' @ exe @ '' record 3010 sessions'',
       ''  '' @ exe @ '' replay sessions/session_20260822_110000 10'',
       ''  '' @ exe @ '' analyze sessions/session_20260822_110000''])"

text \<open>
  \<open>main\<close>: which command runs; without a command the usage is printed and the exit code is 0.
\<close>

datatype command = UsageCommand int | StatusCommand | RecordCommand | ReplayCommand | AnalyzeCommand | ClockCommand

definition select_command :: "string list \<Rightarrow> command" where
  "select_command argv =
     (if length argv < 2 then UsageCommand 0
      else if argv ! 1 = ''status'' then StatusCommand
      else if argv ! 1 = ''record'' then RecordCommand
      else if argv ! 1 = ''replay'' then ReplayCommand
      else if argv ! 1 = ''analyze'' then AnalyzeCommand
      else if argv ! 1 = ''clock'' then ClockCommand
      else UsageCommand 1)"

text \<open>The lines of \<open>status\<close>.\<close>

definition capability_lines :: "string \<Rightarrow> capability \<Rightarrow> string list" where
  "capability_lines label capabilities =
     (let entries = map (\<lambda>d. ''  - '' @ cd_id d @ '': '' @ cd_description d)
            (filter (\<lambda>d. has_capability capabilities (cd_capability d)) capability_catalog)
      in (label @ '':'') # (if entries = [] then [''  - none''] else entries))"

definition provider_lines :: "provider_descriptor \<Rightarrow> string list" where
  "provider_lines p =
     [''  ['' @ status_to_string (pd_status p) @ ''] '' @ pd_id p @ '' - '' @ pd_display_name p
        @ (if pd_required p then '' (required)'' else []),
      ''      '' @ pd_note p]"

definition status_lines :: "string \<Rightarrow> edition_descriptor \<Rightarrow> string list" where
  "status_lines version edition =
     [ed_display_name edition @ '' '' @ version,
      ''Edition: '' @ ed_id edition,
      ''Executable: '' @ ed_executable_name edition,
      [],
      ''Providers:'']
     @ concat (map provider_lines (ed_providers edition))
     @ [[]]
     @ capability_lines ''Active capabilities'' (active_capabilities edition)
     @ (if ed_kind edition = EditionExtended then
          [[]] @ capability_lines ''Extended capability targets'' (potential_capabilities edition)
          @ [[], ''Planned/research providers do not contribute live evidence until their ''
                 @ ''external bridge is implemented and validated.'']
        else [])"

subsection \<open>Facts\<close>

lemma all_event_types_complete: "set all_event_types = UNIV" "distinct all_event_types"
proof -
  show "set all_event_types = UNIV"
  proof (rule UNIV_eq_I [symmetric])
    fix ty show "ty \<in> set all_event_types" by (cases ty) (simp_all add: all_event_types_def)
  qed
  show "distinct all_event_types" by (simp add: all_event_types_def)
qed

text \<open>The order of the enumeration, in which \<open>std::map\<close> keeps its keys.\<close>

definition event_index :: "event_type \<Rightarrow> nat" where
  "event_index ty = length (takeWhile (\<lambda>u. u \<noteq> ty) all_event_types)"

lemma event_index_nth: "all_event_types ! event_index ty = ty"
proof -
  have "ty \<in> set all_event_types" by (simp add: all_event_types_complete)
  then obtain us vs where split: "all_event_types = us @ ty # vs" "ty \<notin> set us"
    by (meson split_list_first)
  have "takeWhile (\<lambda>u. u \<noteq> ty) all_event_types = us"
    unfolding split(1) using split(2) by (induction us) auto
  moreover have "all_event_types ! length us = ty" unfolding split(1) by simp
  ultimately show ?thesis by (simp add: event_index_def)
qed

lemma event_index_inject: "event_index a = event_index b \<longleftrightarrow> a = b"
  by (metis event_index_nth)

instantiation event_type :: linorder
begin

definition less_eq_event_type :: "event_type \<Rightarrow> event_type \<Rightarrow> bool" where
  "less_eq_event_type a b \<longleftrightarrow> event_index a \<le> event_index b"

definition less_event_type :: "event_type \<Rightarrow> event_type \<Rightarrow> bool" where
  "less_event_type a b \<longleftrightarrow> event_index a < event_index b"

instance
  by standard (auto simp: less_eq_event_type_def less_event_type_def event_index_inject [symmetric])

end

lemma all_event_types_sorted: "sorted all_event_types"
proof -
  have "map event_index all_event_types = [0..<length all_event_types]" by code_simp
  then have "sorted_wrt (\<lambda>a b. event_index a \<le> event_index b) all_event_types"
    by (metis sorted_map sorted_upt)
  then show ?thesis
    by (rule sorted_wrt_mono_rel [rotated]) (simp add: less_eq_event_type_def)
qed

text \<open>The types that are printed are the keys of the map in its order.\<close>

lemma printed_types:
  "filter (\<lambda>ty. counts ty \<noteq> 0) all_event_types = sorted_list_of_set {ty. counts ty \<noteq> 0}"
proof (rule sorted_distinct_set_unique)
  have "finite {ty. counts ty \<noteq> 0}"
    by (rule finite_subset [of _ "set all_event_types"])
      (simp only: all_event_types_complete subset_UNIV, rule finite_set)
  then show "set (filter (\<lambda>ty. counts ty \<noteq> 0) all_event_types) = set (sorted_list_of_set {ty. counts ty \<noteq> 0})"
    by (simp add: all_event_types_complete)
  show "sorted (filter (\<lambda>ty. counts ty \<noteq> 0) all_event_types)"
    by (rule sorted_wrt_filter) (rule all_event_types_sorted)
  show "distinct (filter (\<lambda>ty. counts ty \<noteq> 0) all_event_types)"
    by (simp add: all_event_types_complete)
qed simp_all

definition counts_agree :: "analysis \<Rightarrow> bool" where
  "counts_agree an \<longleftrightarrow>
     (\<forall>ty. an_counts an ty = length (of_type ty (an_events an)))"

lemma fold_counts:
  "fold (\<lambda>e counts. counts(ev_type e := Suc (counts (ev_type e)))) es c ty
   = c ty + length (of_type ty es)"
  by (induction es arbitrary: c) auto

lemma counts_agree_events: "counts_agree an \<Longrightarrow> counts_agree (count_events an es)"
  by (simp add: counts_agree_def count_events_def fold_counts)

lemma analyze_item_counts:
  assumes "analyze_item files an item = Inr an'" "counts_agree an"
  shows "counts_agree an'"
proof (cases "ri_payload item")
  case (ReplayGsi entry)
  with assms show ?thesis
    by (auto simp: analyze_item_def rbind_Inr analyze_gsi_def Let_def case_prod_beta
        intro!: counts_agree_events split: if_splits) (auto simp: counts_agree_def)
next
  case (ReplaySupplementary entry)
  with assms show ?thesis
    by (auto simp: analyze_item_def analyze_supplementary_def Let_def case_prod_beta
        intro!: counts_agree_events) (auto simp: counts_agree_def)
qed

lemma analyze_loop_counts:
  "analyze_loop files an items = Inr an' \<Longrightarrow> counts_agree an \<Longrightarrow> counts_agree an'"
  by (induction files an items rule: analyze_loop.induct) (auto simp: rbind_Inr dest: analyze_item_counts)

text \<open>Every item is counted as what it is.\<close>

lemma analyze_loop_tally:
  "analyze_loop files an items = Inr an' \<Longrightarrow>
   an_gsi_snapshots an' = an_gsi_snapshots an + length (filter (\<lambda>i. \<exists>e. ri_payload i = ReplayGsi e) items)
   \<and> an_supplementary_snapshots an' = an_supplementary_snapshots an
       + length (filter (\<lambda>i. \<exists>e. ri_payload i = ReplaySupplementary e) items)
   \<and> an_invalid_payloads an' \<le> an_invalid_payloads an
       + length (filter (\<lambda>i. \<exists>e. ri_payload i = ReplayGsi e) items)"
proof (induction files an items rule: analyze_loop.induct)
  case (2 files an item items)
  from "2.prems" obtain an1 where an1: "analyze_item files an item = Inr an1"
    and rest: "analyze_loop files an1 items = Inr an'" by (auto simp: rbind_Inr)
  show ?case
  proof (cases "ri_payload item")
    case (ReplayGsi entry)
    with an1 have "an_gsi_snapshots an1 = an_gsi_snapshots an + 1"
      "an_supplementary_snapshots an1 = an_supplementary_snapshots an"
      "an_invalid_payloads an1 \<le> an_invalid_payloads an + 1"
      by (auto simp: analyze_item_def rbind_Inr analyze_gsi_def Let_def case_prod_beta count_events_def)
    with "2.IH" [OF rest] ReplayGsi show ?thesis by simp
  next
    case (ReplaySupplementary entry)
    with an1 have "an_gsi_snapshots an1 = an_gsi_snapshots an"
      "an_supplementary_snapshots an1 = an_supplementary_snapshots an + 1"
      "an_invalid_payloads an1 = an_invalid_payloads an"
      by (auto simp: analyze_item_def analyze_supplementary_def Let_def case_prod_beta count_events_def)
    with "2.IH" [OF rest] ReplaySupplementary show ?thesis by simp
  qed
qed simp

end
