(* ===== verification/Replay_Facts.thy ===== *)
theory Replay_Facts
  imports Replay Recorder_Facts "HOL-Library.Multiset"
begin

text \<open>
  What is written can be read back: rows, whole timelines, bodies out of the packed file, and
  the merged stream in the order in which the records were accepted.
\<close>

subsection \<open>Rows\<close>

lemma join_tsv_plain:
  "\<forall>f\<in>set fs. newline \<notin> set f \<Longrightarrow> newline \<notin> set (join_tsv fs)"
  by (induction fs rule: join_tsv.induct) auto

lemma join_tsv_nonempty: "f \<noteq> [] \<Longrightarrow> join_tsv (f # fs) \<noteq> []"
  by (cases fs) simp_all

lemma u64_to_string_nonempty [simp]: "u64_to_string w \<noteq> []"
  by (simp add: u64_to_string_def)

lemma timeline_row_fields:
  "split_tsv (timeline_row rec) = map u64_to_string
     [sr_ingress_order rec, sr_sequence rec, sr_accepted_tick rec, sr_body_complete_tick rec,
      sr_ack_sent_tick rec, sr_persist_complete_tick rec, sr_relative_us rec,
      sr_body_offset rec, sr_body_bytes rec]"
  unfolding timeline_row_def
  by (rule split_join_tsv) (use u64_field.print_plain in \<open>auto simp: plain_field_def\<close>)

lemma timeline_row_plain: "newline \<notin> set (timeline_row rec)" "timeline_row rec \<noteq> []"
proof -
  show "newline \<notin> set (timeline_row rec)"
    unfolding timeline_row_def
    by (rule join_tsv_plain) (use u64_field.print_plain in \<open>auto simp: plain_field_def\<close>)
  show "timeline_row rec \<noteq> []"
    by (simp add: timeline_row_def)
qed

lemma parse_timeline_row_written:
  "sr_body_filename rec = [] \<Longrightarrow>
   parse_timeline_row True True (timeline_row rec) = Inr \<lparr>re_record = rec, re_packed_v2 = True\<rparr>"
  by (simp add: parse_timeline_row_def timeline_row_fields parse_timeline_fields_def
      empty_snapshot_record_def)

definition counts_in_range :: "team_counts \<Rightarrow> bool" where
  "counts_in_range c \<longleftrightarrow>
     pred_option in_i32 (tc_ct_alive c) \<and> pred_option in_i32 (tc_t_alive c)
     \<and> pred_option in_i32 (tc_ct_total c) \<and> pred_option in_i32 (tc_t_total c)"

lemma source_to_string_plain: "plain_field (source_to_string k)"
  by (cases k) (simp_all add: plain_field_def)

lemma supplementary_row_plain_fields:
  assumes "counts_in_range (sn_teams sn)"
  shows "\<forall>f\<in>set [u64_to_string a, u64_to_string b, u64_to_string c, u64_to_string d, u64_to_string e,
       source_to_string (sn_source sn), optional_u64 (sn_roster_revision sn),
       optional_int (tc_ct_alive (sn_teams sn)), optional_int (tc_t_alive (sn_teams sn)),
       optional_int (tc_ct_total (sn_teams sn)), optional_int (tc_t_total (sn_teams sn))]. plain_field f"
  using assms u64_to_string_plain source_to_string_plain optional_u64_field.print_plain
    optional_int_field.print_plain
  by (simp add: counts_in_range_def)

lemma supplementary_row_fields:
  assumes "counts_in_range (sn_teams (su_snapshot rec))"
  shows "split_tsv (supplementary_row rec) =
     (let sn = su_snapshot rec; teams = sn_teams sn in
        [u64_to_string (su_ingress_order rec), u64_to_string (sn_sequence sn),
         u64_to_string (sn_observed_tick sn), u64_to_string (su_persist_complete_tick rec),
         u64_to_string (sn_relative_us sn), source_to_string (sn_source sn),
         optional_u64 (sn_roster_revision sn),
         optional_int (tc_ct_alive teams), optional_int (tc_t_alive teams),
         optional_int (tc_ct_total teams), optional_int (tc_t_total teams)])"
  unfolding supplementary_row_def Let_def
  by (rule split_join_tsv)
    (use supplementary_row_plain_fields [OF assms] in \<open>auto simp: plain_field_def\<close>)

lemma supplementary_row_plain:
  assumes "counts_in_range (sn_teams (su_snapshot rec))"
  shows "newline \<notin> set (supplementary_row rec)" "supplementary_row rec \<noteq> []"
proof -
  show "newline \<notin> set (supplementary_row rec)"
    unfolding supplementary_row_def Let_def
    by (rule join_tsv_plain)
      (use supplementary_row_plain_fields [OF assms] in \<open>auto simp: plain_field_def\<close>)
  show "supplementary_row rec \<noteq> []"
    unfolding supplementary_row_def Let_def by (rule join_tsv_nonempty) simp
qed

definition replayed :: "supplementary_record \<Rightarrow> supplementary_replay_entry" where
  "replayed rec = \<lparr>se_record = rec\<lparr>su_snapshot := (su_snapshot rec)\<lparr>sn_source := Replay\<rparr>\<rparr>,
     se_recorded_source = sn_source (su_snapshot rec)\<rparr>"

lemma parse_supplementary_row_written:
  assumes "counts_in_range (sn_teams (su_snapshot rec))" "valid_team_counts (sn_teams (su_snapshot rec))"
  shows "parse_supplementary_row (supplementary_row rec) = Inr (replayed rec)"
proof -
  have ints: "parse_optional_int (optional_int (tc_ct_alive (sn_teams (su_snapshot rec)))) = Inr (tc_ct_alive (sn_teams (su_snapshot rec)))"
    "parse_optional_int (optional_int (tc_t_alive (sn_teams (su_snapshot rec)))) = Inr (tc_t_alive (sn_teams (su_snapshot rec)))"
    "parse_optional_int (optional_int (tc_ct_total (sn_teams (su_snapshot rec)))) = Inr (tc_ct_total (sn_teams (su_snapshot rec)))"
    "parse_optional_int (optional_int (tc_t_total (sn_teams (su_snapshot rec)))) = Inr (tc_t_total (sn_teams (su_snapshot rec)))"
    using assms(1) by (auto simp: counts_in_range_def intro!: optional_int_field.parse_print)
  have rev: "parse_optional_u64 (optional_u64 v) = Inr v" for v
    by (rule optional_u64_field.parse_print) simp
  show ?thesis
    using assms(2)
    by (simp add: parse_supplementary_row_def supplementary_row_fields [OF assms(1)] ints rev
        Let_def replayed_def valid_team_counts_def)
qed

subsection \<open>Timelines\<close>

lemma timeline_header_facts:
  "newline \<notin> set timeline_header" "is_packed_v2 timeline_header" "has_ingress_order timeline_header"
  by code_simp+

lemma supplementary_header_plain: "newline \<notin> set supplementary_header"
  by code_simp

definition timeline_text :: "snapshot_record list \<Rightarrow> string" where
  "timeline_text recs = timeline_header @ [newline] @ concat (map (\<lambda>rec. timeline_row rec @ [newline]) recs)"

definition supplementary_text :: "supplementary_record list \<Rightarrow> string" where
  "supplementary_text recs =
     supplementary_header @ [newline] @ concat (map (\<lambda>rec. supplementary_row rec @ [newline]) recs)"

lemma getlines_rows:
  assumes "\<forall>r\<in>set recs. newline \<notin> set (row r)"
  shows "getlines (concat (map (\<lambda>r. row r @ [newline]) recs)) = map row recs"
  using getlines_concat [of "map row recs"] assms by (simp add: comp_def)

lemma load_timeline_written:
  assumes "sf_timeline files = Some (timeline_text recs)" "list_all (\<lambda>rec. sr_body_filename rec = []) recs"
  shows "load_timeline files = Inr (map (\<lambda>rec. \<lparr>re_record = rec, re_packed_v2 = True\<rparr>) recs)"
proof -
  have lines: "getlines (timeline_text recs) = timeline_header # map timeline_row recs"
    using timeline_header_facts(1)
    by (simp add: timeline_text_def getlines_cons getlines_rows timeline_row_plain)
  have "read_rows (timeline_text recs) = map timeline_row recs"
    by (simp add: read_rows_def lines filter_map comp_def timeline_row_plain)
  moreover have "map_result (parse_timeline_row True True) (map timeline_row recs)
      = Inr (map (\<lambda>rec. \<lparr>re_record = rec, re_packed_v2 = True\<rparr>) recs)"
    using assms(2) by (induction recs) (simp_all add: parse_timeline_row_written)
  ultimately show ?thesis
    by (simp add: load_timeline_def assms(1) read_header_def lines timeline_header_facts)
qed

definition well_formed_observation :: "supplementary_record \<Rightarrow> bool" where
  "well_formed_observation rec \<longleftrightarrow>
     counts_in_range (sn_teams (su_snapshot rec)) \<and> valid_team_counts (sn_teams (su_snapshot rec))"

lemma load_supplementary_written:
  assumes "sf_supplementary files = Some (supplementary_text recs)" "list_all well_formed_observation recs"
  shows "load_supplementary_timeline files = Inr (map replayed recs)"
proof -
  have plain: "\<forall>rec\<in>set recs. newline \<notin> set (supplementary_row rec)"
    "\<forall>rec\<in>set recs. supplementary_row rec \<noteq> []"
    using assms(2) supplementary_row_plain by (auto simp: list_all_iff well_formed_observation_def)
  have lines: "getlines (supplementary_text recs) = supplementary_header # map supplementary_row recs"
    using supplementary_header_plain plain(1)
    by (simp add: supplementary_text_def getlines_cons getlines_rows)
  have "read_rows (supplementary_text recs) = map supplementary_row recs"
    using plain(2) by (simp add: read_rows_def lines filter_map comp_def filter_id_conv)
  moreover have "map_result parse_supplementary_row (map supplementary_row recs) = Inr (map replayed recs)"
    using assms(2)
    by (induction recs) (simp_all add: parse_supplementary_row_written well_formed_observation_def)
  ultimately show ?thesis
    by (simp add: load_supplementary_timeline_def assms(1) read_header_def lines)
qed

subsection \<open>Bodies\<close>

definition packed_entry :: "snapshot_record \<Rightarrow> replay_entry" where
  "packed_entry rec = \<lparr>re_record = rec, re_packed_v2 = True\<rparr>"

text \<open>Offsets point at the bodies, as long as the packed file is below \<open>2\<^sup>6\<^sup>4\<close> bytes.\<close>

lemma stored_snapshot_body:
  assumes "(rec, body) \<in> set (stored_snapshots offset ps)"
    and "list_all (well_recorded frequency start_tick) (map fst ps)"
    and "unat offset = length before"
    and "length before + length (concat (map snd (stored_snapshots offset ps))) < 2 ^ 64"
  shows "take (unat (sr_body_bytes rec)) (drop (unat (sr_body_offset rec))
      (before @ concat (map snd (stored_snapshots offset ps)))) = body
    \<and> length body = unat (sr_body_bytes rec)"
  using assms
proof (induction offset ps arbitrary: before rule: stored_snapshots.induct)
  case (2 offset r b now ps)
  let ?rest = "stored_snapshots (offset + of_nat (length b)) ps"
  have len: "length before + length b + length (concat (map snd ?rest)) < 2 ^ 64"
    using "2.prems"(4) by simp
  then have b: "unat (of_nat (length b) :: u64) = length b"
    by (simp add: unat_of_nat take_bit_nat_eq_self)
  have off: "unat (offset + of_nat (length b)) = length (before @ b)"
    using len "2.prems"(3) b by (simp add: unat_word_ariths)
  from "2.prems"(1) consider "rec = finished_snapshot r offset now" "body = b"
    | "(rec, body) \<in> set ?rest" by auto
  then show ?case
  proof cases
    case 1
    then show ?thesis
      using "2.prems"(2,3) b by (simp add: finished_snapshot_def)
  next
    case 2
    have "list_all (well_recorded frequency start_tick) (map fst ps)"
      using \<open>list_all _ (map fst ((RecordSnapshot r b, now) # ps))\<close> by simp
    from "2.IH" [OF 2 this off] len show ?thesis by simp
  qed
qed simp_all

lemma load_body_written:
  assumes "(rec, body) \<in> set (stored_snapshots 0 ps)"
    and "list_all (well_recorded frequency start_tick) (map fst ps)"
    and "sf_raw_gsi files = Some (concat (map snd (stored_snapshots 0 ps)))"
    and "length (concat (map snd (stored_snapshots 0 ps))) < 2 ^ 64"
  shows "load_replay_body files (packed_entry rec) = Inr body"
proof -
  have t: "take (unat (sr_body_bytes rec)) (drop (unat (sr_body_offset rec))
      (concat (map snd (stored_snapshots 0 ps)))) = body" "length body = unat (sr_body_bytes rec)"
    using stored_snapshot_body [OF assms(1,2), of "[]"] assms(4) by simp_all
  show ?thesis
    by (simp add: load_replay_body_def packed_entry_def Let_def assms(3) t del: length_take)
qed

subsection \<open>The merged stream\<close>

text \<open>The stream in the order of persistence, which is the order of acceptance.\<close>

fun replay_items :: "u64 \<Rightarrow> (pending_record \<times> u64) list \<Rightarrow> replay_item list" where
  "replay_items offset [] = []"
| "replay_items offset ((RecordSnapshot rec body, now) # ps) =
     gsi_item (packed_entry (finished_snapshot rec offset now))
       # replay_items (offset + of_nat (length body)) ps"
| "replay_items offset ((RecordSupplementary rec, now) # ps) =
     supplementary_item (replayed (finished_observation rec now)) # replay_items offset ps"

lemma mset_replay_items:
  "mset (replay_items offset ps) =
     mset (map gsi_item (map packed_entry (map fst (stored_snapshots offset ps)))
       @ map supplementary_item (map replayed (stored_observations ps)))"
  by (induction offset ps rule: replay_items.induct) simp_all

lemma orders_replay_items:
  "map ri_ingress_order (replay_items offset ps) = map pending_order (map fst ps)"
  by (induction offset ps rule: replay_items.induct)
    (simp_all add: gsi_item_def supplementary_item_def packed_entry_def finished_snapshot_def
      replayed_def finished_observation_def)

lemma sorted_counting:
  assumes "n < 2 ^ 64"
  shows "sorted_wrt (<) (counting n)"
proof -
  have "sorted_wrt (<) (map (\<lambda>i. of_nat (Suc i) :: u64) [0..<n])"
  proof (subst sorted_wrt_map, rule sorted_wrt_mono_rel)
    show "sorted_wrt (<) [0..<n]" by simp
    fix i j
    assume "i \<in> set [0..<n]" "j \<in> set [0..<n]" "i < j"
    with assms show "(of_nat (Suc i) :: u64) < of_nat (Suc j)"
      by (simp add: word_less_nat_alt unat_of_nat take_bit_nat_eq_self del: of_nat_Suc)
  qed
  then show ?thesis by (simp add: counting_def)
qed

lemma sort_key_strict:
  assumes "mset xs = mset ys" "sorted_wrt (\<lambda>a b. f a < f b) ys"
  shows "sort_key f xs = ys"
proof (rule sort_key_inj_key_eq [OF assms(1)])
  show "sorted (map f ys)"
    unfolding sorted_map by (rule sorted_wrt_mono_rel [OF _ assms(2)]) simp
  have "distinct (map f ys)"
    using assms(2) by (induction ys) (auto simp: image_iff)
  then show "inj_on f (set xs)"
    using mset_eq_setD [OF assms(1)] by (simp add: distinct_map)
qed

lemma replay_items_sorted:
  assumes "map ri_ingress_order items = counting n" "n < 2 ^ 64"
  shows "sorted_wrt (\<lambda>a b. replay_key a < replay_key b) items"
proof -
  have "sorted_wrt (<) (map ri_ingress_order items)" using assms sorted_counting by simp
  then have "sorted_wrt (\<lambda>a b. ri_ingress_order a < ri_ingress_order b) items"
    by (simp only: sorted_wrt_map)
  then show ?thesis
    by (rule sorted_wrt_mono_rel [rotated]) (simp add: replay_key_def less_prod_def)
qed

lemma load_stream_written:
  assumes "sf_timeline files = Some (timeline_text (map fst (stored_snapshots 0 ps)))"
    and "sf_supplementary files = Some (supplementary_text (stored_observations ps))"
    and "list_all (well_recorded frequency start_tick) (map fst ps)"
    and "list_all well_formed_observation (stored_observations ps)"
    and "map pending_order (map fst ps) = counting (length ps)" "length ps < 2 ^ 64"
  shows "load_replay_stream files = Inr (replay_items 0 ps)"
proof -
  have names: "list_all (\<lambda>rec. sr_body_filename rec = []) (map fst (stored_snapshots offset ps))" for offset
    using assms(3)
    by (induction offset ps rule: stored_snapshots.induct) (simp_all add: finished_snapshot_def)
  have "load_timeline files = Inr (map packed_entry (map fst (stored_snapshots 0 ps)))"
    using load_timeline_written [OF assms(1) names] by (simp add: packed_entry_def comp_def)
  moreover have "load_supplementary_timeline files = Inr (map replayed (stored_observations ps))"
    using load_supplementary_written [OF assms(2,4)] .
  moreover have "sort_key replay_key (map gsi_item (map packed_entry (map fst (stored_snapshots 0 ps)))
      @ map supplementary_item (map replayed (stored_observations ps))) = replay_items 0 ps"
  proof (rule sort_key_strict)
    show "sorted_wrt (\<lambda>a b. replay_key a < replay_key b) (replay_items 0 ps)"
      by (rule replay_items_sorted [OF _ assms(6)]) (simp only: orders_replay_items assms(5))
  qed (simp only: mset_replay_items)
  ultimately show ?thesis by (simp add: load_replay_stream_def)
qed

end
