(* ===== verification/Record_Replay.thy ===== *)
theory Record_Replay
  imports Ingress Cli Replay_Facts
begin

text \<open>
  Across the components: \<open>analyze\<close> on the files of a recorded session goes through the events
  that the live pipeline gave to its handler while the session was recorded.
\<close>

definition session_on_disk :: "recorder \<Rightarrow> session_files" where
  "session_on_disk r = \<lparr>
     sf_timeline = Some (of_contents (rc_timeline r)),
     sf_supplementary = Some (of_contents (rc_supplementary_timeline r)),
     sf_raw_gsi = Some (of_contents (rc_raw_stream r)),
     sf_raw_directory = (\<lambda>_. None)\<rparr>"

text \<open>The counts of an observation are \<open>int\<close> values.\<close>

fun record_in_range :: "pending_record \<Rightarrow> bool" where
  "record_in_range (RecordSnapshot rec body) = True"
| "record_in_range (RecordSupplementary rec) = counts_in_range (sn_teams (su_snapshot rec))"

subsection \<open>One item, analyzed and live\<close>

definition alike :: "analysis \<Rightarrow> processor \<Rightarrow> bool" where
  "alike an pr \<longleftrightarrow>
     an_detector an = pr_detector pr
     \<and> relabel Replay (an_resolver an) = relabel Replay (pr_resolver pr)
     \<and> processor_inv pr"

lemma alike_init: "alike init_analysis init_processor"
  by (simp add: alike_def init_analysis_def init_processor_def processor_inv_init [unfolded init_processor_def])

lemma count_events_fields [simp]:
  "an_detector (count_events an es) = an_detector an"
  "an_resolver (count_events an es) = an_resolver an"
  "an_events (count_events an es) = an_events an @ es"
  by (simp_all add: count_events_def)

lemma replayed_snapshot:
  "su_snapshot (se_record (replayed (finished_observation rec now))) = with_source Replay (su_snapshot rec)"
  by (simp add: replayed_def finished_observation_def with_source_def)

lemma analyze_supplementary_alike:
  assumes "alike an pr"
  shows "an_events (analyze_supplementary an (replayed (finished_observation rec now)))
      = an_events an @ batch_events (fst (process_item pr (live_item (RecordSupplementary rec))))
    \<and> alike (analyze_supplementary an (replayed (finished_observation rec now)))
        (snd (process_item pr (live_item (RecordSupplementary rec))))"
proof -
  let ?sn = "su_snapshot rec"
  note step = relabel_step_alike [of Replay "an_resolver an" "pr_resolver pr" "SupplementInput ?sn"]
  have same: "fst (process_supplementary (an_resolver an) (with_source Replay ?sn))
        = fst (process_supplementary (pr_resolver pr) ?sn)"
    "relabel Replay (snd (process_supplementary (an_resolver an) (with_source Replay ?sn)))
        = relabel Replay (snd (process_supplementary (pr_resolver pr) ?sn))"
    using step assms by (simp_all add: alike_def)
  have inv: "processor_inv (snd (process_item pr (live_item (RecordSupplementary rec))))"
    using assms by (simp only: alike_def process_item_inv)
  have live: "batch_events (fst (process_item pr (live_item (RecordSupplementary rec))))
        = fst (process_supplementary (pr_resolver pr) ?sn)"
    "pr_resolver (snd (process_item pr (live_item (RecordSupplementary rec))))
        = snd (process_supplementary (pr_resolver pr) ?sn)"
    "pr_detector (snd (process_item pr (live_item (RecordSupplementary rec)))) = pr_detector pr"
    using process_item_events [of pr "live_item (RecordSupplementary rec)"] assms
    by (simp_all add: alike_def item_inputs_def item_detector_def Let_def case_prod_beta)
  show ?thesis
    using same inv live assms
    by (simp add: analyze_supplementary_def Let_def case_prod_beta alike_def replayed_snapshot)
qed

lemma analyze_gsi_alike:
  assumes "alike an pr"
  shows "an_events (analyze_gsi an (packed_entry (finished_snapshot rec offset now)) body)
      = an_events an @ batch_events (fst (process_item pr (live_item (RecordSnapshot rec body))))
    \<and> alike (analyze_gsi an (packed_entry (finished_snapshot rec offset now)) body)
        (snd (process_item pr (live_item (RecordSnapshot rec body))))"
proof -
  let ?st = "normalize_gsi body (sr_sequence rec) (sr_relative_us rec)"
  let ?fs = "fst (process (pr_detector pr) ?st)"
  note step = relabel_step_alike [of Replay "an_resolver an" "pr_resolver pr" "GsiInput ?st ?fs"]
  have same: "fst (process_gsi (an_resolver an) ?st ?fs) = fst (process_gsi (pr_resolver pr) ?st ?fs)"
    "relabel Replay (snd (process_gsi (an_resolver an) ?st ?fs))
        = relabel Replay (snd (process_gsi (pr_resolver pr) ?st ?fs))"
    using step assms by (simp_all add: alike_def Let_def case_prod_beta)
  have inv: "processor_inv (snd (process_item pr (live_item (RecordSnapshot rec body))))"
    using assms by (simp only: alike_def process_item_inv)
  have det: "an_detector an = pr_detector pr" using assms by (simp add: alike_def)
  show ?thesis
  proof (cases "gs_payload_valid ?st")
    case False
    then show ?thesis
      using assms
      by (simp add: analyze_gsi_def process_item_def packed_entry_def finished_snapshot_def Let_def alike_def)
  next
    case True
    have live: "batch_events (fst (process_item pr (live_item (RecordSnapshot rec body))))
          = ?fs @ fst (process_gsi (pr_resolver pr) ?st ?fs)"
      "pr_resolver (snd (process_item pr (live_item (RecordSnapshot rec body))))
          = snd (process_gsi (pr_resolver pr) ?st ?fs)"
      "pr_detector (snd (process_item pr (live_item (RecordSnapshot rec body)))) = snd (process (pr_detector pr) ?st)"
      using True by (simp_all add: process_item_def Let_def case_prod_beta)
    show ?thesis
      using True same inv live det
      by (simp add: analyze_gsi_def packed_entry_def finished_snapshot_def Let_def case_prod_beta alike_def)
  qed
qed

lemma analyze_loop_alike:
  assumes "alike an pr"
    and "\<And>rec body. (rec, body) \<in> set (stored_snapshots offset ps) \<Longrightarrow>
          load_replay_body files (packed_entry rec) = Inr body"
  shows "\<exists>an'. analyze_loop files an (replay_items offset ps) = Inr an'
    \<and> an_events an' = an_events an @ batch_events (fst (run process_item pr (map live_item (map fst ps))))"
  using assms
proof (induction offset ps arbitrary: an pr rule: replay_items.induct)
  case (2 offset rec body now ps)
  let ?entry = "packed_entry (finished_snapshot rec offset now)"
  let ?an = "analyze_gsi an ?entry body" and ?pr = "snd (process_item pr (live_item (RecordSnapshot rec body)))"
  have "load_replay_body files ?entry = Inr body" using "2.prems"(2) by simp
  then have item: "analyze_item files an (gsi_item ?entry) = Inr ?an"
    by (simp add: analyze_item_def gsi_item_def)
  note one = analyze_gsi_alike [OF "2.prems"(1), of rec offset now body]
  have "\<exists>an'. analyze_loop files ?an (replay_items (offset + of_nat (length body)) ps) = Inr an'
      \<and> an_events an' = an_events ?an @ batch_events (fst (run process_item ?pr (map live_item (map fst ps))))"
    by (rule "2.IH") (use one "2.prems"(2) in auto)
  then show ?case
    using one by (auto simp: item Let_def case_prod_beta)
next
  case (3 offset rec now ps)
  let ?entry = "replayed (finished_observation rec now)"
  let ?an = "analyze_supplementary an ?entry" and ?pr = "snd (process_item pr (live_item (RecordSupplementary rec)))"
  have item: "analyze_item files an (supplementary_item ?entry) = Inr ?an"
    by (simp add: analyze_item_def supplementary_item_def)
  note one = analyze_supplementary_alike [OF "3.prems"(1), of rec now]
  have "\<exists>an'. analyze_loop files ?an (replay_items offset ps) = Inr an'
      \<and> an_events an' = an_events ?an @ batch_events (fst (run process_item ?pr (map live_item (map fst ps))))"
    by (rule "3.IH") (use one "3.prems"(2) in auto)
  then show ?case
    using one by (auto simp: item Let_def case_prod_beta)
qed simp

subsection \<open>A recorded session\<close>

lemma well_formed_observations:
  assumes "list_all (well_recorded frequency start_tick) (map fst ps)"
    and "list_all record_in_range (map fst ps)"
  shows "list_all well_formed_observation (stored_observations ps)"
  using assms
  by (induction ps rule: stored_observations.induct)
    (simp_all add: well_formed_observation_def finished_observation_def)

text \<open>A recorder that has flushed: the files are the written form of the accepted records.\<close>

lemma flushed_files:
  assumes "recorder_step\<^sup>*\<^sup>* (init_recorder frequency start_tick) r" "recorder_ok r" "rc_in_flight r = []"
  shows "map fst (rc_persisted r) = rc_accepted r"
    "sf_timeline (session_on_disk r) = Some (timeline_text (map fst (stored_snapshots 0 (rc_persisted r))))"
    "sf_supplementary (session_on_disk r) = Some (supplementary_text (stored_observations (rc_persisted r)))"
    "sf_raw_gsi (session_on_disk r) = Some (concat (map snd (stored_snapshots 0 (rc_persisted r))))"
proof -
  have init: "stored_of (init_recorder frequency start_tick) = empty_session"
    by (simp add: stored_of_def init_recorder_def opened_def empty_session_def)
  have fifo: "rc_accepted r = map fst (rc_persisted r) @ rc_in_flight r"
    "run store empty_session (rc_persisted r) = ([], stored_of r)"
    using recorder_fifo.reachable_fifo [OF assms(1,2)] by (simp_all add: init)
  from fifo(1) assms(3) show "map fst (rc_persisted r) = rc_accepted r" by simp
  show "sf_timeline (session_on_disk r) = Some (timeline_text (map fst (stored_snapshots 0 (rc_persisted r))))"
    "sf_supplementary (session_on_disk r) = Some (supplementary_text (stored_observations (rc_persisted r)))"
    "sf_raw_gsi (session_on_disk r) = Some (concat (map snd (stored_snapshots 0 (rc_persisted r))))"
    using fifo(2)
    by (simp_all add: run_store stored_of_def empty_session_def session_on_disk_def timeline_text_def
        supplementary_text_def case_prod_unfold comp_def)
qed

lemma flushed_stream:
  assumes "recorder_step\<^sup>*\<^sup>* (init_recorder frequency start_tick) r" "recorder_ok r" "rc_in_flight r = []"
    and "list_all record_in_range (rc_accepted r)" "length (rc_accepted r) < 2 ^ 64"
  shows "load_replay_stream (session_on_disk r) = Inr (replay_items 0 (rc_persisted r))"
proof (rule load_stream_written)
  note files = flushed_files [OF assms(1-3)]
  show "sf_timeline (session_on_disk r) = Some (timeline_text (map fst (stored_snapshots 0 (rc_persisted r))))"
    "sf_supplementary (session_on_disk r) = Some (supplementary_text (stored_observations (rc_persisted r)))"
    by (rule files(2), rule files(3))
  have num: "numbered r" using assms(1) by (rule numbered_reachable)
  show well: "list_all (well_recorded (rc_frequency r) (rc_start_tick r)) (map fst (rc_persisted r))"
    using num by (simp add: numbered_def files(1))
  show "list_all well_formed_observation (stored_observations (rc_persisted r))"
    using well assms(4) by (intro well_formed_observations) (simp_all add: files(1))
  have len: "length (rc_persisted r) = length (rc_accepted r)"
    by (simp only: files(1) [symmetric] length_map)
  show "map pending_order (map fst (rc_persisted r)) = counting (length (rc_persisted r))"
    unfolding len files(1) using num by (simp add: numbered_def)
  show "length (rc_persisted r) < 2 ^ 64" unfolding len by (rule assms(5))
qed

lemma flushed_body:
  assumes "recorder_step\<^sup>*\<^sup>* (init_recorder frequency start_tick) r" "recorder_ok r" "rc_in_flight r = []"
    and "length (of_contents (rc_raw_stream r)) < 2 ^ 64"
    and "(rec, body) \<in> set (stored_snapshots 0 (rc_persisted r))"
  shows "load_replay_body (session_on_disk r) (packed_entry rec) = Inr body"
proof (rule load_body_written [OF assms(5)])
  note files = flushed_files [OF assms(1-3)]
  show "list_all (well_recorded (rc_frequency r) (rc_start_tick r)) (map fst (rc_persisted r))"
    using numbered_reachable [OF assms(1)] by (simp add: numbered_def files(1))
  show raw: "sf_raw_gsi (session_on_disk r) = Some (concat (map snd (stored_snapshots 0 (rc_persisted r))))"
    by (rule files(4))
  show "length (concat (map snd (stored_snapshots 0 (rc_persisted r)))) < 2 ^ 64"
    using raw assms(4) by (simp add: session_on_disk_def)
qed

text \<open>What \<open>analyze\<close> finds depends on what the recorder has accepted only.\<close>

lemma replayed_recording:
  assumes "telemetry_reachable throws frequency start_tick t"
    and "recorder_ok (tm_recorder t)" "rc_in_flight (tm_recorder t) = []"
    and "list_all record_in_range (rc_accepted (tm_recorder t))"
    and "length (rc_accepted (tm_recorder t)) < 2 ^ 64"
    and "length (of_contents (rc_raw_stream (tm_recorder t))) < 2 ^ 64"
  shows "\<exists>an. analyze_session (session_on_disk (tm_recorder t)) = Inr an
     \<and> an_events an = batch_events (fst (run process_item init_processor (recorded_items t)))"
proof -
  let ?r = "tm_recorder t"
  note rec = telemetry_reachable_parts(1) [OF assms(1)]
  have items: "map live_item (map fst (rc_persisted ?r)) = recorded_items t"
    unfolding recorded_items_def by (simp only: flushed_files(1) [OF rec assms(2,3)])
  have stream: "load_replay_stream (session_on_disk ?r) = Inr (replay_items 0 (rc_persisted ?r))"
    using rec assms(2-5) by (rule flushed_stream)
  have "\<exists>an. analyze_loop (session_on_disk ?r) init_analysis (replay_items 0 (rc_persisted ?r)) = Inr an
      \<and> an_events an = an_events init_analysis
          @ batch_events (fst (run process_item init_processor (map live_item (map fst (rc_persisted ?r)))))"
    by (rule analyze_loop_alike [OF alike_init flushed_body [OF rec assms(2,3,6)]])
  then obtain an where "analyze_loop (session_on_disk ?r) init_analysis (replay_items 0 (rc_persisted ?r)) = Inr an"
    "an_events an = an_events init_analysis @ batch_events (fst (run process_item init_processor (recorded_items t)))"
    unfolding items by blast
  then show ?thesis
    by (simp add: analyze_session_def stream init_analysis_def)
qed

text \<open>The calls of the handler so far are those for the items it has handled.\<close>

lemma handled_calls:
  assumes "telemetry_reachable throws frequency start_tick t"
  shows "pl_accepted (tm_pipeline t) = pl_handled (tm_pipeline t) @ pl_in_flight (tm_pipeline t)"
    and "fst (run process_item init_processor (pl_handled (tm_pipeline t))) = pl_calls (tm_pipeline t)"
  using pipeline_fifo.reachable_fifo [OF telemetry_reachable_parts(2) [OF assms]]
  by (simp_all add: init_pipeline_def)

lemma replayed_session:
  assumes "telemetry_reachable throws frequency start_tick t"
    and "recorder_ok (tm_recorder t)" "rc_in_flight (tm_recorder t) = []"
    and "pl_in_flight (tm_pipeline t) = []" "pl_accepted (tm_pipeline t) = recorded_items t"
    and "list_all record_in_range (rc_accepted (tm_recorder t))"
    and "length (rc_accepted (tm_recorder t)) < 2 ^ 64"
    and "length (of_contents (rc_raw_stream (tm_recorder t))) < 2 ^ 64"
  shows "\<exists>an. analyze_session (session_on_disk (tm_recorder t)) = Inr an
     \<and> an_events an = batch_events (pl_calls (tm_pipeline t))"
  using replayed_recording [OF assms(1-3,6-8)] handled_calls [OF assms(1)] assms(4,5) by simp

text \<open>A small session: one payload and one observation, persisted and handled.\<close>

definition calm_turn :: turn_input where
  "calm_turn = \<lparr>ti_now = 7, ti_raw_fails = None, ti_timeline_fails = None, ti_supplementary_fails = None\<rparr>"

definition recorder_worked :: "telemetry \<Rightarrow> telemetry" where
  "recorder_worked t = t\<lparr>tm_recorder := the (recorder_turn calm_turn (tm_recorder t))\<rparr>"

definition pipeline_worked :: "telemetry \<Rightarrow> telemetry" where
  "pipeline_worked t = t\<lparr>tm_pipeline := the (worker_turn (\<lambda>_. None) (tm_pipeline t))\<rparr>"

definition demo_accepted :: telemetry where
  "demo_accepted = snd (ingress_supplementary
     (snd (ingress_gsi (init_telemetry 1000000000 0) 0 0 0 ''{\"map\":{\"name\":\"m\"}}''))
     (ace_snapshot 1 0 2))"

definition demo_persisted :: telemetry where
  "demo_persisted = recorder_worked (recorder_worked (recorder_worked (recorder_worked demo_accepted)))"

definition demo_session :: telemetry where
  "demo_session = pipeline_worked (pipeline_worked (pipeline_worked (pipeline_worked demo_persisted)))"

lemma recorder_worked_step:
  "recorder_turn calm_turn (tm_recorder t) \<noteq> None \<Longrightarrow>
   telemetry_reachable throws f s t \<Longrightarrow> telemetry_reachable throws f s (recorder_worked t)"
  unfolding recorder_worked_def
  by (erule rtranclp.rtrancl_into_rtrancl) (auto intro: recorder_works)

lemma pipeline_worked_step:
  "worker_turn (\<lambda>_. None) (tm_pipeline t) \<noteq> None \<Longrightarrow>
   telemetry_reachable (\<lambda>_. None) f s t \<Longrightarrow> telemetry_reachable (\<lambda>_. None) f s (pipeline_worked t)"
  unfolding pipeline_worked_def
  by (erule rtranclp.rtrancl_into_rtrancl) (auto intro: pipeline_works)

lemma demo_reachable: "telemetry_reachable (\<lambda>_. None) 1000000000 0 demo_session"
proof -
  have "telemetry_reachable (\<lambda>_. None) 1000000000 0
      (snd (ingress_gsi (init_telemetry 1000000000 0) 0 0 0 ''{\"map\":{\"name\":\"m\"}}''))"
    by (rule r_into_rtranclp) (rule through_gsi)
  then have demo: "telemetry_reachable (\<lambda>_. None) 1000000000 0 demo_accepted"
    unfolding demo_accepted_def by (rule rtranclp.rtrancl_into_rtrancl) (rule through_supplementary)
  have demo': "telemetry_reachable (\<lambda>_. None) 1000000000 0 demo_persisted"
    unfolding demo_persisted_def
    by (rule recorder_worked_step, code_simp, rule recorder_worked_step, code_simp,
        rule recorder_worked_step, code_simp, rule recorder_worked_step [OF _ demo], code_simp)
  show ?thesis
    unfolding demo_session_def
    by (rule pipeline_worked_step, code_simp, rule pipeline_worked_step, code_simp,
        rule pipeline_worked_step, code_simp, rule pipeline_worked_step [OF _ demo'], code_simp)
qed

end
