(* ===== verification/Recorder_Flush.thy ===== *)
theory Recorder_Flush
  imports Recorder_Facts
begin

text \<open>
  The end of a recording: what holds of the flags of the recorder in every reachable state, the
  loop of the persistence worker run to its end, and how a failed write is reported.
\<close>

subsection \<open>The flags\<close>

definition recorder_inv :: "recorder \<Rightarrow> bool" where
  "recorder_inv r \<longleftrightarrow>
     (rc_worker_error r \<noteq> None \<longrightarrow> rc_worker r = RecorderDone)
     \<and> (rc_worker r = RecorderDone \<longrightarrow> rc_stopping r \<and> rc_queue r = [])
     \<and> (rc_stopped r \<longrightarrow> rc_stopping r)"

lemma recorder_inv_turn:
  assumes "recorder_turn ti r = Some r'" "recorder_inv r"
  shows "recorder_inv r'"
  using assms(1)
proof (cases rule: recorder_turn_cases)
  case (persisted pending r1)
  then show ?thesis
    using assms(2) persist_frame [OF persisted(2)] by (auto simp: recorder_inv_def)
next
  case (failed pending e r1)
  then show ?thesis
    using assms(2) persist_frame [OF failed(2)] by (auto simp: recorder_inv_def)
qed (use assms(2) in \<open>auto simp: recorder_inv_def\<close>)

lemma recorder_inv_step:
  assumes "recorder_step r r'" "recorder_inv r"
  shows "recorder_inv r'"
  using assms(1)
proof (cases rule: recorder_step_cases)
  case (worker ti)
  then show ?thesis using assms(2) by (rule recorder_inv_turn)
qed (use assms(2) in \<open>auto simp: recorder_inv_def recorder_stop_begin_def recorder_stop_joined_def
    dest!: enqueue_snapshot_Inr enqueue_observation_Inr split: if_splits\<close>)

lemma recorder_inv_reachable:
  "recorder_step\<^sup>*\<^sup>* (init_recorder frequency start_tick) r \<Longrightarrow> recorder_inv r"
  by (induction rule: rtranclp_induct)
    (auto simp: recorder_inv_step, simp add: recorder_inv_def init_recorder_def)

text \<open>As long as no error is kept, the two streams that are tested have not failed.\<close>

definition streams_tested :: "recorder \<Rightarrow> bool" where
  "streams_tested r \<longleftrightarrow>
     (rc_worker_error r = None \<longrightarrow> \<not> of_bad (rc_raw_stream r) \<and> \<not> of_bad (rc_supplementary_timeline r))"

lemma streams_tested_step:
  assumes "recorder_step r r'" "streams_tested r"
  shows "streams_tested r'"
  using assms(1)
proof (cases rule: recorder_step_cases)
  case (worker ti)
  then show ?thesis
  proof (cases rule: recorder_turn_cases)
    case (persisted pending r1)
    then show ?thesis
      using assms(2)
      by (cases pending; auto simp: persist_def persist_snapshot_def persist_supplementary_def
          streams_tested_def Let_def split: if_splits)
  next
    case (failed pending e r1)
    then show ?thesis by (simp add: streams_tested_def)
  qed (use assms(2) in \<open>auto simp: streams_tested_def\<close>)
qed (use assms(2) in \<open>auto simp: streams_tested_def recorder_stop_begin_def recorder_stop_joined_def
    dest!: enqueue_snapshot_Inr enqueue_observation_Inr\<close>)

lemma streams_tested_reachable:
  "recorder_step\<^sup>*\<^sup>* (init_recorder frequency start_tick) r \<Longrightarrow> streams_tested r"
  by (induction rule: rtranclp_induct)
    (auto simp: streams_tested_step, simp add: streams_tested_def init_recorder_def opened_def)

lemma recorder_ok_by_flags:
  "recorder_step\<^sup>*\<^sup>* (init_recorder frequency start_tick) r \<Longrightarrow> rc_worker_error r = None \<Longrightarrow>
   \<not> of_bad (rc_timeline r) \<Longrightarrow> recorder_ok r"
  using streams_tested_reachable [of frequency start_tick r] by (simp add: recorder_ok_def streams_tested_def)

subsection \<open>The worker's loop\<close>

definition recorder_work :: "recorder \<Rightarrow> nat" where
  "recorder_work r = 2 * length (rc_queue r) +
     (case rc_worker r of RecorderDone \<Rightarrow> 0 | RecorderWaiting \<Rightarrow> 1 | RecorderBusy _ \<Rightarrow> 2)"

lemma recorder_turn_decreases: "recorder_turn ti r = Some r' \<Longrightarrow> recorder_work r' < recorder_work r"
  by (erule recorder_turn_cases) (auto simp: recorder_work_def persist_frame)

text \<open>
  Turns of the worker until it blocks or has returned, with no client in between. The world
  supplies what every turn meets: the tick and the fate of the writes.
\<close>

function recorder_loop :: "(nat \<Rightarrow> turn_input) \<Rightarrow> recorder \<Rightarrow> recorder" where
  "recorder_loop world r =
     (case recorder_turn (world 0) r of
        None \<Rightarrow> r
      | Some r' \<Rightarrow> recorder_loop (\<lambda>n. world (Suc n)) r')"
  by pat_completeness auto
termination recorder_loop
  by (relation "measure (recorder_work \<circ> snd)") (auto simp: recorder_turn_decreases)

declare recorder_loop.simps [simp del]

lemma recorder_loop_steps: "recorder_step\<^sup>*\<^sup>* r (recorder_loop world r)"
proof (induction world r rule: recorder_loop.induct)
  case (1 world r)
  show ?case
  proof (cases "recorder_turn (world 0) r")
    case None
    then show ?thesis by (simp add: recorder_loop.simps)
  next
    case (Some r')
    then have "recorder_step r r'" by (rule step_recorder_worker)
    then show ?thesis
      using 1 [OF Some] Some by (simp add: recorder_loop.simps converse_rtranclp_into_rtranclp)
  qed
qed

lemma recorder_turn_None: "recorder_turn ti r = None \<Longrightarrow> recorder_turn ti' r = None"
  by (auto simp: recorder_turn_def split: recorder_phase.splits list.splits if_splits prod.splits option.splits)

lemma recorder_loop_blocked: "recorder_turn ti (recorder_loop world r) = None"
proof (induction world r rule: recorder_loop.induct)
  case (1 world r)
  then show ?case
    by (cases "recorder_turn (world 0) r") (auto simp: recorder_loop.simps dest: recorder_turn_None)
qed

lemma recorder_loop_keeps:
  "rc_accepted (recorder_loop world r) = rc_accepted r
   \<and> (rc_stopping r \<longrightarrow> rc_stopping (recorder_loop world r))"
proof (induction world r rule: recorder_loop.induct)
  case (1 world r)
  have "rc_stopping r'" if "recorder_turn (world 0) r = Some r'" "rc_stopping r" for r'
    using that by (cases rule: recorder_turn_cases) (auto simp: persist_frame)
  then show ?case
    using 1 by (cases "recorder_turn (world 0) r") (auto simp: recorder_loop.simps dest: recorder_turn_frame)
qed

lemma recorder_blocked_stopping: "recorder_turn ti r = None \<Longrightarrow> rc_stopping r \<Longrightarrow> rc_worker r = RecorderDone"
  by (auto simp: recorder_turn_def split: recorder_phase.splits list.splits if_splits prod.splits option.splits)

definition writes_succeed :: "turn_input \<Rightarrow> bool" where
  "writes_succeed ti \<longleftrightarrow>
     ti_raw_fails ti = None \<and> ti_timeline_fails ti = None \<and> ti_supplementary_fails ti = None"

lemma of_write_succeeds: "\<not> of_bad f \<Longrightarrow> \<not> of_bad (of_write None f text)"
  by (simp add: of_write_def)

lemma recorder_turn_ok:
  assumes "recorder_turn ti r = Some r'" "recorder_ok r" "writes_succeed ti"
  shows "recorder_ok r'"
  using assms(1)
proof (cases rule: recorder_turn_cases)
  case (persisted pending r1)
  then show ?thesis
    using assms(2,3)
    by (cases pending; auto simp: persist_def persist_snapshot_def persist_supplementary_def
        recorder_ok_def writes_succeed_def Let_def of_write_succeeds split: if_splits)
next
  case (failed pending e r1)
  then show ?thesis
    using assms(2,3)
    by (cases pending; auto simp: persist_def persist_snapshot_def persist_supplementary_def
        recorder_ok_def writes_succeed_def Let_def of_write_succeeds split: if_splits)
qed (use assms(2) in \<open>auto simp: recorder_ok_def\<close>)

lemma recorder_loop_ok:
  assumes "recorder_ok r" "\<And>n. writes_succeed (world n)"
  shows "recorder_ok (recorder_loop world r)"
  using assms
proof (induction world r rule: recorder_loop.induct)
  case (1 world r)
  show ?case
  proof (cases "recorder_turn (world 0) r")
    case None
    with 1 show ?thesis by (simp add: recorder_loop.simps)
  next
    case (Some r')
    then have "recorder_ok r'" using recorder_turn_ok 1 by blast
    from 1(1) [OF Some this 1(3)] show ?thesis
      using Some by (subst recorder_loop.simps) simp
  qed
qed

definition recorder_flushed :: "(nat \<Rightarrow> turn_input) \<Rightarrow> recorder \<Rightarrow> recorder" where
  "recorder_flushed world r = snd (recorder_stop_joined (recorder_loop world (recorder_stop_begin r)))"

lemma recorder_flushed_state:
  assumes "recorder_step\<^sup>*\<^sup>* (init_recorder frequency start_tick) r"
  shows "recorder_step\<^sup>*\<^sup>* (init_recorder frequency start_tick) (recorder_loop world (recorder_stop_begin r))"
    and "rc_worker (recorder_loop world (recorder_stop_begin r)) = RecorderDone"
    and "rc_in_flight (recorder_loop world (recorder_stop_begin r)) = []"
    and "rc_accepted (recorder_loop world (recorder_stop_begin r)) = rc_accepted r"
proof -
  let ?r = "recorder_loop world (recorder_stop_begin r)"
  have "recorder_step\<^sup>*\<^sup>* (init_recorder frequency start_tick) (recorder_stop_begin r)"
    using assms step_recorder_stop by (rule rtranclp.rtrancl_into_rtrancl)
  then show reach: "recorder_step\<^sup>*\<^sup>* (init_recorder frequency start_tick) ?r"
    using recorder_loop_steps by (rule rtranclp_trans)
  have "rc_stopping (recorder_stop_begin r)"
    using recorder_inv_reachable [OF assms] by (auto simp: recorder_stop_begin_def recorder_inv_def)
  then have "rc_stopping ?r" using recorder_loop_keeps by blast
  with recorder_loop_blocked show finished: "rc_worker ?r = RecorderDone"
    by (rule recorder_blocked_stopping)
  show "rc_in_flight ?r = []"
    using recorder_inv_reachable [OF reach] finished by (simp add: rc_in_flight_def recorder_inv_def)
  show "rc_accepted ?r = rc_accepted r"
    using recorder_loop_keeps [of world "recorder_stop_begin r"] by (simp add: recorder_stop_begin_def)
qed

text \<open>What the three files hold once the given records have been written, with their ticks.\<close>

definition files_hold :: "recorder \<Rightarrow> (pending_record \<times> u64) list \<Rightarrow> bool" where
  "files_hold r written \<longleftrightarrow>
     of_contents (rc_raw_stream r) = concat (map snd (stored_snapshots 0 written)) \<and>
     of_contents (rc_timeline r) = timeline_header @ [newline] @
       concat (map (\<lambda>(rec, body). timeline_row rec @ [newline]) (stored_snapshots 0 written)) \<and>
     of_contents (rc_supplementary_timeline r) = supplementary_header @ [newline] @
       concat (map (\<lambda>rec. supplementary_row rec @ [newline]) (stored_observations written))"

lemma files_hold_persisted:
  assumes "recorder_step\<^sup>*\<^sup>* (init_recorder frequency start_tick) r" "recorder_ok r"
  shows "rc_accepted r = map fst (rc_persisted r) @ rc_in_flight r" "files_hold r (rc_persisted r)"
proof -
  have "stored_of (init_recorder frequency start_tick) = empty_session"
    by (simp add: stored_of_def init_recorder_def opened_def empty_session_def)
  then have facts: "rc_accepted r = map fst (rc_persisted r) @ rc_in_flight r"
      "run store empty_session (rc_persisted r) = ([], stored_of r)"
    using recorder_fifo.reachable_fifo [OF assms] by simp_all
  show "rc_accepted r = map fst (rc_persisted r) @ rc_in_flight r" by (rule facts(1))
  show "files_hold r (rc_persisted r)"
    using facts(2) by (simp add: files_hold_def run_store stored_of_def empty_session_def)
qed

lemma flushed_files_hold:
  assumes "recorder_step\<^sup>*\<^sup>* (init_recorder frequency start_tick) r" "recorder_ok r"
    and "\<And>n. writes_succeed (world n)"
  defines "r' \<equiv> recorder_loop world (recorder_stop_begin r)"
  shows "\<exists>ticks. length ticks = length (rc_accepted r) \<and> files_hold r' (zip (rc_accepted r) ticks)"
    and "fst (recorder_stop_joined r') = None"
proof -
  note flushed = recorder_flushed_state [OF assms(1), of world, folded r'_def]
  have "recorder_ok (recorder_stop_begin r)"
    using assms(2) by (simp add: recorder_ok_def recorder_stop_begin_def)
  then have ok: "recorder_ok r'" unfolding r'_def using assms(3) by (rule recorder_loop_ok)
  have accepted: "rc_accepted r = map fst (rc_persisted r')"
    using files_hold_persisted(1) [OF flushed(1) ok] flushed(3,4) by simp
  then have "zip (rc_accepted r) (map snd (rc_persisted r')) = rc_persisted r'"
    by (simp add: zip_map_fst_snd)
  with accepted files_hold_persisted(2) [OF flushed(1) ok]
  show "\<exists>ticks. length ticks = length (rc_accepted r) \<and> files_hold r' (zip (rc_accepted r) ticks)"
    by (intro exI [of _ "map snd (rc_persisted r')"]) simp
  show "fst (recorder_stop_joined r') = None"
    using ok by (simp add: recorder_stop_joined_def recorder_ok_def)
qed

text \<open>
  C15: \<open>stop_and_flush\<close> of the recorder ends: whatever becomes of the writes, the worker's loop
  returns and nothing stays queued. If no write has failed before and none fails now, then the
  three files hold, header by header and row by row, every record accepted before the stop
  in the order of acceptance (each with the tick at which it was written), the packed file their
  bodies one after the other, and the call reports no error.
\<close>

theorem recorder_flush_stores_everything:
  assumes "recorder_step\<^sup>*\<^sup>* (init_recorder frequency start_tick) r"
  shows "rc_worker (recorder_loop world (recorder_stop_begin r)) = RecorderDone
     \<and> rc_in_flight (recorder_loop world (recorder_stop_begin r)) = []
     \<and> (recorder_ok r \<and> (\<forall>n. writes_succeed (world n)) \<longrightarrow>
          (\<exists>ticks. length ticks = length (rc_accepted r) \<and>
             files_hold (recorder_loop world (recorder_stop_begin r)) (zip (rc_accepted r) ticks))
          \<and> fst (recorder_stop_joined (recorder_loop world (recorder_stop_begin r))) = None)"
  using recorder_flushed_state(2,3) [OF assms] flushed_files_hold [OF assms] by simp

theorem recorder_flush_stores_everything_witness:
  "(\<exists>ticks. length ticks = 2 \<and>
      files_hold (recorder_loop (\<lambda>_. demo_turn) (recorder_stop_begin demo_recorder)) (zip (rc_accepted demo_recorder) ticks))
   \<and> map snd (stored_snapshots 0 (zip (rc_accepted demo_recorder) [5, 5])) = [''ab'']"
proof -
  have "recorder_ok demo_recorder" by code_simp
  moreover have "writes_succeed demo_turn" by code_simp
  moreover have "length (rc_accepted demo_recorder) = 2" by code_simp
  moreover have "map snd (stored_snapshots 0 (zip (rc_accepted demo_recorder) [5, 5])) = [''ab'']" by code_simp
  ultimately show ?thesis
    using recorder_flush_stores_everything [OF demo_recorder_reachable, of "\<lambda>_. demo_turn"] by simp
qed

subsection \<open>A failed write\<close>

text \<open>The writes that the worker tests: that of a body and that of a supplementary row.\<close>

definition tested_failure :: "turn_input \<Rightarrow> recorder \<Rightarrow> pending_record \<Rightarrow> recorder_error option" where
  "tested_failure ti r pending =
     (case pending of
        RecordSnapshot rec body \<Rightarrow>
          (if of_bad (of_write (ti_raw_fails ti) (rc_raw_stream r) body) then Some RawWriteFailed else None)
      | RecordSupplementary rec \<Rightarrow>
          (if of_bad (of_write (ti_supplementary_fails ti) (rc_supplementary_timeline r)
                (supplementary_row (finished_observation rec (ti_now ti)) @ [newline]))
           then Some SupplementaryWriteFailed else None))"

lemma persist_tested: "fst (persist ti r pending) = tested_failure ti r pending"
  by (cases pending) (simp_all add: persist_def persist_snapshot_def persist_supplementary_def
      tested_failure_def finished_observation_def Let_def)

definition failed_with :: "recorder_error \<Rightarrow> recorder \<Rightarrow> recorder \<Rightarrow> bool" where
  "failed_with e r r' \<longleftrightarrow> rc_worker_error r' = Some e \<and> rc_worker r' = RecorderDone \<and>
     rc_accepted r' = rc_accepted r \<and> stored_of r' = stored_of r"

lemma failed_with_step:
  assumes "recorder_step r1 r2" "failed_with e r r1"
  shows "failed_with e r r2"
  using assms(1)
proof (cases rule: recorder_step_cases)
  case (worker ti)
  then show ?thesis using assms(2) by (simp add: recorder_turn_def failed_with_def)
qed (use assms(2) in \<open>auto simp: failed_with_def stored_of_def recorder_stop_begin_def recorder_stop_joined_def
    dest!: enqueue_snapshot_Inr enqueue_observation_Inr\<close>)

lemma failed_with_steps: "recorder_step\<^sup>*\<^sup>* r1 r2 \<Longrightarrow> failed_with e r r1 \<Longrightarrow> failed_with e r r2"
  by (induction rule: rtranclp_induct) (auto simp: failed_with_step)

lemma failed_turn:
  assumes "rc_worker r = RecorderBusy pending" "tested_failure ti r pending = Some e" "recorder_turn ti r = Some r'"
  shows "failed_with e r' r' \<and> rc_accepted r' = rc_accepted r"
  using assms(3)
proof (cases rule: recorder_turn_cases)
  case (failed pending' e' r1)
  moreover from this have "e' = e" using assms(1,2) persist_tested [of ti r pending] by simp
  ultimately show ?thesis
    by (simp_all add: failed_with_def persist_frame)
qed (use assms(1,2) persist_tested [of ti r pending] in simp_all)

text \<open>
  C38: Once the write of a body or of a supplementary row has failed (those of the timeline are
  not tested, see below), the recorder keeps that error for good: whatever clients, worker and
  \<open>stop_and_flush\<close> do after it, every snapshot is refused with that very error and not with the
  generic one, and so is every observation that is not refused for its counts or its tick;
  nothing is accepted, queued or written any more; and \<open>stop_and_flush\<close> reports the error
  the first time and stays silent after that.
\<close>

theorem recorder_reports_worker_error:
  assumes "recorder_step\<^sup>*\<^sup>* (init_recorder frequency start_tick) r"
    and "rc_worker r = RecorderBusy pending" "tested_failure ti r pending = Some e"
    and "recorder_turn ti r = Some r1" "recorder_step\<^sup>*\<^sup>* r1 r2"
  shows "enqueue_snapshot r2 accepted_tick body_tick ack_tick body = Inl e
     \<and> enqueue_observation r2 sn =
         Inl (if \<not> valid_team_counts (sn_teams sn) then InvalidTeamCounts
              else if sn_observed_tick sn < rc_start_tick r2 then TickBeforeStart else e)
     \<and> rc_accepted r2 = rc_accepted r \<and> rc_in_flight r2 = [] \<and> stored_of r2 = stored_of r1
     \<and> fst (recorder_stop_joined r2) = (if rc_stopped r2 then None else Some e)
     \<and> fst (recorder_stop_joined (snd (recorder_stop_joined r2))) = None"
proof -
  have failed: "failed_with e r1 r2" "rc_accepted r1 = rc_accepted r"
    using failed_turn [OF assms(2-4)] failed_with_steps [OF assms(5)] by blast+
  have "recorder_step\<^sup>*\<^sup>* (init_recorder frequency start_tick) r2"
    using assms(1) step_recorder_worker [OF assms(4)] assms(5) by (meson rtranclp.rtrancl_into_rtrancl rtranclp_trans)
  then have "rc_in_flight r2 = []"
    using recorder_inv_reachable failed(1) by (fastforce simp: rc_in_flight_def recorder_inv_def failed_with_def)
  then show ?thesis
    using failed by (auto simp: failed_with_def enqueue_snapshot_def enqueue_observation_def recorder_stop_joined_def)
qed

definition full_disk :: turn_input where
  "full_disk = \<lparr>ti_now = 9, ti_raw_fails = Some 1, ti_timeline_fails = None, ti_supplementary_fails = None\<rparr>"

definition demo_busy :: recorder where
  "demo_busy = recorder_advanced demo_both"

definition demo_failed :: recorder where
  "demo_failed = the (recorder_turn full_disk demo_busy)"

definition demo_pending :: pending_record where
  "demo_pending = (case rc_worker demo_busy of RecorderBusy p \<Rightarrow> p)"

theorem recorder_reports_worker_error_witness:
  "enqueue_snapshot demo_failed 0 0 0 ''x'' = Inl RawWriteFailed
   \<and> fst (recorder_stop_joined demo_failed) = Some RawWriteFailed
   \<and> of_contents (rc_raw_stream demo_failed) = ''a''"
proof -
  have reach: "recorder_step\<^sup>*\<^sup>* (init_recorder 1000000000 0) demo_busy"
    unfolding demo_busy_def by (rule recorder_advanced_reachable [OF demo_both_reachable]) code_simp
  have busy: "rc_worker demo_busy = RecorderBusy demo_pending" by code_simp
  have failure: "tested_failure full_disk demo_busy demo_pending = Some RawWriteFailed" by code_simp
  have "recorder_turn full_disk demo_busy \<noteq> None" by code_simp
  then have turn: "recorder_turn full_disk demo_busy = Some demo_failed" by (auto simp: demo_failed_def)
  have "\<not> rc_stopped demo_failed" by code_simp
  moreover have "of_contents (rc_raw_stream demo_failed) = ''a''" by code_simp
  ultimately show ?thesis
    using recorder_reports_worker_error [OF reach busy failure turn rtranclp.rtrancl_refl, of 0 0 0 "''x''" demo_snapshot]
    by simp
qed

definition timeline_full :: turn_input where
  "timeline_full = \<lparr>ti_now = 9, ti_raw_fails = None, ti_timeline_fails = Some 0, ti_supplementary_fails = None\<rparr>"

definition demo_unnoticed :: recorder where
  "demo_unnoticed = recorder_loop (\<lambda>_. timeline_full) (recorder_stop_begin demo_enqueued)"

text \<open>
  A row of the timeline that cannot be written is lost without notice: only the raw and
  the supplementary stream are tested after their writes. There is a run in which the payload
  is accepted and its body stored, no error is kept, \<open>stop_and_flush\<close> succeeds, and the
  timeline holds nothing but its header.
\<close>

theorem timeline_failure_unnoticed:
  "recorder_step\<^sup>*\<^sup>* (init_recorder 1000000000 0) demo_unnoticed
   \<and> fst (recorder_stop_joined demo_unnoticed) = None
   \<and> length (rc_persisted demo_unnoticed) = 1
   \<and> of_contents (rc_raw_stream demo_unnoticed) = ''ab''
   \<and> of_contents (rc_timeline demo_unnoticed) = timeline_header @ [newline]"
proof -
  have "recorder_step\<^sup>*\<^sup>* (init_recorder 1000000000 0) (recorder_stop_begin demo_enqueued)"
    using demo_enqueued_reachable step_recorder_stop by (rule rtranclp.rtrancl_into_rtrancl)
  then have "recorder_step\<^sup>*\<^sup>* (init_recorder 1000000000 0) demo_unnoticed"
    unfolding demo_unnoticed_def using recorder_loop_steps by (rule rtranclp_trans)
  moreover have "fst (recorder_stop_joined demo_unnoticed) = None" by code_simp
  moreover have "length (rc_persisted demo_unnoticed) = 1" by code_simp
  moreover have "of_contents (rc_raw_stream demo_unnoticed) = ''ab''" by code_simp
  moreover have "of_contents (rc_timeline demo_unnoticed) = timeline_header @ [newline]" by code_simp
  ultimately show ?thesis by blast
qed

end
