(* ===== verification/Session_Directory.thy ===== *)
theory Session_Directory
  imports Session_Text
begin

text \<open>
  How the constructor of \<open>SessionRecorder\<close> (\<open>src/session.cpp\<close>) finds the name of a new session:
  the local time, and a number behind it while a directory of that name exists. The loop
  has no bound of its own, so it is a partial function; \<open>names n\<close> is what the call number \<open>n\<close> of
  \<open>make_session_name\<close> answers, and the suffix is an \<open>unsigned\<close> that wraps.
\<close>

text \<open>\<open>std::tm\<close>, as the local time conversion of the system fills it: years since 1900, months from 0.\<close>

record local_time =
  tm_year :: int
  tm_mon :: int
  tm_mday :: int
  tm_hour :: int
  tm_min :: int
  tm_sec :: int

definition two_digits :: "int \<Rightarrow> string" where
  "two_digits n = pad_left 2 (int_to_string n)"

definition make_session_name :: "local_time \<Rightarrow> string" where
  "make_session_name tm =
     ''session_'' @ int_to_string (tm_year tm + 1900) @ two_digits (tm_mon tm + 1) @ two_digits (tm_mday tm)
       @ ''_'' @ two_digits (tm_hour tm) @ two_digits (tm_min tm) @ two_digits (tm_sec tm)"

text \<open>The fields in their documented ranges (a leap second included), and a year of four digits.\<close>

definition valid_time :: "local_time \<Rightarrow> bool" where
  "valid_time tm \<longleftrightarrow> tm_year tm \<in> {0..8099} \<and> tm_mon tm \<in> {0..11} \<and> tm_mday tm \<in> {1..31}
     \<and> tm_hour tm \<in> {0..23} \<and> tm_min tm \<in> {0..59} \<and> tm_sec tm \<in> {0..60}"

lemma length_session_name: "valid_time tm \<Longrightarrow> length (make_session_name tm) = 23"
proof -
  assume tm: "valid_time tm"
  have two: "length (two_digits n) = 2" if "0 \<le> n" "n < 100" for n
    using that length_pad_left [of "nat n" 2] by (simp add: two_digits_def int_to_string_def)
  have year: "0 \<le> tm_year tm" "tm_year tm \<le> 8099" using tm by (simp_all add: valid_time_def)
  let ?d = "length (nat_to_string (nat (tm_year tm + 1900)))"
  have "(10 :: nat) ^ (?d - 1) \<le> max 1 (nat (tm_year tm + 1900))" by (rule length_nat_to_string)
  also have "\<dots> < 10 ^ 4" using year by simp
  finally have "?d - 1 < 4" by (rule power_less_imp_less_exp [rotated]) simp
  moreover have "(10 :: nat) ^ 3 < 10 ^ ?d"
    by (rule le_less_trans [OF _ length_nat_to_string(2)]) (use year in simp)
  then have "3 < ?d" by (rule power_less_imp_less_exp [rotated]) simp
  ultimately have "?d = 4" by simp
  with tm two show ?thesis by (simp add: make_session_name_def valid_time_def int_to_string_def)
qed

definition suffixed :: "(nat \<Rightarrow> string) \<Rightarrow> nat \<Rightarrow> string" where
  "suffixed names n =
     (if n = 0 then names 0 else names n @ ''_'' @ nat_to_string (unat (of_nat n :: 32 word)))"

partial_function (option) choose_directory ::
  "(string \<Rightarrow> bool) \<Rightarrow> (nat \<Rightarrow> string) \<Rightarrow> nat \<Rightarrow> string \<Rightarrow> string option" where
  [code]: "choose_directory taken names suffix directory =
     (if taken directory then choose_directory taken names (suffix + 1) (suffixed names suffix)
      else Some directory)"

definition session_directory :: "(string \<Rightarrow> bool) \<Rightarrow> (nat \<Rightarrow> local_time) \<Rightarrow> string option" where
  "session_directory taken moments =
     (let names = \<lambda>n. make_session_name (moments n) in choose_directory taken names 1 (names 0))"

lemma choose_directory_from:
  assumes "\<not> taken (suffixed names m)" "n \<le> m" "\<forall>k. n \<le> k \<and> k < m \<longrightarrow> taken (suffixed names k)"
  shows "choose_directory taken names (Suc n) (suffixed names n) = Some (suffixed names m)"
  using assms(2,3)
proof (induction "m - n" arbitrary: n)
  case 0
  then have "n = m" by simp
  with assms(1) show ?case by (simp add: choose_directory.simps)
next
  case (Suc d)
  then have "taken (suffixed names n)" by simp
  moreover have "choose_directory taken names (Suc (Suc n)) (suffixed names (Suc n)) = Some (suffixed names m)"
    using Suc by simp
  ultimately show ?case by (subst choose_directory.simps) simp
qed

lemma suffixed_inject:
  assumes "\<And>n. length (names n) = l" "m < 2 ^ 32" "n < 2 ^ 32" "suffixed names m = suffixed names n"
  shows "m = n"
proof -
  have small: "unat (of_nat k :: 32 word) = k" if "k < 2 ^ 32" for k
    using that by (simp add: unat_of_nat take_bit_nat_eq_self)
  show ?thesis
  proof (cases "m = 0 \<or> n = 0")
    case True
    have "length (suffixed names k) > l" if "k \<noteq> 0" for k
      using that assms(1) by (simp add: suffixed_def)
    moreover have "length (suffixed names 0) = l" using assms(1) by (simp add: suffixed_def)
    ultimately show ?thesis using True assms(4) by (metis less_irrefl)
  next
    case False
    then have "names m @ ''_'' @ nat_to_string m = names n @ ''_'' @ nat_to_string n"
      using assms(4) small [OF assms(2)] small [OF assms(3)] by (simp add: suffixed_def)
    moreover have "length (names m) = length (names n)" using assms(1) by simp
    ultimately show ?thesis by simp
  qed
qed

lemma fresh_directory:
  assumes "finite {d. taken d}" "card {d. taken d} < 2 ^ 32" "\<And>n. valid_time (moments n)"
  shows "\<exists>directory. session_directory taken moments = Some directory \<and> \<not> taken directory"
proof -
  define names where "names = (\<lambda>n. make_session_name (moments n))"
  have width: "length (names n) = 23" for n using assms(3) by (simp add: names_def length_session_name)
  have "\<exists>m < 2 ^ 32. \<not> taken (suffixed names m)"
  proof (rule ccontr)
    assume "\<not> (\<exists>m < 2 ^ 32. \<not> taken (suffixed names m))"
    then have "suffixed names ` {..<2 ^ 32} \<subseteq> {d. taken d}" by auto
    then have "card (suffixed names ` {..<2 ^ 32}) \<le> card {d. taken d}"
      by (rule card_mono [OF assms(1)])
    moreover have "inj_on (suffixed names) {..<2 ^ 32}"
      by (rule inj_onI) (use suffixed_inject [of names 23] width in simp)
    ultimately have "2 ^ 32 \<le> card {d. taken d}" by (simp add: card_image)
    with assms(2) show False by simp
  qed
  then obtain m where m: "\<not> taken (suffixed names m)" "\<forall>k < m. taken (suffixed names k)"
    using exists_least_iff [of "\<lambda>m. \<not> taken (suffixed names m)"] by blast
  then have "choose_directory taken names (Suc 0) (suffixed names 0) = Some (suffixed names m)"
    by (intro choose_directory_from) simp_all
  then have "session_directory taken moments = Some (suffixed names m)"
    by (simp add: session_directory_def suffixed_def names_def)
  with m(1) show ?thesis by blast
qed

text \<open>
  C33: The search for a free session directory ends: if fewer than \<open>2\<^sup>3\<^sup>2\<close> names are taken, and
  the times are all printed with the same width, then it returns a name that is not taken.
\<close>

theorem session_directory_is_fresh:
  assumes "finite {d. taken d}" "card {d. taken d} < 2 ^ 32" "\<And>n. valid_time (moments n)"
  shows "\<exists>directory. session_directory taken moments = Some directory \<and> \<not> taken directory"
  using assms by (rule fresh_directory)

text \<open>A session started in the second in which two others have been.\<close>

definition demo_time :: local_time where
  "demo_time = \<lparr>tm_year = 126, tm_mon = 7, tm_mday = 22, tm_hour = 11, tm_min = 0, tm_sec = 5\<rparr>"

theorem session_directory_is_fresh_witness:
  "\<exists>directory. session_directory (\<lambda>d. d \<in> {''session_20260822_110005'', ''session_20260822_110005_1''})
       (\<lambda>_. demo_time) = Some directory
     \<and> directory \<notin> {''session_20260822_110005'', ''session_20260822_110005_1''}"
proof -
  have "card {''session_20260822_110005'', ''session_20260822_110005_1''} < (2 ^ 32 :: nat)" by simp
  then have "card {d. d \<in> {''session_20260822_110005'', ''session_20260822_110005_1''}} < 2 ^ 32"
    by (simp only: Collect_mem_eq)
  moreover have "valid_time demo_time" by (simp add: valid_time_def demo_time_def)
  ultimately show ?thesis
    using session_directory_is_fresh [of "\<lambda>d. d \<in> {''session_20260822_110005'', ''session_20260822_110005_1''}"
        "\<lambda>_. demo_time"] by simp
qed

lemma demo_session_name: "make_session_name demo_time = ''session_20260822_110005''"
  by code_simp

end
