(* ===== verification/Recorder_Start.thy ===== *)
theory Recorder_Start
  imports Recorder Session_Directory Replay
begin

text \<open>
  The constructor of \<open>SessionRecorder\<close> (\<open>src/session.cpp\<close>) with its failures: the directories, the
  search for a free name, the four files with their headers and the start of the worker. What
  the file system answers is an input. A file that could be opened stays behind when a later
  step throws; whether a header was written completely is never looked at.
\<close>

datatype recorder_start_error =
    CannotCreateDirectory
  | NoMetadata
  | NoTimeline
  | NoSupplementaryTimeline
  | NoRawStream
  | NoWorkerThread

definition recorder_start_text :: "recorder_start_error \<Rightarrow> string option" where
  "recorder_start_text e =
     (case e of
        NoMetadata \<Rightarrow> Some ''Could not create session metadata.json''
      | NoTimeline \<Rightarrow> Some ''Could not create session timeline.tsv''
      | NoSupplementaryTimeline \<Rightarrow> Some ''Could not create session supplementary.timeline.tsv''
      | NoRawStream \<Rightarrow> Some ''Could not create session raw.gsi''
      | _ \<Rightarrow> None)"

text \<open>The answers of the file system; the three numbers say after how many bytes a header write fails.\<close>

record disk_results =
  dr_root_made :: bool
  dr_directory_made :: bool
  dr_metadata_opens :: bool
  dr_metadata_fails :: "nat option"
  dr_timeline_opens :: bool
  dr_timeline_fails :: "nat option"
  dr_supplementary_opens :: bool
  dr_supplementary_fails :: "nat option"
  dr_raw_opens :: bool
  dr_thread_starts :: bool

text \<open>\<open>operator/\<close> of paths, for a second part that is relative.\<close>

definition separator :: "clock_build \<Rightarrow> char" where
  "separator build = (case build of WindowsBuild \<Rightarrow> CHR 0x5C | PosixBuild \<Rightarrow> CHR ''/'')"

definition path_join :: "clock_build \<Rightarrow> string \<Rightarrow> string \<Rightarrow> string" where
  "path_join build a b =
     (if a = [] \<or> last a = CHR ''/'' \<or> last a = separator build then a @ b else a @ [separator build] @ b)"

text \<open>The files in the order of their creation, and the object or the exception.\<close>

type_synonym created_files = "(string \<times> string) list"

definition open_files ::
  "disk_results \<Rightarrow> application_info \<Rightarrow> clock_info \<Rightarrow> u64 \<Rightarrow> created_files \<times> (recorder_start_error + recorder)" where
  "open_files dr app info start_tick =
     (if \<not> dr_metadata_opens dr then ([], Inl NoMetadata)
      else
        (let metadata = of_write (dr_metadata_fails dr) (opened []) (metadata_json app info start_tick);
             files1 = [(''metadata.json'', of_contents metadata)] in
         if \<not> dr_timeline_opens dr then (files1, Inl NoTimeline)
         else
           (let timeline = of_write (dr_timeline_fails dr) (opened []) (timeline_header @ [newline]);
                files2 = files1 @ [(''timeline.tsv'', of_contents timeline)] in
            if \<not> dr_supplementary_opens dr then (files2, Inl NoSupplementaryTimeline)
            else
              (let supplementary = of_write (dr_supplementary_fails dr) (opened []) (supplementary_header @ [newline]);
                   files3 = files2 @ [(''supplementary.timeline.tsv'', of_contents supplementary)] in
               if \<not> dr_raw_opens dr then (files3, Inl NoRawStream)
               else
                 (let files4 = files3 @ [(''raw.gsi'', [])] in
                  if \<not> dr_thread_starts dr then (files4, Inl NoWorkerThread)
                  else (files4, Inr ((init_recorder (ci_frequency info) start_tick)
                    \<lparr>rc_timeline := timeline, rc_supplementary_timeline := supplementary\<rparr>)))))))"

text \<open>
  The whole constructor; the result is \<open>None\<close> when the search for a name does not end. Only a
  session whose directory was made has one.
\<close>

definition construct_recorder ::
  "clock_build \<Rightarrow> disk_results \<Rightarrow> (string \<Rightarrow> bool) \<Rightarrow> (nat \<Rightarrow> local_time) \<Rightarrow> string \<Rightarrow> application_info
     \<Rightarrow> clock_info \<Rightarrow> u64 \<Rightarrow> (string option \<times> created_files \<times> (recorder_start_error + recorder)) option" where
  "construct_recorder build dr path_exists moments sessions_root app info start_tick =
     (if \<not> dr_root_made dr then Some (None, [], Inl CannotCreateDirectory)
      else
        (case session_directory (\<lambda>name. path_exists (path_join build sessions_root name)) moments of
           None \<Rightarrow> None
         | Some name \<Rightarrow>
             if \<not> dr_directory_made dr then Some (None, [], Inl CannotCreateDirectory)
             else Some (Some (path_join build sessions_root name), open_files dr app info start_tick)))"

text \<open>The file system answers everything and writes the headers.\<close>

definition headers_written :: "disk_results \<Rightarrow> bool" where
  "headers_written dr \<longleftrightarrow>
     dr_metadata_fails dr = None \<and> dr_timeline_fails dr = None \<and> dr_supplementary_fails dr = None"

lemma open_files_Inr:
  assumes "open_files dr app info start_tick = (files, Inr r)" "headers_written dr"
  shows "r = init_recorder (ci_frequency info) start_tick"
  using assms
  by (auto simp: open_files_def headers_written_def of_write_def opened_def init_recorder_def Let_def
      split: if_splits)

subsection \<open>What a failed constructor leaves\<close>

text \<open>The directory as the loaders see it.\<close>

definition files_on_disk :: "created_files \<Rightarrow> session_files" where
  "files_on_disk files =
     \<lparr>sf_timeline = map_of files ''timeline.tsv'', sf_supplementary = map_of files ''supplementary.timeline.tsv'',
      sf_raw_gsi = map_of files ''raw.gsi'', sf_raw_directory = (\<lambda>_. None)\<rparr>"

definition empty_session :: "session_files \<Rightarrow> bool" where
  "empty_session files \<longleftrightarrow> load_replay_stream files = Inr []"

text \<open>A cut-off header is one line or none, and no row.\<close>

lemma cut_header:
  assumes "newline \<notin> set h" "prefix p (h @ [newline])"
  shows "read_rows p = []" "read_header p = h \<longleftrightarrow> prefix h p"
proof -
  have "(read_rows p = []) \<and> (read_header p = h \<longleftrightarrow> prefix h p)"
  proof (cases "p = h @ [newline]")
    case True
    then have "getlines p = [h]" using getlines_cons [OF assms(1), of "[]"] by simp
    with True show ?thesis by (simp add: read_rows_def read_header_def)
  next
    case False
    then have p: "prefix p h" using assms(2) by (simp add: prefix_snoc)
    then have "newline \<notin> set p" using assms(1) set_mono_prefix by fastforce
    then have line: "takeWhile (\<lambda>c. c \<noteq> newline) p = p" "dropWhile (\<lambda>c. c \<noteq> newline) p = []" by auto
    have "getlines p = (if p = [] then [] else [p])" by (simp only: getlines.simps [of p] line list.case)
    then have "read_rows p = []" "read_header p = p" by (simp_all add: read_rows_def read_header_def)
    with p show ?thesis using prefix_order.antisym by auto
  qed
  then show "read_rows p = []" "read_header p = h \<longleftrightarrow> prefix h p" by simp_all
qed

lemma headers_plain: "newline \<notin> set timeline_header" "newline \<notin> set supplementary_header"
  by code_simp+

lemma cut_timeline:
  "sf_timeline files = Some p \<Longrightarrow> prefix p (timeline_header @ [newline]) \<Longrightarrow> load_timeline files = Inr []"
  using cut_header(1) [OF headers_plain(1)] by (simp add: load_timeline_def)

lemma cut_supplementary:
  "sf_supplementary files = Some p \<Longrightarrow> prefix p (supplementary_header @ [newline]) \<Longrightarrow>
   load_supplementary_timeline files = (if prefix supplementary_header p then Inr [] else Inl UnsupportedSchema)"
  using cut_header [OF headers_plain(2)] by (simp add: load_supplementary_timeline_def)

text \<open>The files of a complete constructor in the order of their creation, and how many of them are made.\<close>

definition start_files :: "application_info \<Rightarrow> clock_info \<Rightarrow> u64 \<Rightarrow> created_files" where
  "start_files app info start_tick =
     [(''metadata.json'', metadata_json app info start_tick), (''timeline.tsv'', timeline_header @ [newline]),
      (''supplementary.timeline.tsv'', supplementary_header @ [newline]), (''raw.gsi'', [])]"

fun files_made :: "recorder_start_error \<Rightarrow> nat" where
  "files_made CannotCreateDirectory = 0"
| "files_made NoMetadata = 0"
| "files_made NoTimeline = 1"
| "files_made NoSupplementaryTimeline = 2"
| "files_made NoRawStream = 3"
| "files_made NoWorkerThread = 4"

definition cut_file :: "string \<times> string \<Rightarrow> string \<times> string \<Rightarrow> bool" where
  "cut_file f g \<longleftrightarrow> fst f = fst g \<and> prefix (snd f) (snd g)"

lemma header_write_prefix: "prefix (of_contents (of_write k (opened []) text)) text"
  by (simp add: of_write_def opened_def take_is_prefix split: option.splits)

lemma failed_open_files:
  assumes "open_files dr app info start_tick = (files, Inl e)"
  shows "list_all2 cut_file files (take (files_made e) (start_files app info start_tick))"
    and "e \<noteq> CannotCreateDirectory"
  using assms
  by (auto simp: open_files_def start_files_def cut_file_def header_write_prefix Let_def
      simp del: prefix_snoc split: if_splits)

lemma failed_open_files_complete:
  assumes "open_files dr app info start_tick = (files, Inl e)" "headers_written dr"
  shows "files = take (files_made e) (start_files app info start_tick)"
  using assms
  by (auto simp: open_files_def start_files_def headers_written_def of_write_def opened_def Let_def split: if_splits)

lemma cut_session:
  assumes "list_all2 cut_file files (take (files_made e) (start_files app info start_tick))"
  shows "empty_session (files_on_disk files) \<longleftrightarrow> e \<notin> {CannotCreateDirectory, NoMetadata, NoTimeline}
     \<and> pred_option (prefix supplementary_header) (sf_supplementary (files_on_disk files))"
proof (cases "files_made e < 2")
  case True
  then have "sf_timeline (files_on_disk files) = None" "e \<in> {CannotCreateDirectory, NoMetadata, NoTimeline}"
    using assms by (cases e; auto simp: start_files_def cut_file_def files_on_disk_def list_all2_Cons2)+
  then show ?thesis by (simp add: empty_session_def load_replay_stream_def load_timeline_def)
next
  case False
  then have e: "e \<notin> {CannotCreateDirectory, NoMetadata, NoTimeline}" by (cases e) auto
  obtain p where timeline: "sf_timeline (files_on_disk files) = Some p" "prefix p (timeline_header @ [newline])"
    using assms False by (cases e) (auto simp: start_files_def cut_file_def files_on_disk_def list_all2_Cons2 simp del: prefix_snoc)
  have supplementary: "pred_option (\<lambda>p. prefix p (supplementary_header @ [newline])) (sf_supplementary (files_on_disk files))"
    using assms False
    by (cases e) (auto simp: start_files_def cut_file_def files_on_disk_def list_all2_Cons2 simp del: prefix_snoc)
  show ?thesis
  proof (cases "sf_supplementary (files_on_disk files)")
    case None
    with e cut_timeline [OF timeline] show ?thesis
      by (simp add: empty_session_def load_replay_stream_def load_supplementary_timeline_def)
  next
    case (Some p)
    then have "prefix p (supplementary_header @ [newline])" using supplementary by simp
    with e Some cut_timeline [OF timeline] cut_supplementary [OF Some this] show ?thesis
      by (simp add: empty_session_def load_replay_stream_def)
  qed
qed

text \<open>
  C37: A constructor that throws leaves the files that it had opened before, each with a first part
  of its text, for the writes of the headers are not tested; if they all succeed the texts
  are complete. The directory can then be read as a session without observations exactly
  if the timeline had been opened and the supplementary file, if there is one, has the whole
  line of its header.
\<close>

theorem failed_recorder_start:
  assumes "open_files dr app info start_tick = (files, Inl e)"
  shows "list_all2 cut_file files (take (files_made e) (start_files app info start_tick))
     \<and> (headers_written dr \<longrightarrow> files = take (files_made e) (start_files app info start_tick))
     \<and> (empty_session (files_on_disk files) \<longleftrightarrow> e \<notin> {NoMetadata, NoTimeline}
          \<and> pred_option (prefix supplementary_header) (sf_supplementary (files_on_disk files)))"
  using failed_open_files [OF assms] failed_open_files_complete [OF assms] cut_session by blast

text \<open>A disk on which everything works, and one on which \<open>raw.gsi\<close> cannot be opened.\<close>

definition good_disk :: disk_results where
  "good_disk = \<lparr>dr_root_made = True, dr_directory_made = True, dr_metadata_opens = True, dr_metadata_fails = None,
     dr_timeline_opens = True, dr_timeline_fails = None, dr_supplementary_opens = True,
     dr_supplementary_fails = None, dr_raw_opens = True, dr_thread_starts = True\<rparr>"

lemma good_disk_headers [simp]: "headers_written good_disk"
  by (simp add: headers_written_def good_disk_def)

definition demo_app :: application_info where
  "demo_app = \<lparr>ai_application = ''CSPromator'', ai_application_version = ''0.0.8'', ai_edition = ''gsi''\<rparr>"

text \<open>The disk is full in the middle of the supplementary header, and \<open>raw.gsi\<close> cannot be opened.\<close>

definition cut_disk :: disk_results where
  "cut_disk = good_disk\<lparr>dr_supplementary_fails := Some 9, dr_raw_opens := False\<rparr>"

theorem failed_recorder_start_witness:
  "files_made NoRawStream = 3
   \<and> empty_session (files_on_disk (fst (open_files (good_disk\<lparr>dr_raw_opens := False\<rparr>) demo_app
        (clock_info_of PosixBuild 1000000000) 5)))
   \<and> \<not> empty_session (files_on_disk (fst (open_files cut_disk demo_app (clock_info_of PosixBuild 1000000000) 5)))"
proof -
  let ?good = "open_files (good_disk\<lparr>dr_raw_opens := False\<rparr>) demo_app (clock_info_of PosixBuild 1000000000) 5"
    and ?cut = "open_files cut_disk demo_app (clock_info_of PosixBuild 1000000000) 5"
  have "snd ?good = Inl NoRawStream" "snd ?cut = Inl NoRawStream" by code_simp+
  then have good: "?good = (fst ?good, Inl NoRawStream)" and cut: "?cut = (fst ?cut, Inl NoRawStream)"
    by (simp_all add: prod_eq_iff)
  have "sf_supplementary (files_on_disk (fst ?good)) = Some (supplementary_header @ [newline])"
    "sf_supplementary (files_on_disk (fst ?cut)) = Some ''ingress_o''" "\<not> prefix supplementary_header ''ingress_o''"
    by code_simp+
  with failed_recorder_start [OF good] failed_recorder_start [OF cut] show ?thesis by simp
qed

text \<open>
  A header that is cut off goes unnoticed also where the constructor succeeds: the recorder runs
  on the broken stream, which takes no row any more.
\<close>

definition short_header_disk :: disk_results where
  "short_header_disk = good_disk\<lparr>dr_timeline_fails := Some 3\<rparr>"

definition short_header_recorder :: recorder where
  "short_header_recorder = projr (snd (open_files short_header_disk demo_app (clock_info_of PosixBuild 1000000000) 5))"

theorem short_header_unnoticed:
  "snd (open_files short_header_disk demo_app (clock_info_of PosixBuild 1000000000) 5) = Inr short_header_recorder
   \<and> of_contents (rc_timeline short_header_recorder) = ''ing''
   \<and> of_write k (rc_timeline short_header_recorder) row = rc_timeline short_header_recorder"
proof -
  have "\<not> isl (snd (open_files short_header_disk demo_app (clock_info_of PosixBuild 1000000000) 5))" by code_simp
  then have "snd (open_files short_header_disk demo_app (clock_info_of PosixBuild 1000000000) 5) = Inr short_header_recorder"
    by (simp add: short_header_recorder_def)
  moreover have "of_contents (rc_timeline short_header_recorder) = ''ing''" by code_simp
  moreover have "of_bad (rc_timeline short_header_recorder)" by code_simp
  ultimately show ?thesis by (simp add: of_write_def)
qed

end
