(* ===== verification/Http.thy ===== *)
theory Http
  imports Ingress
begin

text \<open>
  Class \<open>GsiHttpServer\<close> (\<open>src/http_server.cpp\<close>): reading one request from a socket, and the
  loop of \<open>run\<close> over accepted connections. The operating system is a parameter: a socket to
  read from is the list of chunks that \<open>recv\<close> returns (an empty chunk, or the end of the list,
  is a result that is not positive), a socket to write to the list of results of \<open>send\<close>.
\<close>

subsection \<open>Text of the header\<close>

definition lower_char :: "char \<Rightarrow> char" where
  "lower_char c = (let n = of_char c :: nat in if 65 \<le> n \<and> n \<le> 90 then char_of (n + 32) else c)"

definition lower_copy :: "string \<Rightarrow> string" where
  "lower_copy text = map lower_char text"

abbreviation crlf :: string where "crlf \<equiv> [CHR 0x0D, CHR 0x0A]"

fun find_sub :: "string \<Rightarrow> string \<Rightarrow> nat option" where
  "find_sub needle [] = (if needle = [] then Some 0 else None)"
| "find_sub needle (c # cs) =
     (if prefix needle (c # cs) then Some 0 else map_option Suc (find_sub needle cs))"

text \<open>
  The limits as predicates: an equation over \<open>int\<close> lets evaluation compare without counting.
\<close>

definition max_header_bytes :: nat where "max_header_bytes = 65536"
definition max_body_bytes :: nat where "max_body_bytes = 4194304"

definition header_overflow :: "nat \<Rightarrow> bool" where
  "header_overflow n \<longleftrightarrow> n > max_header_bytes"

definition body_overflow :: "nat \<Rightarrow> bool" where
  "body_overflow n \<longleftrightarrow> n > max_body_bytes"

definition size_overflow :: "nat \<Rightarrow> bool" where
  "size_overflow n \<longleftrightarrow> n \<ge> 2 ^ 64"

lemma overflow_code [code]:
  "header_overflow n \<longleftrightarrow> int n > 65536"
  "body_overflow n \<longleftrightarrow> int n > 4194304"
  "size_overflow n \<longleftrightarrow> int n \<ge> 18446744073709551616"
  by (simp_all add: header_overflow_def body_overflow_def size_overflow_def max_header_bytes_def
      max_body_bytes_def)

text \<open>\<open>std::from_chars\<close> for a \<open>std::size_t\<close>: no sign, the longest run of digits, no overflow.\<close>

definition from_chars_size :: "string \<Rightarrow> nat option" where
  "from_chars_size s =
     (let ds = takeWhile is_digit s
      in if ds = [] then None
         else if size_overflow (digits_value ds) then None
         else Some (digits_value ds))"

definition content_length_of_line :: "string \<Rightarrow> nat option" where
  "content_length_of_line line =
     (case find_sub '':'' line of
        None \<Rightarrow> None
      | Some colon \<Rightarrow>
          if lower_copy (take colon line) = ''content-length''
          then from_chars_size (dropWhile is_space (drop (colon + 1) line))
          else None)"

lemma find_sub_bound: "find_sub needle s = Some i \<Longrightarrow> i + length needle \<le> length s"
  by (induction needle s arbitrary: i rule: find_sub.induct)
    (auto split: if_splits dest: prefix_length_le)

function parse_content_length :: "string \<Rightarrow> nat option" where
  "parse_content_length headers =
     (if headers = [] then None
      else
        (let line_end = find_sub crlf headers;
             line = (case line_end of None \<Rightarrow> headers | Some e \<Rightarrow> take e headers)
         in case content_length_of_line line of
              Some n \<Rightarrow> Some n
            | None \<Rightarrow>
                (case line_end of
                   None \<Rightarrow> None
                 | Some e \<Rightarrow> parse_content_length (drop (e + 2) headers))))"
  by pat_completeness auto
termination parse_content_length
  by (relation "measure length") auto

subsection \<open>One request\<close>

record http_request =
  hr_method :: string
  hr_body :: string

text \<open>The two loops around \<open>recv\<close>.\<close>

fun receive_headers :: "string \<Rightarrow> string list \<Rightarrow> (nat \<times> string \<times> string list) option" where
  "receive_headers buffer chunks =
     (case find_sub (crlf @ crlf) buffer of
        Some header_end \<Rightarrow> Some (header_end, buffer, chunks)
      | None \<Rightarrow>
          (case chunks of
             [] \<Rightarrow> None
           | chunk # rest \<Rightarrow>
               if chunk = [] then None
               else if header_overflow (length (buffer @ chunk)) then None
               else receive_headers (buffer @ chunk) rest))"

fun receive_body :: "nat \<Rightarrow> nat \<Rightarrow> string \<Rightarrow> string list \<Rightarrow> string option" where
  "receive_body body_start n buffer chunks =
     (if length buffer - body_start < n then
        (case chunks of
           [] \<Rightarrow> None
         | chunk # rest \<Rightarrow>
             if chunk = [] then None
             else if body_overflow (length (buffer @ chunk) - body_start) then None
             else receive_body body_start n (buffer @ chunk) rest)
      else Some buffer)"

declare parse_content_length.simps [simp del]
declare receive_headers.simps [simp del] receive_body.simps [simp del]

definition receive_request :: "string list \<Rightarrow> http_request option" where
  "receive_request chunks =
     (case receive_headers [] chunks of
        None \<Rightarrow> None
      | Some (header_end, buffer, rest) \<Rightarrow>
          (let headers = take header_end buffer
           in case find_sub '' '' headers of
                None \<Rightarrow> None
              | Some first_space \<Rightarrow>
                  (case parse_content_length headers of
                     None \<Rightarrow> None
                   | Some n \<Rightarrow>
                       if body_overflow n then None
                       else map_option
                         (\<lambda>full. \<lparr>hr_method = take first_space headers,
                                  hr_body = take n (drop (header_end + 4) full)\<rparr>)
                         (receive_body (header_end + 4) n buffer rest))))"

text \<open>\<open>send_all\<close>: how far it got and its answer, given the results of \<open>send\<close>.\<close>

fun send_all :: "int list \<Rightarrow> string \<Rightarrow> nat \<Rightarrow> bool \<times> nat" where
  "send_all results data sent_total =
     (if sent_total < length data then
        (case results of
           [] \<Rightarrow> (False, sent_total)
         | sent # rest \<Rightarrow>
             if sent \<le> 0 then (False, sent_total) else send_all rest data (sent_total + nat sent))
      else (True, sent_total))"

declare send_all.simps [simp del]

subsection \<open>One connection\<close>

definition bad_request :: string where
  "bad_request = ''HTTP/1.1 400 Bad Request'' @ crlf @ ''Connection: close'' @ crlf
     @ ''Content-Length: 0'' @ crlf @ crlf"

definition method_not_allowed :: string where
  "method_not_allowed = ''HTTP/1.1 405 Method Not Allowed'' @ crlf @ ''Connection: close'' @ crlf
     @ ''Content-Length: 0'' @ crlf @ crlf"

definition ok_response :: string where
  "ok_response = ''HTTP/1.1 200 OK'' @ crlf @ ''Connection: close'' @ crlf
     @ ''Content-Length: 0'' @ crlf @ crlf"

text \<open>
  What one turn of the accept loop sees: the time of the accept, the bytes, the times after
  reading and after answering. The answer is sent before the observation goes to the gate.
\<close>

record connection =
  cn_accepted_tick :: u64
  cn_chunks :: "string list"
  cn_body_complete_tick :: u64
  cn_ack_sent_tick :: u64

definition serve_connection ::
  "telemetry \<Rightarrow> connection \<Rightarrow> string \<times> (ingress_error + snapshot_record) option \<times> telemetry" where
  "serve_connection t cn =
     (case receive_request (cn_chunks cn) of
        None \<Rightarrow> (bad_request, None, t)
      | Some request \<Rightarrow>
          if hr_method request \<noteq> ''POST'' then (method_not_allowed, None, t)
          else
            (let (result, t') = ingress_gsi t (cn_accepted_tick cn) (cn_body_complete_tick cn)
                   (cn_ack_sent_tick cn) (hr_body request)
             in (ok_response, Some result, t')))"

text \<open>
  \<open>run\<close> over what \<open>select\<close> and \<open>accept\<close> report: a quiet or failed poll, or a connection. The
  two workers may take a turn at any time. An exception of the gate leaves the loop and
  reaches \<open>main\<close>; a stop request is seen at the next turn.
\<close>

datatype accept_event =
    NoConnection
  | StopRequested
  | Accepted connection
  | RecorderTurn turn_input
  | PipelineTurn

definition recorder_works_on :: "turn_input \<Rightarrow> telemetry \<Rightarrow> telemetry" where
  "recorder_works_on ti t =
     (case recorder_turn ti (tm_recorder t) of None \<Rightarrow> t | Some r \<Rightarrow> t\<lparr>tm_recorder := r\<rparr>)"

definition pipeline_works_on :: "(batch \<Rightarrow> string option) \<Rightarrow> telemetry \<Rightarrow> telemetry" where
  "pipeline_works_on throws t =
     (case worker_turn throws (tm_pipeline t) of None \<Rightarrow> t | Some p \<Rightarrow> t\<lparr>tm_pipeline := p\<rparr>)"

fun serve ::
  "(batch \<Rightarrow> string option) \<Rightarrow> telemetry \<Rightarrow> accept_event list \<Rightarrow> string list \<times> ingress_error option \<times> telemetry" where
  "serve throws t [] = ([], None, t)"
| "serve throws t (NoConnection # es) = serve throws t es"
| "serve throws t (StopRequested # es) = ([], None, t)"
| "serve throws t (RecorderTurn ti # es) = serve throws (recorder_works_on ti t) es"
| "serve throws t (PipelineTurn # es) = serve throws (pipeline_works_on throws t) es"
| "serve throws t (Accepted cn # es) =
     (let (response, result, t1) = serve_connection t cn
      in case result of
           Some (Inl e) \<Rightarrow> ([response], Some e, t1)
         | _ \<Rightarrow> (let (responses, err, t2) = serve throws t1 es in (response # responses, err, t2)))"

subsection \<open>Searching in a growing buffer\<close>

lemma prefix_append_left: "prefix needle b \<Longrightarrow> prefix needle (b @ c)"
  by (rule prefix_prefix)

lemma prefix_short: "prefix needle (b @ c) \<Longrightarrow> length needle \<le> length b \<Longrightarrow> prefix needle b"
  by (metis prefix_length_prefix prefixI)

lemma find_sub_append: "find_sub needle b = Some i \<Longrightarrow> find_sub needle (b @ c) = Some i"
proof (induction b arbitrary: i)
  case Nil
  then show ?case by (cases c) (auto split: if_splits)
next
  case (Cons x b)
  show ?case
  proof (cases "prefix needle (x # b)")
    case True
    with Cons.prems show ?thesis using prefix_append_left [OF True, of c] by simp
  next
    case False
    with Cons.prems obtain j where j: "find_sub needle b = Some j" "i = Suc j" by auto
    have "\<not> prefix needle (x # b @ c)"
      using prefix_short [of needle "x # b" c] find_sub_bound [OF j(1)] False by auto
    with j Cons.IH show ?thesis by simp
  qed
qed

lemma find_sub_late:
  assumes "find_sub needle b = None" "find_sub needle (b @ c) = Some i"
  shows "length b < i + length needle"
  using assms
proof (induction b arbitrary: i)
  case Nil
  then show ?case by (auto split: if_splits)
next
  case (Cons x b)
  show ?case
  proof (cases "prefix needle (x # b @ c)")
    case True
    have "\<not> length needle \<le> length (x # b)"
    proof
      assume "length needle \<le> length (x # b)"
      with True have "prefix needle (x # b)"
        using prefix_short [of needle "x # b" c] by simp
      with Cons.prems(1) show False by simp
    qed
    then show ?thesis by simp
  next
    case False
    with Cons.prems obtain j where "find_sub needle (b @ c) = Some j" "i = Suc j"
      by (auto split: if_splits)
    moreover have "find_sub needle b = None"
      using Cons.prems(1) by (auto split: if_splits)
    ultimately show ?thesis using Cons.IH by simp
  qed
qed

subsection \<open>The request in the whole stream\<close>

text \<open>What a client has sent, read at once.\<close>

definition request_of :: "string \<Rightarrow> http_request option" where
  "request_of stream =
     (case find_sub (crlf @ crlf) stream of
        None \<Rightarrow> None
      | Some header_end \<Rightarrow>
          (let headers = take header_end stream
           in case find_sub '' '' headers of
                None \<Rightarrow> None
              | Some first_space \<Rightarrow>
                  (case parse_content_length headers of
                     None \<Rightarrow> None
                   | Some n \<Rightarrow>
                       if body_overflow n \<or> length stream - (header_end + 4) < n then None
                       else Some \<lparr>hr_method = take first_space headers,
                                  hr_body = take n (drop (header_end + 4) stream)\<rparr>)))"

definition chunk_size :: nat where "chunk_size = 8192"

lemma receive_headers_found:
  assumes "find_sub (crlf @ crlf) (buffer @ concat chunks) = Some i"
    and "\<forall>c\<in>set chunks. c \<noteq> [] \<and> length c \<le> chunk_size"
    and "i + 4 + chunk_size \<le> Suc max_header_bytes"
  shows "\<exists>used rest. receive_headers buffer chunks = Some (i, buffer @ concat used, rest) \<and> chunks = used @ rest"
  using assms
proof (induction buffer chunks rule: receive_headers.induct)
  case (1 buffer chunks)
  show ?case
  proof (cases "find_sub (crlf @ crlf) buffer")
    case (Some j)
    then have "j = i" using "1.prems"(1) find_sub_append [OF Some] by simp
    with Some have "receive_headers buffer chunks = Some (i, buffer @ concat [], chunks)"
      by (simp add: receive_headers.simps)
    then show ?thesis by (intro exI [of _ "[]"] exI [of _ chunks]) simp
  next
    case None
    then obtain c cs where chunks: "chunks = c # cs"
      using "1.prems"(1) by (cases chunks) auto
    have "length buffer < i + 4"
      using find_sub_late [OF None "1.prems"(1)] by simp
    then have small: "length (buffer @ c) \<le> max_header_bytes"
      using "1.prems"(2,3) chunks by simp
    have "\<exists>used rest. receive_headers (buffer @ c) cs = Some (i, (buffer @ c) @ concat used, rest) \<and> cs = used @ rest"
      by (rule "1.IH" [OF None chunks]) (use "1.prems" chunks small in \<open>auto simp: header_overflow_def\<close>)
    then obtain used rest where "receive_headers (buffer @ c) cs = Some (i, (buffer @ c) @ concat used, rest)"
      "cs = used @ rest" by blast
    then have "receive_headers buffer chunks = Some (i, buffer @ concat (c # used), rest)"
      "chunks = (c # used) @ rest"
      using None chunks "1.prems"(2) small
      by (simp_all add: receive_headers.simps [of buffer] header_overflow_def)
    then show ?thesis by blast
  qed
qed

lemma receive_headers_result:
  "receive_headers buffer chunks = Some (i, full, rest) \<Longrightarrow> find_sub (crlf @ crlf) full = Some i"
proof (induction buffer chunks rule: receive_headers.induct)
  case (1 buffer chunks)
  then show ?case
    by (cases "find_sub (crlf @ crlf) buffer"; cases chunks)
      (auto simp: receive_headers.simps [of buffer] split: if_splits)
qed

lemma receive_body_complete:
  assumes "body_start \<le> length buffer" "\<forall>c\<in>set chunks. c \<noteq> []"
    and "length (buffer @ concat chunks) - body_start \<le> max_body_bytes"
  shows "receive_body body_start n buffer chunks =
     (if length (buffer @ concat chunks) - body_start < n then None
      else receive_body body_start n buffer chunks)
   \<and> (\<forall>full. receive_body body_start n buffer chunks = Some full \<longrightarrow>
        prefix full (buffer @ concat chunks) \<and> n \<le> length full - body_start)
   \<and> (n \<le> length (buffer @ concat chunks) - body_start \<longrightarrow>
        receive_body body_start n buffer chunks \<noteq> None)"
  using assms
proof (induction body_start n buffer chunks rule: receive_body.induct)
  case (1 body_start n buffer chunks)
  show ?case
  proof (cases "length buffer - body_start < n")
    case False
    then have eq: "receive_body body_start n buffer chunks = Some buffer"
      by (simp add: receive_body.simps)
    with False "1.prems"(1) show ?thesis by simp
  next
    case True
    show ?thesis
    proof (cases chunks)
      case Nil
      with True show ?thesis by (simp add: receive_body.simps)
    next
      case (Cons c cs)
      have c: "c \<noteq> []" "\<not> body_overflow (length (buffer @ c) - body_start)"
        using "1.prems" Cons by (auto simp: body_overflow_def)
      have eq: "receive_body body_start n buffer chunks = receive_body body_start n (buffer @ c) cs"
        using True Cons c by (simp add: receive_body.simps [of _ _ buffer])
      have "body_start \<le> length (buffer @ c)" "\<forall>c\<in>set cs. c \<noteq> []"
        "length ((buffer @ c) @ concat cs) - body_start \<le> max_body_bytes"
        using "1.prems" Cons by auto
      from "1.IH" [OF True Cons c this] show ?thesis unfolding eq by (simp add: Cons)
    qed
  qed
qed

text \<open>
  C24: The request does not depend on how the bytes arrive. If the header ends early enough in
  the stream (57337 bytes; the server stops once its buffer is beyond 64 KiB, body bytes
  included), \<open>recv\<close> returns at most 8 KiB at a time and no more than 4 MiB follow the header,
  then every chunking gives what reading the whole stream at once gives.
\<close>

theorem request_independent_of_chunking:
  assumes "\<forall>c\<in>set chunks. c \<noteq> [] \<and> length c \<le> chunk_size"
    and "find_sub (crlf @ crlf) (concat chunks) = Some header_end"
    and "header_end + 4 + chunk_size \<le> Suc max_header_bytes"
    and "length (concat chunks) - (header_end + 4) \<le> max_body_bytes"
  shows "receive_request chunks = request_of (concat chunks)"
proof -
  obtain used rest where head: "receive_headers [] chunks = Some (header_end, concat used, rest)"
    and split: "chunks = used @ rest"
    using receive_headers_found [of "[]" chunks header_end] assms(1-3) by auto
  have all: "concat used @ concat rest = concat chunks" by (simp add: split)
  have found: "find_sub (crlf @ crlf) (concat used) = Some header_end"
    using receive_headers_result [OF head] .
  have bound: "header_end + 4 \<le> length (concat used)"
    using find_sub_bound [OF found] by simp
  then have heads: "take header_end (concat used) = take header_end (concat chunks)"
    by (simp add: all [symmetric])
  have hend: "find_sub [CHR 0x0D, CHR 0x0A, CHR 0x0D, CHR 0x0A] (concat chunks) = Some header_end"
    using assms(2) by simp
  show ?thesis
  proof (cases "find_sub '' '' (take header_end (concat chunks))")
    case None
    then show ?thesis by (simp add: receive_request_def request_of_def head heads hend Let_def)
  next
    case (Some sp)
    note sp = Some
    show ?thesis
    proof (cases "parse_content_length (take header_end (concat chunks))")
      case None
      with sp show ?thesis by (simp add: receive_request_def request_of_def head heads hend Let_def)
    next
      case (Some n)
      show ?thesis
      proof (cases "body_overflow n")
        case True
        with sp Some show ?thesis by (simp add: receive_request_def request_of_def head heads hend Let_def)
      next
        case False
        have nonempty: "\<forall>c\<in>set rest. c \<noteq> []" using assms(1) split by auto
        have "length (concat used @ concat rest) - (header_end + 4) \<le> max_body_bytes"
          unfolding all by (rule assms(4))
        note body = receive_body_complete [OF bound nonempty this, of n, unfolded all]
        show ?thesis
        proof (cases "length (concat chunks) - (header_end + 4) < n")
          case True
          with body have "receive_body (header_end + 4) n (concat used) rest = None" by simp
          with True sp Some False show ?thesis
            by (simp add: receive_request_def request_of_def head heads hend Let_def)
        next
          case enough: False
          then obtain full where full: "receive_body (header_end + 4) n (concat used) rest = Some full"
            using body by auto
          with body have "prefix full (concat chunks)" "n \<le> length full - (header_end + 4)" by auto
          then have "take n (drop (header_end + 4) full) = take n (drop (header_end + 4) (concat chunks))"
            by (auto simp: prefix_def)
          with enough full sp Some False show ?thesis
            by (simp add: receive_request_def request_of_def head heads hend Let_def)
        qed
      qed
    qed
  qed
qed

text \<open>A request in three chunks, with the last two cutting header and body.\<close>

definition demo_chunks :: "string list" where
  "demo_chunks = [''POST / HTTP/1.1'' @ crlf @ ''Content-'', ''Length: 2'' @ crlf @ [CHR 0x0D],
     [CHR 0x0A] @ ''{'', ''}'']"

theorem request_independent_of_chunking_witness:
  "receive_request demo_chunks = Some \<lparr>hr_method = ''POST'', hr_body = ''{}''\<rparr>"
proof -
  have "find_sub (crlf @ crlf) (concat demo_chunks) = Some 34" by code_simp
  moreover have "\<forall>c\<in>set demo_chunks. c \<noteq> [] \<and> length c \<le> chunk_size"
    by (simp add: demo_chunks_def chunk_size_def)
  moreover have "request_of (concat demo_chunks) = Some \<lparr>hr_method = ''POST'', hr_body = ''{}''\<rparr>"
    by code_simp
  ultimately show ?thesis
    using request_independent_of_chunking [of demo_chunks 34]
    by (simp add: chunk_size_def max_header_bytes_def max_body_bytes_def demo_chunks_def)
qed

lemma receive_body_length:
  "receive_body body_start n buffer chunks = Some full \<Longrightarrow> n \<le> length full - body_start"
proof (induction body_start n buffer chunks rule: receive_body.induct)
  case (1 body_start n buffer chunks)
  then show ?case
    by (cases "length buffer - body_start < n"; cases chunks)
      (auto simp: receive_body.simps [of _ _ buffer] split: if_splits)
qed

text \<open>
  Whatever a client sends, an accepted request has a body of exactly the length its header
  announces, and never more than 4 MiB.
\<close>

theorem accepted_body_length:
  assumes "receive_request chunks = Some request"
  shows "length (hr_body request) \<le> 4194304 \<and>
     (\<exists>header_end full rest. receive_headers [] chunks = Some (header_end, full, rest) \<and>
        parse_content_length (take header_end full) = Some (length (hr_body request)))"
proof -
  obtain header_end buffer rest where head: "receive_headers [] chunks = Some (header_end, buffer, rest)"
    using assms by (cases "receive_headers [] chunks") (auto simp: receive_request_def)
  obtain sp where sp: "find_sub '' '' (take header_end buffer) = Some sp"
    using assms head by (cases "find_sub '' '' (take header_end buffer)") (auto simp: receive_request_def Let_def)
  obtain n where n: "parse_content_length (take header_end buffer) = Some n"
    using assms head sp
    by (cases "parse_content_length (take header_end buffer)") (auto simp: receive_request_def Let_def)
  have le: "n \<le> max_body_bytes"
    using assms head sp n
    by (auto simp: receive_request_def Let_def body_overflow_def split: if_splits)
  then obtain full where full: "receive_body (header_end + 4) n buffer rest = Some full"
    and body: "hr_body request = take n (drop (header_end + 4) full)"
    using assms head sp n
    by (auto simp: receive_request_def Let_def body_overflow_def split: if_splits)
  have "length (hr_body request) = n"
    using receive_body_length [OF full] by (simp add: body)
  with le n head show ?thesis by (auto simp: max_body_bytes_def)
qed

theorem accepted_body_length_witness:
  "length (hr_body \<lparr>hr_method = ''POST'', hr_body = ''{}''\<rparr>) \<le> 4194304"
proof -
  have "receive_request demo_chunks = Some \<lparr>hr_method = ''POST'', hr_body = ''{}''\<rparr>"
    by code_simp
  from accepted_body_length [OF this] show ?thesis by blast
qed

subsection \<open>The server and the gate\<close>

text \<open>The bodies of the POST requests up to the stop.\<close>

fun posted_bodies :: "accept_event list \<Rightarrow> string list" where
  "posted_bodies [] = []"
| "posted_bodies (NoConnection # es) = posted_bodies es"
| "posted_bodies (StopRequested # es) = []"
| "posted_bodies (RecorderTurn ti # es) = posted_bodies es"
| "posted_bodies (PipelineTurn # es) = posted_bodies es"
| "posted_bodies (Accepted cn # es) =
     (case receive_request (cn_chunks cn) of
        Some request \<Rightarrow> if hr_method request = ''POST'' then [hr_body request] else []
      | None \<Rightarrow> []) @ posted_bodies es"

fun body_of_record :: "pending_record \<Rightarrow> string list" where
  "body_of_record (RecordSnapshot rec body) = [body]"
| "body_of_record (RecordSupplementary rec) = []"

definition recorded_bodies :: "telemetry \<Rightarrow> string list" where
  "recorded_bodies t = concat (map body_of_record (rc_accepted (tm_recorder t)))"

lemma recorded_bodies_works_on [simp]:
  "recorded_bodies (recorder_works_on ti t) = recorded_bodies t"
  "recorded_bodies (pipeline_works_on throws t) = recorded_bodies t"
  by (auto simp: recorded_bodies_def recorder_works_on_def pipeline_works_on_def
      dest: recorder_turn_frame split: option.splits)

lemma ingress_gsi_result:
  assumes "ingress_gsi t a b k body = (Inr rec, t')"
  shows "recorded_bodies t' = recorded_bodies t @ [body]"
proof (cases "enqueue_snapshot (tm_recorder t) a b k body")
  case (Inr res)
  obtain r1 r2 where res: "res = (r1, r2)" by (cases res)
  show ?thesis
    using assms Inr res enqueue_snapshot_Inr [OF Inr [unfolded res]]
    by (auto simp: ingress_gsi_def Let_def recorded_bodies_def split: sum.splits)
qed (use assms in \<open>simp add: ingress_gsi_def\<close>)

lemma server_bodies:
  assumes "serve throws t es = (responses, None, t')"
  shows "recorded_bodies t' = recorded_bodies t @ posted_bodies es"
  using assms
proof (induction throws t es arbitrary: responses t' rule: serve.induct)
  case (6 throws t cn es)
  obtain response result t1 where one: "serve_connection t cn = (response, result, t1)"
    by (cases "serve_connection t cn") auto
  obtain rs err t2 where rest: "serve throws t1 es = (rs, err, t2)" by (cases "serve throws t1 es") auto
  have ok: "\<nexists>e. result = Some (Inl e)" and t2: "t2 = t'" "err = None"
    using "6.prems" one rest by (auto split: option.splits sum.splits)
  have ih: "recorded_bodies t' = recorded_bodies t1 @ posted_bodies es"
  proof (cases result)
    case None
    with "6.IH"(1) one rest t2 show ?thesis by simp
  next
    case (Some r)
    with ok obtain rec where "result = Some (Inr rec)" by (cases r) auto
    with "6.IH"(2) one rest t2 show ?thesis by simp
  qed
  show ?case
  proof (cases "receive_request (cn_chunks cn)")
    case None
    with one ih show ?thesis by (simp add: serve_connection_def)
  next
    case (Some request)
    show ?thesis
    proof (cases "hr_method request = ''POST''")
      case False
      with Some one ih show ?thesis by (simp add: serve_connection_def)
    next
      case True
      with Some one have res: "(the result, t1) = ingress_gsi t (cn_accepted_tick cn)
          (cn_body_complete_tick cn) (cn_ack_sent_tick cn) (hr_body request)" "result \<noteq> None"
        by (auto simp: serve_connection_def Let_def case_prod_beta)
      with ok obtain rec where "the result = Inr rec"
        by (cases "the result") auto
      with res have "recorded_bodies t1 = recorded_bodies t @ [hr_body request]"
        using ingress_gsi_result by metis
      with True Some ih show ?thesis by simp
    qed
  qed
qed auto

text \<open>
  If the server's loop ends without an exception, the bodies recorded meanwhile are exactly
  the bodies of the POST requests it was sent, in order, each once; malformed requests and
  other methods leave no trace in the session.
\<close>

theorem server_records_posted_bodies:
  assumes "serve throws t es = (responses, None, t')"
  shows "recorded_bodies t' = recorded_bodies t @ posted_bodies es"
  using assms by (rule server_bodies)

definition demo_accepts :: "accept_event list" where
  "demo_accepts = [NoConnection, Accepted \<lparr>cn_accepted_tick = 0, cn_chunks = demo_chunks,
     cn_body_complete_tick = 0, cn_ack_sent_tick = 0\<rparr>, PipelineTurn, RecorderTurn
       \<lparr>ti_now = 5, ti_raw_fails = None, ti_timeline_fails = None, ti_supplementary_fails = None\<rparr>,
     StopRequested]"

theorem server_records_posted_bodies_witness:
  "recorded_bodies (snd (snd (serve (\<lambda>_. None) (init_telemetry 1000000000 0) demo_accepts))) = [''{}'']"
proof -
  let ?served = "serve (\<lambda>_. None) (init_telemetry 1000000000 0) demo_accepts"
  have "fst (snd ?served) = None" by code_simp
  then have "?served = (fst ?served, None, snd (snd ?served))"
    by (metis prod.collapse)
  from server_records_posted_bodies [OF this]
  have "recorded_bodies (snd (snd ?served)) =
      recorded_bodies (init_telemetry 1000000000 0) @ posted_bodies demo_accepts" .
  moreover have "recorded_bodies (init_telemetry 1000000000 0) @ posted_bodies demo_accepts = [''{}'']"
    by code_simp
  ultimately show ?thesis by simp
qed

text \<open>Every run of the server is a run of the recording session.\<close>

lemma recorder_works_on_step: "(telemetry_step throws)\<^sup>*\<^sup>* t (recorder_works_on ti t)"
  by (auto simp: recorder_works_on_def split: option.splits intro: recorder_works)

lemma pipeline_works_on_step: "(telemetry_step throws)\<^sup>*\<^sup>* t (pipeline_works_on throws t)"
  by (auto simp: pipeline_works_on_def split: option.splits intro: pipeline_works)

lemma serve_connection_step:
  assumes "serve_connection t cn = (response, result, t')"
  shows "(telemetry_step throws)\<^sup>*\<^sup>* t t'"
proof -
  have "t' = t \<or> t' = snd (ingress_gsi t (cn_accepted_tick cn) (cn_body_complete_tick cn)
      (cn_ack_sent_tick cn) b)" if "receive_request (cn_chunks cn) = Some \<lparr>hr_method = m, hr_body = b\<rparr>" for m b
    using assms that by (auto simp: serve_connection_def Let_def case_prod_beta split: if_splits)
  moreover have "t' = t" if "receive_request (cn_chunks cn) = None"
    using assms that by (simp add: serve_connection_def)
  ultimately show ?thesis
    using through_gsi [of throws t] by (cases "receive_request (cn_chunks cn)") (metis (full_types) http_request.cases r_into_rtranclp rtranclp.rtrancl_refl)+
qed

lemma serve_steps: "(telemetry_step throws)\<^sup>*\<^sup>* t (snd (snd (serve throws t es)))"
proof (induction throws t es rule: serve.induct)
  case (4 throws t ti es)
  then show ?case using recorder_works_on_step rtranclp_trans by fastforce
next
  case (5 throws t es)
  then show ?case using pipeline_works_on_step rtranclp_trans by fastforce
next
  case (6 throws t cn es)
  obtain response result t1 where one: "serve_connection t cn = (response, result, t1)"
    by (cases "serve_connection t cn") auto
  note first = serve_connection_step [OF one, of throws]
  show ?case
  proof (cases "\<exists>e. result = Some (Inl e)")
    case True
    with one first show ?thesis by auto
  next
    case False
    then have "(telemetry_step throws)\<^sup>*\<^sup>* t1 (snd (snd (serve throws t1 es)))"
      using "6.IH" one by (cases result; cases "the result") auto
    with first one False show ?thesis
      by (cases result; cases "the result") (auto simp: Let_def case_prod_beta)
  qed
qed auto

subsection \<open>A header just below the limit\<close>

lemma find_sub_skip:
  "x \<notin> set p \<Longrightarrow> find_sub (x # needle) (p @ s) = map_option (\<lambda>k. length p + k) (find_sub (x # needle) s)"
proof (induction p)
  case Nil
  then show ?case by (cases "find_sub (x # needle) s") simp_all
next
  case (Cons y p)
  then show ?case by (cases "find_sub (x # needle) s") auto
qed

lemma find_sub_none: "x \<notin> set p \<Longrightarrow> find_sub (x # needle) p = None"
  using find_sub_skip [of x p needle "[]"] by simp

lemma receive_headers_skip:
  assumes "CHR 0x0D \<notin> set buffer" "\<forall>c\<in>set cs. c \<noteq> [] \<and> CHR 0x0D \<notin> set c"
    and "length (buffer @ concat cs) \<le> max_header_bytes"
  shows "receive_headers buffer (cs @ rest) = receive_headers (buffer @ concat cs) rest"
  using assms
proof (induction cs arbitrary: buffer)
  case (Cons c cs)
  have "receive_headers buffer ((c # cs) @ rest) = receive_headers (buffer @ c) (cs @ rest)"
    using Cons.prems
    by (subst receive_headers.simps) (simp add: find_sub_none header_overflow_def)
  also have "\<dots> = receive_headers ((buffer @ c) @ concat cs) rest"
    by (rule Cons.IH) (use Cons.prems in auto)
  finally show ?case by simp
qed simp

definition long_target :: "string list" where
  "long_target = (''POST /'' @ replicate 8000 CHR ''x'')
     # replicate 7 (replicate 8000 CHR ''x'') @ [replicate 1400 CHR ''x'']"

definition long_tail :: string where
  "long_tail = '' HTTP/1.1'' @ crlf @ ''Content-Length: 99''"

definition long_body :: string where
  "long_body = replicate 99 CHR ''b''"

definition long_chunks_apart :: "string list" where
  "long_chunks_apart = long_target @ [long_tail @ crlf @ crlf, long_body]"

definition long_chunks_together :: "string list" where
  "long_chunks_together = long_target @ [long_tail @ crlf @ crlf @ long_body]"

lemma long_target_facts:
  "length (concat long_target) = 65406"
  "\<forall>c\<in>set long_target. c \<noteq> [] \<and> CHR 0x0D \<notin> set c \<and> length c \<le> chunk_size"
  "CHR 0x0D \<notin> set (concat long_target)" "CHR '':'' \<notin> set (concat long_target)"
  by (auto simp: long_target_def chunk_size_def length_concat sum_list_replicate)

lemma long_tail_facts:
  "length long_tail = 29"
  "find_sub (crlf @ crlf) (long_tail @ CHR 0x0D # CHR 0x0A # CHR 0x0D # CHR 0x0A # rest) = Some 29"
  by (simp_all add: long_tail_def)

lemma long_headers:
  "receive_headers [] (long_target @ rest) = receive_headers (concat long_target) rest"
  using receive_headers_skip [of "[]" long_target rest] long_target_facts
  by (simp add: max_header_bytes_def)

lemma parse_second_line:
  assumes "CHR 0x0D \<notin> set line" "content_length_of_line line = None"
  shows "parse_content_length (line @ crlf @ rest) = parse_content_length rest"
proof -
  have "find_sub crlf (line @ crlf @ rest) = Some (length line)"
    using find_sub_skip [OF assms(1), of "[CHR 0x0A]" "crlf @ rest"] by simp
  then show ?thesis
    using assms(2) by (subst parse_content_length.simps) (simp add: Let_def)
qed

lemma long_content_length:
  "parse_content_length (concat long_target @ long_tail) = Some 99"
proof -
  have "CHR '':'' \<notin> set (concat long_target @ '' HTTP/1.1'')"
    using long_target_facts(4) by simp
  from find_sub_none [OF this, of "[]"]
  have "content_length_of_line (concat long_target @ '' HTTP/1.1'') = None"
    by (simp add: content_length_of_line_def)
  moreover have "CHR 0x0D \<notin> set (concat long_target @ '' HTTP/1.1'')"
    using long_target_facts(3) by simp
  ultimately have "parse_content_length ((concat long_target @ '' HTTP/1.1'') @ crlf @ ''Content-Length: 99'')
      = parse_content_length ''Content-Length: 99''"
    by (intro parse_second_line)
  also have "\<dots> = Some 99"
    by code_simp
  finally show ?thesis
    by (simp add: long_tail_def)
qed

lemma receive_request_split:
  assumes heads: "receive_headers [] chunks = receive_headers p [t @ crlf @ crlf, body]"
    and fresh: "find_sub (crlf @ crlf) p = None"
    and found: "find_sub (crlf @ crlf) (p @ t @ crlf @ crlf) = Some (length p + length t)"
    and size: "\<not> header_overflow (length (p @ t @ crlf @ crlf))"
    and parsed: "parse_content_length (p @ t) = Some (length body)" "find_sub '' '' (p @ t) = Some sp"
    and body: "body \<noteq> []" "\<not> body_overflow (length body)"
  shows "map_option hr_body (receive_request chunks) = Some body"
proof -
  have "receive_headers [] chunks = receive_headers (p @ t @ crlf @ crlf) [body]"
    using size fresh by (subst heads, subst receive_headers.simps) simp
  also have "\<dots> = Some (length p + length t, p @ t @ crlf @ crlf, [body])"
    using found by (subst receive_headers.simps) simp
  finally have "receive_headers [] chunks = Some (length p + length t, p @ t @ crlf @ crlf, [body])" .
  moreover have "receive_body (length p + length t + 4) (length body) (p @ t @ crlf @ crlf) [body]
      = Some (p @ t @ crlf @ crlf @ body)"
    using body by (subst receive_body.simps) (simp, simp add: receive_body.simps)
  ultimately show ?thesis
    using parsed body(2) by (simp add: receive_request_def)
qed

text \<open>
  Close to the limit the answer depends on how the bytes arrive: the same 65538 bytes are
  accepted when the body comes in a chunk of its own and refused when it comes together with
  the end of the header, because the test against 64 KiB counts body bytes already read.
\<close>

theorem chunking_decides_near_limit:
  "concat long_chunks_apart = concat long_chunks_together
   \<and> list_all (\<lambda>c. length c \<le> chunk_size) long_chunks_apart
   \<and> list_all (\<lambda>c. length c \<le> chunk_size) long_chunks_together
   \<and> map_option hr_body (receive_request long_chunks_apart) = Some long_body
   \<and> receive_request long_chunks_together = None"
proof -
  let ?p = "concat long_target"
  have start: "find_sub (crlf @ crlf) ?p = None"
    using find_sub_none [OF long_target_facts(3)] by simp
  have found: "find_sub (crlf @ crlf) (?p @ long_tail @ crlf @ crlf) = Some (length ?p + length long_tail)"
    using find_sub_skip [OF long_target_facts(3), of "[CHR 0x0A] @ crlf" "long_tail @ crlf @ crlf"]
      long_tail_facts(2) [of "[]"] long_target_facts(1) long_tail_facts(1) by simp
  have body: "length long_body = 99" "long_body \<noteq> []" "\<not> body_overflow (length long_body)"
    by (simp_all add: long_body_def overflow_code)
  have "find_sub '' '' (?p @ long_tail) = Some 4"
    by (simp add: long_target_def)
  then have accepted: "map_option hr_body (receive_request long_chunks_apart) = Some long_body"
    using start found long_content_length body long_target_facts(1) long_tail_facts(1)
    by (intro receive_request_split [of long_chunks_apart ?p long_tail long_body 4])
      (simp_all add: long_chunks_apart_def long_headers overflow_code del: concat_append)
  have "receive_headers [] long_chunks_together = receive_headers ?p [long_tail @ crlf @ crlf @ long_body]"
    unfolding long_chunks_together_def by (rule long_headers)
  also have "\<dots> = None"
    using start long_target_facts(1) long_tail_facts(1) body(1)
    by (subst receive_headers.simps) (simp add: overflow_code)
  finally have refused: "receive_request long_chunks_together = None"
    by (simp add: receive_request_def)
  have sizes: "list_all (\<lambda>c. length c \<le> chunk_size) long_chunks_apart"
    "list_all (\<lambda>c. length c \<le> chunk_size) long_chunks_together"
    using long_target_facts(2) long_tail_facts(1) body(1)
    by (auto simp: long_chunks_apart_def long_chunks_together_def list_all_iff chunk_size_def)
  show ?thesis
    using accepted refused sizes by (simp add: long_chunks_apart_def long_chunks_together_def)
qed

end
