(* ===== verification/Server_Run.thy ===== *)
theory Server_Run
  imports Http Console
begin

text \<open>
  \<open>GsiHttpServer::run\<close> (\<open>src/http_server.cpp\<close>) in full: the sockets it opens and closes, the
  results of every call of the system, the two places in the middle of a turn where a stop
  request is looked at, a client that sends nothing and stays, and what is printed. What the
  run does to the outside is a list of actions. \<open>serve\<close> of \<open>Http\<close> is its abstraction.
\<close>

subsection \<open>State and actions\<close>

datatype server_action =
    StartRuntime
  | CleanRuntime
  | OpenSocket int
  | ReuseAddress int
  | BindLoopback int "16 word"
  | ListenOn int int
  | AcceptClient int
  | SendTo int string
  | CloseSocket int
  | EnqueueBody string
  | PrintLine string

record server =
  sv_build :: clock_build
  sv_port :: "16 word"
  sv_session :: string
  sv_socket :: int
  sv_stop_requested :: bool
  sv_telemetry :: telemetry
  sv_actions :: "server_action list"

definition acts :: "server_action list \<Rightarrow> server \<Rightarrow> server" where
  "acts actions sv = sv\<lparr>sv_actions := sv_actions sv @ actions\<rparr>"

definition request_stop :: "server \<Rightarrow> server" where
  "request_stop sv = sv\<lparr>sv_stop_requested := True\<rparr>"

definition invalid_socket :: int where "invalid_socket = -1"

definition construct_server :: "clock_build \<Rightarrow> 16 word \<Rightarrow> string \<Rightarrow> telemetry \<Rightarrow> server" where
  "construct_server build port session t =
     \<lparr>sv_build = build, sv_port = port, sv_session = session, sv_socket = invalid_socket,
      sv_stop_requested = False, sv_telemetry = t, sv_actions = []\<rparr>"

subsection \<open>Opening the listening socket\<close>

text \<open>What \<open>WSAStartup\<close> (Windows), \<open>socket\<close>, \<open>bind\<close> and \<open>listen\<close> return.\<close>

record start_results =
  st_runtime :: int
  st_socket :: int
  st_bind :: int
  st_listen :: int

datatype start_error = WsaStartupFailed | NoSocket | CannotBind "16 word" | CannotListen

definition start_error_text :: "start_error \<Rightarrow> string" where
  "start_error_text e =
     (case e of
        WsaStartupFailed \<Rightarrow> ''WSAStartup failed''
      | NoSocket \<Rightarrow> ''Could not create TCP socket''
      | CannotBind port \<Rightarrow> ''Could not bind 127.0.0.1:'' @ int_to_string (uint port)
      | CannotListen \<Rightarrow> ''Could not listen on local socket'')"

text \<open>The destructor of \<open>SocketRuntime\<close> runs however \<open>run\<close> is left.\<close>

definition clean_runtime :: "server \<Rightarrow> server" where
  "clean_runtime sv = (if sv_build sv = WindowsBuild then acts [CleanRuntime] sv else sv)"

definition banner :: "server \<Rightarrow> server_action list" where
  "banner sv =
     [PrintLine (''[PROMATOR] GSI probe listening on http://127.0.0.1:'' @ int_to_string (uint (sv_port sv)) @ ''/''),
      PrintLine (''[PROMATOR] Session: '' @ sv_session sv),
      PrintLine ''[PROMATOR] Live event pipeline enabled.'',
      PrintLine ''[PROMATOR] Press Ctrl+C to stop.'']"

definition start_server :: "start_results \<Rightarrow> server \<Rightarrow> start_error option \<times> server" where
  "start_server st sv0 =
     (if sv_build sv0 = WindowsBuild \<and> st_runtime st \<noteq> 0 then (Some WsaStartupFailed, sv0)
      else
        (let sv = (if sv_build sv0 = WindowsBuild then acts [StartRuntime] sv0 else sv0); s = st_socket st in
         if s = invalid_socket then (Some NoSocket, clean_runtime sv)
         else
           (let sv1 = (acts [OpenSocket s, ReuseAddress s, BindLoopback s (sv_port sv)] sv)\<lparr>sv_socket := s\<rparr> in
            if st_bind st \<noteq> 0 then (Some (CannotBind (sv_port sv)), clean_runtime (acts [CloseSocket s] sv1))
            else
              (let sv2 = acts [ListenOn s 8] sv1 in
               if st_listen st \<noteq> 0 then (Some CannotListen, clean_runtime (acts [CloseSocket s] sv2))
               else (None, acts (banner sv2) sv2)))))"

subsection \<open>One turn of the loop\<close>

text \<open>
  What the calls of one turn return. A stop request may arrive during \<open>select\<close> or \<open>accept\<close>;
  \<open>po_peer_waits\<close> tells that after its last chunk the client neither sends nor closes, and
  \<open>po_peer_gone\<close> that a \<open>send\<close> that fails does so because the client has closed (\<open>EPIPE\<close>).
\<close>

record poll =
  po_ready :: int
  po_stop_in_select :: bool
  po_client :: int
  po_stop_in_accept :: bool
  po_connection :: connection
  po_peer_waits :: bool
  po_peer_gone :: bool
  po_send_results :: "int list"

text \<open>Whether \<open>receive_request\<close> calls \<open>recv\<close> again after the last chunk.\<close>

fun headers_want_more :: "string \<Rightarrow> string list \<Rightarrow> bool" where
  "headers_want_more buffer chunks =
     (find_sub (crlf @ crlf) buffer = None \<and>
      (case chunks of
         [] \<Rightarrow> True
       | chunk # rest \<Rightarrow>
           chunk \<noteq> [] \<and> \<not> header_overflow (length (buffer @ chunk)) \<and> headers_want_more (buffer @ chunk) rest))"

fun body_wants_more :: "nat \<Rightarrow> nat \<Rightarrow> string \<Rightarrow> string list \<Rightarrow> bool" where
  "body_wants_more body_start n buffer chunks =
     (length buffer - body_start < n \<and>
      (case chunks of
         [] \<Rightarrow> True
       | chunk # rest \<Rightarrow>
           chunk \<noteq> [] \<and> \<not> body_overflow (length (buffer @ chunk) - body_start)
             \<and> body_wants_more body_start n (buffer @ chunk) rest))"

declare headers_want_more.simps [simp del] body_wants_more.simps [simp del]

definition wants_more :: "string list \<Rightarrow> bool" where
  "wants_more chunks =
     (case receive_headers [] chunks of
        None \<Rightarrow> headers_want_more [] chunks
      | Some (header_end, buffer, rest) \<Rightarrow>
          (let headers = take header_end buffer
           in find_sub '' '' headers \<noteq> None \<and>
              (case parse_content_length headers of
                 None \<Rightarrow> False
               | Some n \<Rightarrow> \<not> body_overflow n \<and> body_wants_more (header_end + 4) n buffer rest)))"

definition send_part :: "int \<Rightarrow> int list \<Rightarrow> string \<Rightarrow> server_action" where
  "send_part client results text = SendTo client (take (snd (send_all results text 0)) text)"

definition answer :: "int \<Rightarrow> int list \<Rightarrow> string \<Rightarrow> server_action list" where
  "answer client results text = [send_part client results text, CloseSocket client]"

text \<open>
  On a POSIX system a \<open>send\<close> to a client that has closed raises \<open>SIGPIPE\<close>, unless \<open>MSG_NOSIGNAL\<close> is
  given or the signal is handled. The program does neither, and the default action ends the process.
\<close>

definition response_to :: "http_request option \<Rightarrow> string" where
  "response_to request =
     (case request of
        None \<Rightarrow> bad_request
      | Some r \<Rightarrow> if hr_method r \<noteq> ''POST'' then method_not_allowed else ok_response)"

definition broken_pipe :: "clock_build \<Rightarrow> poll \<Rightarrow> bool" where
  "broken_pipe build po \<longleftrightarrow>
     build = PosixBuild \<and> po_peer_gone po
     \<and> \<not> fst (send_all (po_send_results po) (response_to (receive_request (cn_chunks (po_connection po)))) 0)"

text \<open>The line of an observation that was queued.\<close>

definition milliseconds_between :: "u64 \<Rightarrow> u64 \<Rightarrow> u64 \<Rightarrow> rat" where
  "milliseconds_between frequency earlier later = fl (seconds_between frequency earlier later * 1000)"

definition gsi_line :: "u64 \<Rightarrow> connection \<Rightarrow> snapshot_record \<Rightarrow> string" where
  "gsi_line frequency cn rec =
     ''[GSI] #'' @ u64_to_string (sr_sequence rec)
       @ '' order='' @ u64_to_string (sr_ingress_order rec)
       @ '' t+'' @ show_ms (sr_relative_us rec) @ '' ms''
       @ '' bytes='' @ u64_to_string (sr_body_bytes rec)
       @ '' ingress='' @ show_double (milliseconds_between frequency (cn_accepted_tick cn) (cn_body_complete_tick cn)) @ '' ms''
       @ '' ack='' @ show_double (milliseconds_between frequency (cn_accepted_tick cn) (cn_ack_sent_tick cn)) @ '' ms''
       @ '' queued''"

datatype run_state = Polling | BlockedOn int | BrokenPipe int | Returned | Threw ingress_error | StartFailed start_error

definition serve_client :: "server \<Rightarrow> poll \<Rightarrow> run_state \<times> server" where
  "serve_client sv po =
     (let client = po_client po; cn = po_connection po; sv1 = acts [AcceptClient client] sv in
      if po_peer_waits po \<and> wants_more (cn_chunks cn) then (BlockedOn client, sv1)
      else if broken_pipe (sv_build sv) po then
        (BrokenPipe client,
         acts [send_part client (po_send_results po) (response_to (receive_request (cn_chunks cn)))] sv1)
      else
        (case receive_request (cn_chunks cn) of
           None \<Rightarrow> (Polling, acts (answer client (po_send_results po) bad_request) sv1)
         | Some request \<Rightarrow>
             if hr_method request \<noteq> ''POST'' then
               (Polling, acts (answer client (po_send_results po) method_not_allowed) sv1)
             else
               (let sv2 = acts (answer client (po_send_results po) ok_response @ [EnqueueBody (hr_body request)]) sv1;
                    (result, t) = ingress_gsi (sv_telemetry sv2) (cn_accepted_tick cn) (cn_body_complete_tick cn)
                      (cn_ack_sent_tick cn) (hr_body request);
                    sv3 = sv2\<lparr>sv_telemetry := t\<rparr>
                in case result of
                     Inl e \<Rightarrow> (Threw e, clean_runtime sv3)
                   | Inr rec \<Rightarrow> (Polling, acts [PrintLine (gsi_line (rc_frequency (tm_recorder t)) cn rec)] sv3))))"

definition leave_loop :: "server \<Rightarrow> run_state \<times> server" where
  "leave_loop sv = (Returned, clean_runtime (acts [CloseSocket (sv_socket sv)] sv))"

definition stop_if :: "bool \<Rightarrow> server \<Rightarrow> server" where
  "stop_if b sv = (if b then request_stop sv else sv)"

definition poll_turn :: "server \<Rightarrow> poll \<Rightarrow> run_state \<times> server" where
  "poll_turn sv po =
     (if sv_stop_requested sv then leave_loop sv
      else
        (let sv1 = stop_if (po_stop_in_select po) sv in
         if po_ready po = 0 then (Polling, sv1)
         else if po_ready po < 0 then (if sv_stop_requested sv1 then leave_loop sv1 else (Polling, sv1))
         else
           (let sv2 = stop_if (po_stop_in_accept po) sv1 in
            if po_client po = invalid_socket then
              (if sv_stop_requested sv2 then leave_loop sv2 else (Polling, sv2))
            else serve_client sv2 po)))"

subsection \<open>The run\<close>

text \<open>A schedule: turns of the loop, turns of the two workers, and the signal handler.\<close>

datatype server_event =
    StopSignal
  | Poll poll
  | RecorderWorks turn_input
  | PipelineWorks

fun run_loop :: "(batch \<Rightarrow> string option) \<Rightarrow> server \<Rightarrow> server_event list \<Rightarrow> run_state \<times> server" where
  "run_loop throws sv [] = (Polling, sv)"
| "run_loop throws sv (StopSignal # es) = run_loop throws (request_stop sv) es"
| "run_loop throws sv (RecorderWorks ti # es) =
     run_loop throws (sv\<lparr>sv_telemetry := recorder_works_on ti (sv_telemetry sv)\<rparr>) es"
| "run_loop throws sv (PipelineWorks # es) =
     run_loop throws (sv\<lparr>sv_telemetry := pipeline_works_on throws (sv_telemetry sv)\<rparr>) es"
| "run_loop throws sv (Poll po # es) =
     (case poll_turn sv po of
        (Polling, sv') \<Rightarrow> run_loop throws sv' es
      | (outcome, sv') \<Rightarrow> (outcome, sv'))"

definition run_server ::
  "(batch \<Rightarrow> string option) \<Rightarrow> start_results \<Rightarrow> server \<Rightarrow> server_event list \<Rightarrow> run_state \<times> server" where
  "run_server throws st sv es =
     (case start_server st sv of
        (Some e, sv') \<Rightarrow> (StartFailed e, sv')
      | (None, sv') \<Rightarrow> run_loop throws sv' es)"

end
