(* ===== verification/Server_Facts.thy ===== *)
theory Server_Facts
  imports Server_Run
begin

text \<open>
  The run of the server: which sockets are open however it ends, that every observation is
  acknowledged before it goes to the gate, that a stop request ends the loop unless a client
  keeps it waiting, that a client that closes early ends the process on POSIX, and that the run refines the loop \<open>serve\<close> over accepted connections.
\<close>

named_theorems server_simps \<open>fields of the server after one of its operations\<close>

lemma acts_fields [server_simps, simp]:
  "sv_build (acts a sv) = sv_build sv" "sv_port (acts a sv) = sv_port sv"
  "sv_socket (acts a sv) = sv_socket sv" "sv_stop_requested (acts a sv) = sv_stop_requested sv"
  "sv_telemetry (acts a sv) = sv_telemetry sv" "sv_actions (acts a sv) = sv_actions sv @ a"
  by (simp_all add: acts_def)

lemma request_stop_fields [server_simps, simp]:
  "sv_build (request_stop sv) = sv_build sv" "sv_socket (request_stop sv) = sv_socket sv"
  "sv_stop_requested (request_stop sv)" "sv_telemetry (request_stop sv) = sv_telemetry sv"
  "sv_actions (request_stop sv) = sv_actions sv"
  by (simp_all add: request_stop_def)

lemma stop_if_fields [server_simps, simp]:
  "sv_build (stop_if b sv) = sv_build sv" "sv_socket (stop_if b sv) = sv_socket sv"
  "sv_stop_requested (stop_if b sv) = (b \<or> sv_stop_requested sv)"
  "sv_telemetry (stop_if b sv) = sv_telemetry sv" "sv_actions (stop_if b sv) = sv_actions sv"
  by (simp_all add: stop_if_def)

lemma clean_runtime_fields [server_simps, simp]:
  "sv_socket (clean_runtime sv) = sv_socket sv" "sv_telemetry (clean_runtime sv) = sv_telemetry sv"
  "sv_stop_requested (clean_runtime sv) = sv_stop_requested sv" "sv_build (clean_runtime sv) = sv_build sv"
  "sv_actions (clean_runtime sv) =
     sv_actions sv @ (if sv_build sv = WindowsBuild then [CleanRuntime] else [])"
  by (simp_all add: clean_runtime_def)

lemma leave_loop_fields [simp]:
  "fst (leave_loop sv) = Returned" "sv_socket (snd (leave_loop sv)) = sv_socket sv"
  "sv_telemetry (snd (leave_loop sv)) = sv_telemetry sv"
  by (simp_all add: leave_loop_def)

text \<open>The ways in which one turn can go.\<close>

lemma poll_turn_cases:
  obtains (left) sv1 where "poll_turn sv po = leave_loop sv1" "sv_stop_requested sv1"
      "sv_actions sv1 = sv_actions sv" "sv_socket sv1 = sv_socket sv" "sv_telemetry sv1 = sv_telemetry sv"
      "sv_build sv1 = sv_build sv"
  | (quiet) sv1 where "poll_turn sv po = (Polling, sv1)" "\<not> sv_stop_requested sv"
      "sv_actions sv1 = sv_actions sv" "sv_socket sv1 = sv_socket sv" "sv_telemetry sv1 = sv_telemetry sv"
  | (client) sv1 where "poll_turn sv po = serve_client sv1 po" "\<not> sv_stop_requested sv"
      "sv_actions sv1 = sv_actions sv" "sv_socket sv1 = sv_socket sv" "sv_telemetry sv1 = sv_telemetry sv"
proof (cases "sv_stop_requested sv")
  case True
  then show ?thesis by (intro left [of sv]) (simp_all add: poll_turn_def)
next
  case False
  let ?sv1 = "stop_if (po_stop_in_select po) sv"
  let ?sv2 = "stop_if (po_stop_in_accept po) ?sv1"
  consider (none) "po_ready po = 0" | (failed) "po_ready po < 0"
    | (bad) "po_ready po > 0" "po_client po = invalid_socket"
    | (served) "po_ready po > 0" "po_client po \<noteq> invalid_socket" by linarith
  then show ?thesis
  proof cases
    case none
    with False show ?thesis by (intro quiet [of ?sv1]) (simp_all add: poll_turn_def)
  next
    case failed
    with False show ?thesis
      by (cases "sv_stop_requested ?sv1") (auto simp: poll_turn_def intro: left [of ?sv1] quiet [of ?sv1])
  next
    case bad
    with False show ?thesis
      by (cases "sv_stop_requested ?sv2")
        (auto simp: poll_turn_def Let_def intro: left [of ?sv2] quiet [of ?sv2])
  next
    case served
    with False show ?thesis by (intro client [of ?sv2]) (simp_all add: poll_turn_def Let_def)
  qed
qed

text \<open>The client gets no answer that would go on: it stays silent, or its closing ends the process.\<close>

definition unanswered :: "clock_build \<Rightarrow> poll \<Rightarrow> bool" where
  "unanswered build po \<longleftrightarrow> po_peer_waits po \<and> wants_more (cn_chunks (po_connection po)) \<or> broken_pipe build po"

lemma serve_client_cases:
  obtains (blocked) "serve_client sv po = (BlockedOn (po_client po), acts [AcceptClient (po_client po)] sv)"
      "po_peer_waits po" "unanswered (sv_build sv) po"
  | (broken) response where
      "serve_client sv po = (BrokenPipe (po_client po),
         acts [AcceptClient (po_client po), send_part (po_client po) (po_send_results po) response] sv)"
      "broken_pipe (sv_build sv) po" "unanswered (sv_build sv) po"
  | (refused) response where
      "serve_client sv po = (Polling, acts (AcceptClient (po_client po) # answer (po_client po) (po_send_results po) response) sv)"
      "serve_connection (sv_telemetry sv) (po_connection po) = (response, None, sv_telemetry sv)" "\<not> unanswered (sv_build sv) po"
  | (failed) e t body where
      "serve_client sv po = (Threw e, clean_runtime (acts (AcceptClient (po_client po)
         # answer (po_client po) (po_send_results po) ok_response @ [EnqueueBody body]) (sv\<lparr>sv_telemetry := t\<rparr>)))"
      "serve_connection (sv_telemetry sv) (po_connection po) = (ok_response, Some (Inl e), t)" "\<not> unanswered (sv_build sv) po"
  | (queued) rec t body where
      "serve_client sv po = (Polling, acts (AcceptClient (po_client po)
         # answer (po_client po) (po_send_results po) ok_response
         @ [EnqueueBody body, PrintLine (gsi_line (rc_frequency (tm_recorder t)) (po_connection po) rec)])
         (sv\<lparr>sv_telemetry := t\<rparr>))"
      "serve_connection (sv_telemetry sv) (po_connection po) = (ok_response, Some (Inr rec), t)" "\<not> unanswered (sv_build sv) po"
proof (cases "po_peer_waits po \<and> wants_more (cn_chunks (po_connection po))")
  case True
  then show ?thesis by (intro blocked) (simp_all add: serve_client_def unanswered_def Let_def)
next
  case waits: False
  show ?thesis
  proof (cases "broken_pipe (sv_build sv) po")
    case True
    with waits show ?thesis by (intro broken) (simp_all add: serve_client_def unanswered_def acts_def Let_def)
  next
    case pipe: False
    have go: "\<not> unanswered (sv_build sv) po" using waits pipe by (simp add: unanswered_def)
    have eq: "serve_client sv po = (let client = po_client po; cn = po_connection po; sv1 = acts [AcceptClient client] sv in
        case receive_request (cn_chunks cn) of
           None \<Rightarrow> (Polling, acts (answer client (po_send_results po) bad_request) sv1)
         | Some request \<Rightarrow>
             if hr_method request \<noteq> ''POST'' then
               (Polling, acts (answer client (po_send_results po) method_not_allowed) sv1)
             else
               (let sv2 = acts (answer client (po_send_results po) ok_response @ [EnqueueBody (hr_body request)]) sv1;
                    (result, t) = ingress_gsi (sv_telemetry sv2) (cn_accepted_tick cn) (cn_body_complete_tick cn)
                      (cn_ack_sent_tick cn) (hr_body request);
                    sv3 = sv2\<lparr>sv_telemetry := t\<rparr>
                in case result of
                     Inl e \<Rightarrow> (Threw e, clean_runtime sv3)
                   | Inr rec \<Rightarrow> (Polling, acts [PrintLine (gsi_line (rc_frequency (tm_recorder t)) cn rec)] sv3)))"
      unfolding serve_client_def Let_def if_not_P [OF waits] by (simp add: pipe)
    note eq = eq serve_connection_def [of "sv_telemetry sv" "po_connection po"]
    show ?thesis
    proof (cases "receive_request (cn_chunks (po_connection po))")
      case None
      with go show ?thesis by (intro refused [of bad_request]) (simp_all add: eq acts_def Let_def)
    next
      case (Some request)
      note req = Some
      show ?thesis
      proof (cases "hr_method request = ''POST''")
        case False
        with go req show ?thesis by (intro refused [of method_not_allowed]) (simp_all add: eq acts_def Let_def)
      next
        case True
        obtain result t where gate: "ingress_gsi (sv_telemetry sv) (cn_accepted_tick (po_connection po))
            (cn_body_complete_tick (po_connection po)) (cn_ack_sent_tick (po_connection po)) (hr_body request) = (result, t)"
          by fastforce
        show ?thesis
        proof (cases result)
          case (Inl e)
          with go req True gate show ?thesis
            by (intro failed [of e "hr_body request" t]) (simp_all add: eq acts_def Let_def clean_runtime_def)
        next
          case (Inr rec)
          with go req True gate show ?thesis
            by (intro queued [of "hr_body request" t rec]) (simp_all add: eq acts_def Let_def)
        qed
      qed
    qed
  qed
qed

subsection \<open>Sockets\<close>

fun open_after :: "int list \<Rightarrow> server_action list \<Rightarrow> int list" where
  "open_after sockets [] = sockets"
| "open_after sockets (OpenSocket s # as) = open_after (s # sockets) as"
| "open_after sockets (AcceptClient s # as) = open_after (s # sockets) as"
| "open_after sockets (CloseSocket s # as) = open_after (remove1 s sockets) as"
| "open_after sockets (_ # as) = open_after sockets as"

lemma open_after_append [simp]: "open_after sockets (as @ bs) = open_after (open_after sockets as) bs"
  by (induction sockets as rule: open_after.induct) simp_all

definition open_sockets :: "server \<Rightarrow> int list" where
  "open_sockets sv = open_after [] (sv_actions sv)"

definition left_open :: "run_state \<Rightarrow> int \<Rightarrow> int list" where
  "left_open outcome socket =
     (case outcome of
        Polling \<Rightarrow> [socket]
      | BlockedOn client \<Rightarrow> [client, socket]
      | BrokenPipe client \<Rightarrow> [client, socket]
      | Returned \<Rightarrow> []
      | Threw _ \<Rightarrow> [socket]
      | StartFailed _ \<Rightarrow> [])"

lemma open_after_answer [simp]: "open_after (client # sockets) (answer client results response) = sockets"
  by (simp add: answer_def send_part_def)

lemma poll_turn_sockets:
  assumes "open_sockets sv = [sv_socket sv]" "poll_turn sv po = (outcome, sv')"
  shows "open_sockets sv' = left_open outcome (sv_socket sv) \<and> sv_socket sv' = sv_socket sv"
proof (cases rule: poll_turn_cases [of sv po])
  case (left sv1)
  with assms show ?thesis by (auto simp: open_sockets_def leave_loop_def left_open_def)
next
  case (quiet sv1)
  with assms show ?thesis by (auto simp: open_sockets_def left_open_def)
next
  case (client sv1)
  have "serve_client sv1 po = (outcome, sv')" using client assms(2) by simp
  moreover have "open_after [] (sv_actions sv) = [sv_socket sv]" using assms(1) by (simp add: open_sockets_def)
  ultimately show ?thesis using client(3,4)
    by (cases rule: serve_client_cases [of sv1 po]) (auto simp: open_sockets_def left_open_def send_part_def)
qed

lemma run_loop_sockets:
  assumes "open_sockets sv = [sv_socket sv]" "run_loop throws sv es = (outcome, sv')"
  shows "open_sockets sv' = left_open outcome (sv_socket sv) \<and> sv_socket sv' = sv_socket sv"
  using assms
proof (induction throws sv es rule: run_loop.induct)
  case (5 throws sv po es)
  obtain turn sv1 where turn: "poll_turn sv po = (turn, sv1)" by fastforce
  note one = poll_turn_sockets [OF "5.prems"(1) turn]
  show ?case
  proof (cases "turn = Polling")
    case True
    with "5.IH" [of turn sv1] turn one "5.prems"(2) show ?thesis by (simp add: left_open_def)
  next
    case False
    with turn "5.prems"(2) have "turn = outcome" "sv1 = sv'" by (cases turn; simp)+
    with one show ?thesis by simp
  qed
qed (simp_all add: open_sockets_def left_open_def)

lemma start_server_sockets:
  assumes "start_server st sv = (failure, sv')" "sv_actions sv = []"
  shows "case failure of
      Some e \<Rightarrow> open_sockets sv' = []
    | None \<Rightarrow> open_sockets sv' = [st_socket st] \<and> sv_socket sv' = st_socket st"
  using assms
  by (auto simp: start_server_def Let_def open_sockets_def banner_def split: if_splits)

text \<open>
  C26: The sockets that are open when \<open>run\<close> ends are known for every schedule and every result of
  the system's calls: none after a normal return and none after a failed start, but the
  listening socket is still open when the exception of a refused observation leaves the
  loop, since no destructor closes it. Each accepted client is closed.
\<close>

theorem run_accounts_for_sockets:
  "open_sockets (snd (run_server throws st (construct_server build port session t) es))
     = left_open (fst (run_server throws st (construct_server build port session t) es)) (st_socket st)"
proof -
  let ?sv = "construct_server build port session t"
  obtain failure sv1 where start: "start_server st ?sv = (failure, sv1)" by fastforce
  have "sv_actions ?sv = []" by (simp add: construct_server_def)
  note opened = start_server_sockets [OF start this]
  show ?thesis
  proof (cases failure)
    case None
    obtain outcome sv2 where "run_loop throws sv1 es = (outcome, sv2)" by fastforce
    with None opened start show ?thesis
      using run_loop_sockets [of sv1 throws es outcome sv2] by (simp add: run_server_def)
  next
    case (Some e)
    with opened start show ?thesis by (simp add: run_server_def left_open_def)
  qed
qed

subsection \<open>Acknowledged first\<close>

text \<open>
  The actions so far are read from the last to the first: a body goes to the gate directly after
  its client was accepted, answered and closed.
\<close>

fun acknowledged :: "server_action list \<Rightarrow> server_action list \<Rightarrow> bool" where
  "acknowledged past [] = True"
| "acknowledged past (a # as) =
     ((case a of
         EnqueueBody _ \<Rightarrow>
           (case past of
              CloseSocket c # SendTo d text # AcceptClient e # _ \<Rightarrow> c = d \<and> d = e \<and> prefix text ok_response
            | _ \<Rightarrow> False)
       | _ \<Rightarrow> True) \<and> acknowledged (a # past) as)"

lemma acknowledged_append [simp]:
  "acknowledged past (as @ bs) \<longleftrightarrow> acknowledged past as \<and> acknowledged (rev as @ past) bs"
  by (induction past as rule: acknowledged.induct) auto

lemma poll_turn_acknowledged:
  assumes "acknowledged [] (sv_actions sv)" "poll_turn sv po = (outcome, sv')"
  shows "acknowledged [] (sv_actions sv')"
proof (cases rule: poll_turn_cases [of sv po])
  case (left sv1)
  with assms show ?thesis by (auto simp: leave_loop_def)
next
  case (quiet sv1)
  with assms show ?thesis by simp
next
  case (client sv1)
  have "serve_client sv1 po = (outcome, sv')" using client assms(2) by simp
  with client(3) assms(1) show ?thesis
    by (cases rule: serve_client_cases [of sv1 po]) (auto simp: answer_def send_part_def take_is_prefix)
qed

lemma run_loop_acknowledged:
  "acknowledged [] (sv_actions sv) \<Longrightarrow> run_loop throws sv es = (outcome, sv') \<Longrightarrow> acknowledged [] (sv_actions sv')"
proof (induction throws sv es rule: run_loop.induct)
  case (5 throws sv po es)
  obtain turn sv1 where turn: "poll_turn sv po = (turn, sv1)" by fastforce
  note one = poll_turn_acknowledged [OF "5.prems"(1) turn]
  show ?case
  proof (cases "turn = Polling")
    case True
    with "5.IH" [of turn sv1] turn one "5.prems"(2) show ?thesis by simp
  next
    case False
    with turn "5.prems"(2) have "sv1 = sv'" by (cases turn; simp)
    with one show ?thesis by simp
  qed
qed simp_all

text \<open>
  C27: The game is never kept waiting for the session: in every run each body that goes to the
  gate does so directly after its client was sent the answer and its socket was closed.
\<close>

theorem answered_before_gate:
  "acknowledged [] (sv_actions (snd (run_server throws st (construct_server build port session t) es)))"
proof -
  let ?sv = "construct_server build port session t"
  obtain failure sv1 where start: "start_server st ?sv = (failure, sv1)" by fastforce
  have "acknowledged [] (sv_actions sv1)"
    using start by (auto simp: start_server_def construct_server_def Let_def banner_def split: if_splits)
  then show ?thesis
    using start run_loop_acknowledged [of sv1 throws es]
    by (cases failure; cases "run_loop throws sv1 es") (simp_all add: run_server_def)
qed

subsection \<open>Stop requests\<close>

text \<open>How a run can have ended after a stop request.\<close>

definition ended_or_waiting :: "server_event list \<Rightarrow> run_state \<Rightarrow> bool" where
  "ended_or_waiting es outcome \<longleftrightarrow>
     (case outcome of
        Polling \<Rightarrow> False
      | BlockedOn client \<Rightarrow> list_ex (\<lambda>e. case e of Poll po \<Rightarrow> po_peer_waits po \<and> po_client po = client | _ \<Rightarrow> False) es
      | StartFailed _ \<Rightarrow> False
      | _ \<Rightarrow> True)"

lemma ended_or_waiting_Cons: "ended_or_waiting es outcome \<Longrightarrow> ended_or_waiting (e # es) outcome"
  by (cases outcome) (simp_all add: ended_or_waiting_def)

lemma poll_turn_outcome:
  assumes "poll_turn sv po = (outcome, sv')"
  shows "outcome = Polling \<and> \<not> sv_stop_requested sv \<or> ended_or_waiting (Poll po # es) outcome"
proof (cases rule: poll_turn_cases [of sv po])
  case (left sv1)
  with assms show ?thesis by (simp add: leave_loop_def ended_or_waiting_def)
next
  case (quiet sv1)
  with assms show ?thesis by simp
next
  case (client sv1)
  have "serve_client sv1 po = (outcome, sv')" using client assms by simp
  with client(2) show ?thesis
    by (cases rule: serve_client_cases [of sv1 po]) (auto simp: ended_or_waiting_def)
qed

lemma stopped_loop:
  "sv_stop_requested sv \<Longrightarrow> ended_or_waiting (es @ Poll po # es') (fst (run_loop throws sv (es @ Poll po # es')))"
proof (induction es arbitrary: sv)
  case Nil
  then show ?case by (simp add: poll_turn_def leave_loop_def ended_or_waiting_def)
next
  case (Cons e es)
  show ?case
  proof (cases e)
    case (Poll po)
    with Cons.prems show ?thesis by (simp add: poll_turn_def leave_loop_def ended_or_waiting_def)
  qed (use Cons in \<open>auto intro!: ended_or_waiting_Cons\<close>)
qed

lemma stop_ends_loop:
  "ended_or_waiting (before @ StopSignal # between @ Poll po # after)
     (fst (run_loop throws sv (before @ StopSignal # between @ Poll po # after)))"
proof (induction before arbitrary: sv)
  case Nil
  then show ?case using stopped_loop [of "request_stop sv"] by (simp add: ended_or_waiting_Cons)
next
  case (Cons e before)
  show ?case
  proof (cases e)
    case (Poll po1)
    obtain turn sv1 where turn: "poll_turn sv po1 = (turn, sv1)" by fastforce
    show ?thesis
    proof (cases "turn = Polling")
      case True
      with Poll turn Cons.IH [of sv1] show ?thesis by (simp add: ended_or_waiting_Cons)
    next
      case False
      with Poll turn poll_turn_outcome [OF turn] show ?thesis
        by (cases turn) auto
    qed
  qed (use Cons.IH in \<open>auto intro!: ended_or_waiting_Cons\<close>)
qed

text \<open>
  C28: A stop request is honoured: whatever happened before and whatever the system's calls
  return, once the signal has arrived and the loop polls again it is over, unless it waits in
  \<open>recv\<close> for a client that neither sends nor closes.
\<close>

theorem stop_request_honoured:
  "ended_or_waiting (before @ StopSignal # between @ Poll po # after)
     (fst (run_loop throws sv (before @ StopSignal # between @ Poll po # after)))"
  by (rule stop_ends_loop)

definition silent_poll :: poll where
  "silent_poll = \<lparr>po_ready = 1, po_stop_in_select = False, po_client = 7, po_stop_in_accept = False,
     po_connection = \<lparr>cn_accepted_tick = 0, cn_chunks = [], cn_body_complete_tick = 0, cn_ack_sent_tick = 0\<rparr>,
     po_peer_waits = True, po_peer_gone = False, po_send_results = []\<rparr>"

definition good_start :: start_results where
  "good_start = \<lparr>st_runtime = 0, st_socket = 3, st_bind = 0, st_listen = 0\<rparr>"

text \<open>
  One client that connects, sends nothing and stays keeps the server in \<open>recv\<close>: no later
  signal, however often it comes, ends the run, although the timeout of \<open>select\<close> is there for
  exactly that.
\<close>

theorem silent_client_blocks_stop:
  "fst (run_server throws good_start (construct_server build port session t) (Poll silent_poll # es)) = BlockedOn 7"
proof -
  have "wants_more []" by code_simp
  then show ?thesis
    by (cases build) (simp_all add: run_server_def start_server_def good_start_def construct_server_def Let_def
      poll_turn_def silent_poll_def serve_client_def invalid_socket_def)
qed

text \<open>A client that posts and closes before the answer has reached it.\<close>

definition gone_poll :: poll where
  "gone_poll = silent_poll\<lparr>po_connection := \<lparr>cn_accepted_tick = 0, cn_chunks = demo_chunks, cn_body_complete_tick = 0,
     cn_ack_sent_tick = 0\<rparr>, po_peer_waits := False, po_peer_gone := True, po_send_results := [-1]\<rparr>"

text \<open>
  On POSIX one such client ends the process, whatever the session holds by then; on Windows the
  failed \<open>send\<close> has no effect on the run.
\<close>

theorem closing_client_ends_process:
  "fst (run_server throws good_start (construct_server PosixBuild port session t) (Poll gone_poll # es)) = BrokenPipe 7"
  "\<not> unanswered WindowsBuild gone_poll"
proof -
  have "broken_pipe PosixBuild gone_poll" by code_simp
  then show "fst (run_server throws good_start (construct_server PosixBuild port session t) (Poll gone_poll # es)) = BrokenPipe 7"
    by (simp add: run_server_def start_server_def good_start_def construct_server_def Let_def
      poll_turn_def gone_poll_def silent_poll_def serve_client_def invalid_socket_def)
  show "\<not> unanswered WindowsBuild gone_poll"
    by (simp add: unanswered_def broken_pipe_def) (simp add: gone_poll_def silent_poll_def)
qed

subsection \<open>Refinement of the accept loop\<close>

text \<open>The schedule as \<open>serve\<close> sees it: what each poll amounted to, up to the end of the loop.\<close>

fun accept_view :: "clock_build \<Rightarrow> bool \<Rightarrow> server_event list \<Rightarrow> accept_event list" where
  "accept_view build stop [] = []"
| "accept_view build stop (StopSignal # es) = accept_view build True es"
| "accept_view build stop (RecorderWorks ti # es) = RecorderTurn ti # accept_view build stop es"
| "accept_view build stop (PipelineWorks # es) = PipelineTurn # accept_view build stop es"
| "accept_view build stop (Poll po # es) =
     (if stop then [StopRequested]
      else if po_ready po = 0 then NoConnection # accept_view build (po_stop_in_select po) es
      else if po_ready po < 0 then
        (if po_stop_in_select po then [StopRequested] else NoConnection # accept_view build False es)
      else if po_client po = invalid_socket then
        (if po_stop_in_accept po \<or> po_stop_in_select po then [StopRequested] else NoConnection # accept_view build False es)
      else if unanswered build po then [StopRequested]
      else Accepted (po_connection po) # accept_view build (po_stop_in_accept po \<or> po_stop_in_select po) es)"

fun gate_error :: "run_state \<Rightarrow> ingress_error option" where
  "gate_error (Threw e) = Some e"
| "gate_error _ = None"

lemma serve_client_view:
  assumes "serve_client sv po = (outcome, sv')" "sv_stop_requested sv = stop" "sv_build sv = build"
    and next_turns: "outcome = Polling \<Longrightarrow> sv_stop_requested sv' = stop \<Longrightarrow> sv_build sv' = build \<Longrightarrow>
      snd (serve throws (sv_telemetry sv') (accept_view build stop es)) = result"
    and ended: "outcome \<noteq> Polling \<Longrightarrow> result = (gate_error outcome, sv_telemetry sv')"
  shows "snd (serve throws (sv_telemetry sv)
      (if unanswered build po then [StopRequested]
       else Accepted (po_connection po) # accept_view build stop es)) = result"
proof (cases rule: serve_client_cases [of sv po])
  case blocked
  with assms(1,3) ended show ?thesis by auto
next
  case (broken response)
  with assms(1,3) ended show ?thesis by auto
next
  case (refused response)
  have go: "\<not> unanswered build po" using refused(3) assms(3) by simp
  have out: "outcome = Polling" and t: "sv_telemetry sv' = sv_telemetry sv"
    and same: "sv_stop_requested sv' = stop" "sv_build sv' = build" using refused(1) assms(1-3) by auto
  from refused(2) next_turns [OF out same] t show ?thesis
    unfolding if_not_P [OF go] by (simp add: Let_def case_prod_beta)
next
  case (failed e t body)
  have go: "\<not> unanswered build po" using failed(3) assms(3) by simp
  have "outcome = Threw e" "sv_telemetry sv' = t" using failed(1) assms(1) by auto
  with failed(2) ended show ?thesis unfolding if_not_P [OF go] by simp
next
  case (queued rec t body)
  have go: "\<not> unanswered build po" using queued(3) assms(3) by simp
  have out: "outcome = Polling" and t: "sv_telemetry sv' = t"
    and same: "sv_stop_requested sv' = stop" "sv_build sv' = build" using queued(1) assms(1-3) by auto
  from queued(2) next_turns [OF out same] t show ?thesis
    unfolding if_not_P [OF go] by (simp add: Let_def case_prod_beta)
qed

lemma poll_turn_view:
  assumes "poll_turn sv po = (outcome, sv')"
    and next_turns: "outcome = Polling \<Longrightarrow>
      snd (serve throws (sv_telemetry sv') (accept_view (sv_build sv') (sv_stop_requested sv') es)) = result"
    and ended: "outcome \<noteq> Polling \<Longrightarrow> result = (gate_error outcome, sv_telemetry sv')"
  shows "snd (serve throws (sv_telemetry sv) (accept_view (sv_build sv) (sv_stop_requested sv) (Poll po # es))) = result"
proof -
  let ?sv1 = "stop_if (po_stop_in_select po) sv"
  let ?sv2 = "stop_if (po_stop_in_accept po) ?sv1"
  consider (stopped) "sv_stop_requested sv"
    | (none) "\<not> sv_stop_requested sv" "po_ready po = 0"
    | (select) "\<not> sv_stop_requested sv" "po_ready po < 0"
    | (bad) "\<not> sv_stop_requested sv" "po_ready po > 0" "po_client po = invalid_socket"
    | (served) "\<not> sv_stop_requested sv" "po_ready po > 0" "po_client po \<noteq> invalid_socket" by linarith
  then show ?thesis
  proof cases
    case stopped
    with assms(1) ended show ?thesis by (auto simp: poll_turn_def leave_loop_def)
  next
    case none
    then have "poll_turn sv po = (Polling, ?sv1)" by (simp add: poll_turn_def)
    with none assms(1) next_turns show ?thesis by auto
  next
    case select
    show ?thesis
    proof (cases "po_stop_in_select po")
      case True
      with select have "poll_turn sv po = leave_loop ?sv1" by (simp add: poll_turn_def)
      with True select assms(1) ended show ?thesis by (auto simp: leave_loop_def)
    next
      case False
      with select have "poll_turn sv po = (Polling, ?sv1)" by (simp add: poll_turn_def)
      with False select assms(1) next_turns show ?thesis by auto
    qed
  next
    case bad
    show ?thesis
    proof (cases "po_stop_in_accept po \<or> po_stop_in_select po")
      case True
      with bad have "poll_turn sv po = leave_loop ?sv2" by (auto simp: poll_turn_def Let_def)
      with True bad assms(1) ended show ?thesis by (auto simp: leave_loop_def)
    next
      case False
      with bad have "poll_turn sv po = (Polling, ?sv2)" by (simp add: poll_turn_def Let_def)
      with False bad assms(1) next_turns show ?thesis by auto
    qed
  next
    case served
    with assms(1) have client: "serve_client ?sv2 po = (outcome, sv')" by (simp add: poll_turn_def Let_def)
    have view: "accept_view (sv_build sv) (sv_stop_requested sv) (Poll po # es) =
        (if unanswered (sv_build sv) po then [StopRequested]
         else Accepted (po_connection po) # accept_view (sv_build sv) (sv_stop_requested ?sv2) es)"
      using served by simp
    have "snd (serve throws (sv_telemetry ?sv2) (accept_view (sv_build sv) (sv_stop_requested sv) (Poll po # es))) = result"
      unfolding view by (rule serve_client_view [OF client refl]) (use next_turns ended in simp_all)
    then show ?thesis by (simp only: stop_if_fields)
  qed
qed

lemma run_loop_view:
  "snd (serve throws (sv_telemetry sv) (accept_view (sv_build sv) (sv_stop_requested sv) es))
     = (gate_error (fst (run_loop throws sv es)), sv_telemetry (snd (run_loop throws sv es)))"
proof (induction throws sv es rule: run_loop.induct)
  case (5 throws sv po es)
  obtain turn sv1 where turn: "poll_turn sv po = (turn, sv1)" by fastforce
  show ?case
  proof (rule poll_turn_view [OF turn])
    assume "turn = Polling"
    with "5.IH" turn show "snd (serve throws (sv_telemetry sv1) (accept_view (sv_build sv1) (sv_stop_requested sv1) es))
        = (gate_error (fst (run_loop throws sv (Poll po # es))), sv_telemetry (snd (run_loop throws sv (Poll po # es))))"
      by simp
  next
    assume "turn \<noteq> Polling"
    with turn show "(gate_error (fst (run_loop throws sv (Poll po # es))), sv_telemetry (snd (run_loop throws sv (Poll po # es))))
        = (gate_error turn, sv_telemetry sv1)"
      by (cases turn) simp_all
  qed
qed simp_all

text \<open>
  C25: The run refines the loop \<open>serve\<close> over accepted connections: for every schedule the exception
  that leaves it and the session behind it are those of \<open>serve\<close> on the view of the schedule.
  Failed polls, failed accepts, partial sends and the places where the stop is read leave no
  trace in the session.
\<close>

theorem run_refines_accept_loop:
  "snd (serve throws (sv_telemetry sv) (accept_view (sv_build sv) (sv_stop_requested sv) es))
     = (gate_error (fst (run_loop throws sv es)), sv_telemetry (snd (run_loop throws sv es)))"
  by (rule run_loop_view)

lemma poll_turn_started: "poll_turn sv po = (StartFailed e, sv') \<Longrightarrow> False"
  using poll_turn_outcome [of sv po "StartFailed e" sv' "[]"] by (simp add: ended_or_waiting_def)

lemma run_loop_started: "run_loop throws sv es = (state, sv') \<Longrightarrow> \<nexists>e. state = StartFailed e"
proof (induction throws sv es rule: run_loop.induct)
  case (5 throws sv po es)
  obtain turn sv1 where turn: "poll_turn sv po = (turn, sv1)" by fastforce
  with 5 poll_turn_started [of sv po] show ?case by (cases turn) auto
qed auto

end
