(* ===== verification/Record_Command.thy ===== *)
theory Record_Command
  imports Record_Replay Recorder_Flush Recorder_Start Server_Facts
begin

text \<open>
  \<open>command_record\<close> of \<open>src/main.cpp\<close>: arguments, the construction of clock, recorder and server, the
  run of the server over the session, and the two shutdowns in their order, the pipeline before
  the recorder. The joined result is the session that \<open>analyze\<close> reads.
\<close>

subsection \<open>The command\<close>

text \<open>The port and the directory of the sessions.\<close>

definition record_arguments :: "string list \<Rightarrow> cli_error + i32 \<times> string" where
  "record_arguments argv =
     rbind (parse_port argv) (\<lambda>port.
       Inr (port, if length argv \<ge> 4 then argv ! 3 else ''sessions''))"

definition record_banner :: "string \<Rightarrow> edition_descriptor \<Rightarrow> string list" where
  "record_banner version edition =
     (''[PROMATOR] '' @ ed_display_name edition @ '' '' @ version
        @ '' starting with required provider=gsi'')
     # (if ed_kind edition = EditionExtended
        then [''[PROMATOR] Extended experimental providers are currently unplugged; ''
              @ ''live behavior falls back to GSI.'']
        else [])"

text \<open>The text that the handler prints for one batch.\<close>

definition live_text :: "batch \<Rightarrow> string" where
  "live_text b =
     ''[LIVE] #'' @ u64_to_string (gs_sequence (fst b)) @ '' t+'' @ show_ms (gs_relative_us (fst b)) @ '' ms'' @ [newline]
       @ concat (map (\<lambda>e. ''  '' @ describe_event e @ [newline]) (snd b))"

text \<open>Both objects after their shutdown; destructors do the same when an exception passes.\<close>

definition session_closed ::
  "(batch \<Rightarrow> string option) \<Rightarrow> (nat \<Rightarrow> turn_input) \<Rightarrow> telemetry \<Rightarrow> telemetry" where
  "session_closed throws world t =
     \<lparr>tm_recorder = recorder_loop world (recorder_stop_begin (tm_recorder t)),
      tm_pipeline = worker_loop throws (stop_begin (tm_pipeline t))\<rparr>"

datatype record_outcome =
    RecordArguments cli_error
  | ClockFailed
  | SearchUnending
  | SessionNotCreated recorder_start_error
  | ServerNotStarted start_error
  | ServerFailed ingress_error
  | LiveFailed pipeline_error
  | SessionFailed recorder_error
  | StillRunning
  | ProcessKilled
  | RecordFinished

definition record_outcome_of :: "run_state \<Rightarrow> telemetry \<Rightarrow> record_outcome" where
  "record_outcome_of state t =
     (case state of
        StartFailed e \<Rightarrow> ServerNotStarted e
      | Threw e \<Rightarrow> ServerFailed e
      | Returned \<Rightarrow>
          (case stop_result (tm_pipeline t) of
             Inl e \<Rightarrow> LiveFailed e
           | Inr _ \<Rightarrow>
               (case fst (recorder_stop_joined (tm_recorder t)) of
                  Some e \<Rightarrow> SessionFailed e
                | None \<Rightarrow> RecordFinished))
      | BrokenPipe _ \<Rightarrow> ProcessKilled
      | _ \<Rightarrow> StillRunning)"

text \<open>Everything outside: the build, the clock, the file system, the sockets and the schedule.\<close>

record record_env =
  en_build :: clock_build
  en_clock_queried :: bool
  en_clock_quad :: int
  en_start_ticks :: int
  en_exists :: "string \<Rightarrow> bool"
  en_moments :: "nat \<Rightarrow> local_time"
  en_disk :: disk_results
  en_start :: start_results
  en_throws :: "batch \<Rightarrow> string option"
  en_turns :: "nat \<Rightarrow> turn_input"
  en_events :: "server_event list"

record record_result =
  rr_outcome :: record_outcome
  rr_telemetry :: "telemetry option"
  rr_actions :: "server_action list"
  rr_lines :: "string list"

definition session_application :: "string \<Rightarrow> edition_descriptor \<Rightarrow> application_info" where
  "session_application version edition =
     \<lparr>ai_application = ''CSPromator'', ai_application_version = version, ai_edition = ed_id edition\<rparr>"

fun printed_lines :: "server_action list \<Rightarrow> string list" where
  "printed_lines [] = []"
| "printed_lines (PrintLine l # as) = l # printed_lines as"
| "printed_lines (_ # as) = printed_lines as"

text \<open>
  From the constructed recorder on: the run, and the shutdown unless the server still runs or
  the process was killed.
\<close>

definition record_session ::
  "record_env \<Rightarrow> 16 word \<Rightarrow> string \<Rightarrow> recorder \<Rightarrow> record_result" where
  "record_session env port directory recorder =
     (let t0 = \<lparr>tm_recorder = recorder, tm_pipeline = init_pipeline\<rparr>;
          (state, sv) = run_server (en_throws env) (en_start env)
            (construct_server (en_build env) port directory t0) (en_events env);
          t = sv_telemetry sv;
          t' = (case state of Polling \<Rightarrow> t | BlockedOn _ \<Rightarrow> t | BrokenPipe _ \<Rightarrow> t
                | _ \<Rightarrow> session_closed (en_throws env) (en_turns env) t);
          outcome = record_outcome_of state t'
      in \<lparr>rr_outcome = outcome, rr_telemetry = Some t', rr_actions = sv_actions sv,
          rr_lines = printed_lines (sv_actions sv)
            @ (case outcome of RecordFinished \<Rightarrow> [''[PROMATOR] Live events and session flushed.''] | _ \<Rightarrow> [])\<rparr>)"

definition not_recorded :: "record_outcome \<Rightarrow> record_result" where
  "not_recorded outcome = \<lparr>rr_outcome = outcome, rr_telemetry = None, rr_actions = [], rr_lines = []\<rparr>"

definition command_record :: "string \<Rightarrow> edition_descriptor \<Rightarrow> record_env \<Rightarrow> string list \<Rightarrow> record_result" where
  "command_record version edition env argv =
     (case record_arguments argv of
        Inl e \<Rightarrow> not_recorded (RecordArguments e)
      | Inr (port, sessions) \<Rightarrow>
          (let after_banner = \<lambda>r. r\<lparr>rr_lines := record_banner version edition @ rr_lines r\<rparr> in
           case construct_clock (en_build env) (en_clock_queried env) (en_clock_quad env) of
             Inl _ \<Rightarrow> after_banner (not_recorded ClockFailed)
           | Inr frequency \<Rightarrow>
               (case construct_recorder (en_build env) (en_disk env) (en_exists env) (en_moments env) sessions
                   (session_application version edition) (clock_info_of (en_build env) frequency)
                   (clock_now (en_start_ticks env)) of
                  None \<Rightarrow> after_banner (not_recorded SearchUnending)
                | Some (directory, files, Inl e) \<Rightarrow> after_banner (not_recorded (SessionNotCreated e))
                | Some (directory, files, Inr recorder) \<Rightarrow>
                    after_banner (record_session env (word_of_int port) (value_or directory []) recorder))))"

text \<open>The exit code of the process, once it ends; a process killed by a signal has none.\<close>

definition record_exit :: "record_outcome \<Rightarrow> int option" where
  "record_exit outcome =
     (case outcome of
        RecordFinished \<Rightarrow> Some 0
      | StillRunning \<Rightarrow> None
      | SearchUnending \<Rightarrow> None
      | ProcessKilled \<Rightarrow> None
      | _ \<Rightarrow> Some 2)"

subsection \<open>The server leaves the flags alone\<close>

definition unstopped :: "telemetry \<Rightarrow> bool" where
  "unstopped t \<longleftrightarrow>
     (pl_worker_error (tm_pipeline t) = None \<longrightarrow>
        \<not> pl_stopping (tm_pipeline t) \<and> \<not> pl_stopped (tm_pipeline t))
     \<and> \<not> rc_stopped (tm_recorder t)
     \<and> list_all (\<lambda>p. body_of_record p \<noteq> []) (rc_accepted (tm_recorder t))"

lemma unstopped_init: "unstopped (init_telemetry frequency start_tick)"
  by (simp add: unstopped_def init_telemetry_def init_pipeline_def init_recorder_def)

lemma unstopped_recorder_works: "unstopped t \<Longrightarrow> unstopped (recorder_works_on ti t)"
proof -
  assume t: "unstopped t"
  have "rc_stopped r = rc_stopped (tm_recorder t)" if "recorder_turn ti (tm_recorder t) = Some r" for r
    using that by (cases rule: recorder_turn_cases) (auto simp: persist_frame)
  with t show ?thesis
    by (auto simp: unstopped_def recorder_works_on_def dest: recorder_turn_frame split: option.splits)
qed

lemma unstopped_pipeline_works: "unstopped t \<Longrightarrow> unstopped (pipeline_works_on throws t)"
proof -
  assume t: "unstopped t"
  have "(pl_worker_error p = None \<longrightarrow> \<not> pl_stopping p \<and> \<not> pl_stopped p)"
    if "worker_turn throws (tm_pipeline t) = Some p" for p
    using that t by (cases rule: worker_turn_cases) (auto simp: unstopped_def)
  with t show ?thesis
    by (auto simp: unstopped_def pipeline_works_on_def split: option.splits)
qed

lemma unstopped_ingress: "unstopped t \<Longrightarrow> unstopped (snd (ingress_gsi t a b k body))"
  by (cases rule: ingress_gsi_cases [of t a b k body])
    (auto simp: unstopped_def push_item_Inr dest!: enqueue_snapshot_Inr)

lemma unstopped_connection:
  assumes "unstopped t" "serve_connection t cn = (response, result, t')"
  shows "unstopped t'"
  using assms unstopped_ingress [OF assms(1)]
  by (auto simp: serve_connection_def Let_def case_prod_beta split: option.splits if_splits)

lemma unstopped_serve: "unstopped t \<Longrightarrow> unstopped (snd (snd (serve throws t es)))"
proof (induction throws t es rule: serve.induct)
  case (6 throws t cn es)
  obtain response result t1 where one: "serve_connection t cn = (response, result, t1)"
    by (cases "serve_connection t cn") auto
  note next_state = unstopped_connection [OF "6.prems" one]
  with 6 one show ?case
    by (cases result; cases "the result") (auto simp: Let_def case_prod_beta)
qed (auto simp: unstopped_recorder_works unstopped_pipeline_works)

lemma worker_loop_error_stays:
  "pl_worker_error p \<noteq> None \<Longrightarrow> pipeline_inv p \<Longrightarrow> worker_loop throws p = p"
  by (subst worker_loop.simps) (simp add: pipeline_inv_def worker_turn_def)

lemma recorder_loop_stopped: "rc_stopped (recorder_loop world r) = rc_stopped r"
proof (induction world r rule: recorder_loop.induct)
  case (1 world r)
  have "rc_stopped r' = rc_stopped r" if "recorder_turn (world 0) r = Some r'" for r'
    using that by (cases rule: recorder_turn_cases) (auto simp: persist_frame)
  then show ?case
    using 1 by (cases "recorder_turn (world 0) r") (auto simp: recorder_loop.simps)
qed

subsection \<open>The closed session is reached\<close>

lemma recorder_loop_telemetry:
  "(telemetry_step throws)\<^sup>*\<^sup>* t (t\<lparr>tm_recorder := recorder_loop world (tm_recorder t)\<rparr>)"
proof (induction world "tm_recorder t" arbitrary: t rule: recorder_loop.induct)
  case (1 world t)
  show ?case
  proof (cases "recorder_turn (world 0) (tm_recorder t)")
    case None
    then show ?thesis by (subst recorder_loop.simps) simp
  next
    case (Some r)
    then have "telemetry_step throws t (t\<lparr>tm_recorder := r\<rparr>)" by (rule recorder_works)
    moreover have "(telemetry_step throws)\<^sup>*\<^sup>* (t\<lparr>tm_recorder := r\<rparr>)
        (t\<lparr>tm_recorder := recorder_loop (\<lambda>n. world (Suc n)) r\<rparr>)"
      using 1 [of "t\<lparr>tm_recorder := r\<rparr>"] Some by simp
    ultimately show ?thesis
      using Some by (subst recorder_loop.simps) (simp add: converse_rtranclp_into_rtranclp)
  qed
qed

lemma worker_loop_telemetry:
  "(telemetry_step throws)\<^sup>*\<^sup>* t (t\<lparr>tm_pipeline := worker_loop throws (tm_pipeline t)\<rparr>)"
proof (induction throws "tm_pipeline t" arbitrary: t rule: worker_loop.induct)
  case (1 throws t)
  show ?case
  proof (cases "worker_turn throws (tm_pipeline t)")
    case None
    then show ?thesis by (subst worker_loop.simps) simp
  next
    case (Some p)
    then have "telemetry_step throws t (t\<lparr>tm_pipeline := p\<rparr>)" by (rule pipeline_works)
    moreover have "(telemetry_step throws)\<^sup>*\<^sup>* (t\<lparr>tm_pipeline := p\<rparr>) (t\<lparr>tm_pipeline := worker_loop throws p\<rparr>)"
      using 1 [of "t\<lparr>tm_pipeline := p\<rparr>"] Some by simp
    ultimately show ?thesis
      using Some by (subst worker_loop.simps) (simp add: converse_rtranclp_into_rtranclp)
  qed
qed

lemma session_closed_reached: "(telemetry_step throws)\<^sup>*\<^sup>* t (session_closed throws world t)"
proof -
  let ?t1 = "t\<lparr>tm_pipeline := stop_begin (tm_pipeline t)\<rparr>"
  let ?t2 = "?t1\<lparr>tm_pipeline := worker_loop throws (tm_pipeline ?t1)\<rparr>"
  let ?t3 = "?t2\<lparr>tm_recorder := recorder_stop_begin (tm_recorder ?t2)\<rparr>"
  have "(telemetry_step throws)\<^sup>*\<^sup>* t ?t2"
    using pipeline_stops [of throws t] worker_loop_telemetry [of throws ?t1]
    by (rule converse_rtranclp_into_rtranclp)
  moreover have "(telemetry_step throws)\<^sup>*\<^sup>* ?t2 (?t3\<lparr>tm_recorder := recorder_loop world (tm_recorder ?t3)\<rparr>)"
    using recorder_stops [of throws ?t2] recorder_loop_telemetry [of throws ?t3 world]
    by (rule converse_rtranclp_into_rtranclp)
  moreover have "?t3\<lparr>tm_recorder := recorder_loop world (tm_recorder ?t3)\<rparr> = session_closed throws world t"
    by (cases t) (simp add: session_closed_def)
  ultimately show ?thesis
    by (metis rtranclp_trans)
qed

lemma outcome_finished:
  "record_outcome_of state t = RecordFinished \<longleftrightarrow>
   state = Returned \<and> (\<exists>u. stop_result (tm_pipeline t) = Inr u) \<and> fst (recorder_stop_joined (tm_recorder t)) = None"
  by (cases state; cases "stop_result (tm_pipeline t)"; cases "fst (recorder_stop_joined (tm_recorder t))")
    (simp_all add: record_outcome_of_def)

lemma stop_result_Inr: "stop_result p = Inr u \<Longrightarrow> pl_worker_error p = None"
  by (cases "pl_worker_error p") (simp_all add: stop_result_def)

lemma start_server_fields:
  assumes "start_server st sv = (failure, sv')"
  shows "sv_telemetry sv' = sv_telemetry sv" "sv_stop_requested sv' = sv_stop_requested sv"
    "sv_build sv' = sv_build sv"
  using assms by (auto simp: start_server_def Let_def split: if_splits)

text \<open>The run as the abstract loop, from the construction of the server on.\<close>

lemma run_server_view:
  assumes "run_server throws st (construct_server build port directory t0) es = (state, sv)"
  obtains (not_started) e where "state = StartFailed e" "sv_telemetry sv = t0"
  | (started) responses where
      "serve throws t0 (accept_view build False es) = (responses, gate_error state, sv_telemetry sv)"
      "\<nexists>e. state = StartFailed e"
proof -
  obtain failure sv1 where start: "start_server st (construct_server build port directory t0) = (failure, sv1)"
    by fastforce
  note fields = start_server_fields [OF start]
  show ?thesis
  proof (cases failure)
    case (Some e)
    with assms start fields show ?thesis
      by (intro not_started [of e]) (auto simp: run_server_def construct_server_def)
  next
    case None
    with assms start have loop: "run_loop throws sv1 es = (state, sv)" by (simp add: run_server_def)
    have "snd (serve throws t0 (accept_view build False es)) = (gate_error state, sv_telemetry sv)"
      using run_loop_view [of throws sv1 es] fields loop by (simp add: construct_server_def)
    then show ?thesis
      using started [of "fst (serve throws t0 (accept_view build False es))"] run_loop_started [OF loop]
      by (metis prod.collapse)
  qed
qed

text \<open>A result with a session comes from a constructed recorder.\<close>

lemma command_record_session:
  assumes "rr_telemetry (command_record version edition env argv) = Some t'" "headers_written (en_disk env)"
  obtains port directory frequency where
    "rr_outcome (command_record version edition env argv)
       = rr_outcome (record_session env port directory (init_recorder frequency (clock_now (en_start_ticks env))))"
    "rr_telemetry (record_session env port directory (init_recorder frequency (clock_now (en_start_ticks env)))) = Some t'"
proof -
  obtain port sessions where args: "record_arguments argv = Inr (port, sessions)"
    using assms(1) by (cases "record_arguments argv") (auto simp: command_record_def not_recorded_def)
  obtain frequency where clock: "construct_clock (en_build env) (en_clock_queried env) (en_clock_quad env) = Inr frequency"
    using assms(1) args
    by (cases "construct_clock (en_build env) (en_clock_queried env) (en_clock_quad env)")
      (auto simp: command_record_def not_recorded_def)
  obtain directory files recorder where disk: "construct_recorder (en_build env) (en_disk env) (en_exists env)
      (en_moments env) sessions (session_application version edition) (clock_info_of (en_build env) frequency)
      (clock_now (en_start_ticks env)) = Some (directory, files, Inr recorder)"
    using assms(1) args clock
    by (auto simp: command_record_def not_recorded_def split: option.splits sum.splits)
  then have "open_files (en_disk env) (session_application version edition) (clock_info_of (en_build env) frequency)
      (clock_now (en_start_ticks env)) = (files, Inr recorder)"
    by (auto simp: construct_recorder_def split: if_splits option.splits)
  then have "recorder = init_recorder (ci_frequency (clock_info_of (en_build env) frequency)) (clock_now (en_start_ticks env))"
    using assms(2) by (rule open_files_Inr)
  moreover have "ci_frequency (clock_info_of (en_build env) frequency) = frequency"
    by (cases "en_build env") (simp_all add: clock_info_of_def)
  ultimately have "recorder = init_recorder frequency (clock_now (en_start_ticks env))" by simp
  with assms(1) args clock disk show ?thesis
    using that [of "word_of_int port" "value_or directory []" frequency] by (simp add: command_record_def)
qed

lemma record_session_cases:
  obtains (unstarted) e where "rr_outcome (record_session env port directory (init_recorder frequency start_tick)) = ServerNotStarted e"
      "rr_telemetry (record_session env port directory (init_recorder frequency start_tick))
         = Some (session_closed (en_throws env) (en_turns env) (init_telemetry frequency start_tick))"
  | (running) "rr_outcome (record_session env port directory (init_recorder frequency start_tick)) \<in> {StillRunning, ProcessKilled}"
  | (ended) state responses t where
      "serve (en_throws env) (init_telemetry frequency start_tick) (accept_view (en_build env) False (en_events env)) = (responses, gate_error state, t)"
      "rr_outcome (record_session env port directory (init_recorder frequency start_tick))
         = record_outcome_of state (session_closed (en_throws env) (en_turns env) t)"
      "rr_telemetry (record_session env port directory (init_recorder frequency start_tick))
         = Some (session_closed (en_throws env) (en_turns env) t)"
      "state = Returned \<or> (\<exists>e. state = Threw e)"
proof -
  let ?t0 = "init_telemetry frequency start_tick"
  obtain state sv where run: "run_server (en_throws env) (en_start env)
      (construct_server (en_build env) port directory ?t0) (en_events env) = (state, sv)" by fastforce
  have result: "record_session env port directory (init_recorder frequency start_tick) =
      (let t = sv_telemetry sv;
           t' = (case state of Polling \<Rightarrow> t | BlockedOn _ \<Rightarrow> t | BrokenPipe _ \<Rightarrow> t
             | _ \<Rightarrow> session_closed (en_throws env) (en_turns env) t);
           outcome = record_outcome_of state t'
       in \<lparr>rr_outcome = outcome, rr_telemetry = Some t', rr_actions = sv_actions sv,
           rr_lines = printed_lines (sv_actions sv)
             @ (case outcome of RecordFinished \<Rightarrow> [''[PROMATOR] Live events and session flushed.''] | _ \<Rightarrow> [])\<rparr>)"
    using run by (simp add: record_session_def init_telemetry_def Let_def)
  show ?thesis
  proof (cases rule: run_server_view [OF run])
    case (1 e)
    with result show ?thesis by (intro unstarted [of e]) (simp_all add: record_outcome_of_def Let_def)
  next
    case (2 responses)
    show ?thesis
    proof (cases state)
      case Polling
      with result show ?thesis by (intro running) (simp add: record_outcome_of_def Let_def)
    next
      case (BlockedOn c)
      with result show ?thesis by (intro running) (simp add: record_outcome_of_def Let_def)
    next
      case (BrokenPipe c)
      with result show ?thesis by (intro running) (simp add: record_outcome_of_def Let_def)
    next
      case Returned
      with 2 result show ?thesis
        by (intro ended [of responses state "sv_telemetry sv"]) (simp_all add: Let_def)
    next
      case (Threw e)
      with 2 result show ?thesis
        by (intro ended [of responses state "sv_telemetry sv"]) (simp_all add: Let_def)
    next
      case (StartFailed e)
      with 2 show ?thesis by blast
    qed
  qed
qed

lemma outcome_not_started: "record_outcome_of state t = ServerNotStarted e \<Longrightarrow> state = StartFailed e"
  by (cases state; cases "stop_result (tm_pipeline t)"; cases "fst (recorder_stop_joined (tm_recorder t))")
    (simp_all add: record_outcome_of_def)

lemma outcome_has_session:
  assumes "rr_outcome (command_record version edition env argv) = RecordFinished
    \<or> rr_outcome (command_record version edition env argv) = ServerNotStarted e"
  shows "rr_telemetry (command_record version edition env argv) \<noteq> None"
  using assms
  by (auto simp: command_record_def not_recorded_def record_session_def Let_def case_prod_beta
      split: option.splits sum.splits)

lemma not_started_session:
  assumes "rr_outcome (command_record version edition env argv) = ServerNotStarted e" "headers_written (en_disk env)"
  shows "\<exists>frequency start_tick. rr_telemetry (command_record version edition env argv)
    = Some (session_closed (en_throws env) (en_turns env) (init_telemetry frequency start_tick))"
proof -
  have "rr_telemetry (command_record version edition env argv) \<noteq> None"
    using assms(1) by (intro outcome_has_session) simp
  then obtain t' where t': "rr_telemetry (command_record version edition env argv) = Some t'" by auto
  obtain port directory frequency where session:
    "rr_outcome (record_session env port directory (init_recorder frequency (clock_now (en_start_ticks env)))) = ServerNotStarted e"
    "rr_telemetry (record_session env port directory (init_recorder frequency (clock_now (en_start_ticks env)))) = Some t'"
    using command_record_session [OF t' assms(2)] assms(1) by metis
  show ?thesis
  proof (cases rule: record_session_cases [of env port directory frequency "clock_now (en_start_ticks env)"])
    case (unstarted e')
    with session t' show ?thesis by auto
  next
    case (ended state responses t)
    with session have "record_outcome_of state t' = ServerNotStarted e" by simp
    with ended(4) show ?thesis by (auto dest: outcome_not_started)
  qed (use session in simp)
qed

lemma command_record_finished:
  assumes "rr_outcome (command_record version edition env argv) = RecordFinished"
    and "rr_telemetry (command_record version edition env argv) = Some t'" "headers_written (en_disk env)"
  obtains frequency start_tick responses t where
    "serve (en_throws env) (init_telemetry frequency start_tick) (accept_view (en_build env) False (en_events env)) = (responses, None, t)"
    "t' = session_closed (en_throws env) (en_turns env) t"
    "pl_worker_error (tm_pipeline t') = None" "rc_worker_error (tm_recorder t') = None"
proof -
  obtain port directory frequency where session:
    "rr_outcome (record_session env port directory (init_recorder frequency (clock_now (en_start_ticks env)))) = RecordFinished"
    "rr_telemetry (record_session env port directory (init_recorder frequency (clock_now (en_start_ticks env)))) = Some t'"
    using command_record_session [OF assms(2,3)] assms(1) by metis
  show ?thesis
  proof (cases rule: record_session_cases [of env port directory frequency "clock_now (en_start_ticks env)"])
    case (ended state responses t)
    with session have t': "t' = session_closed (en_throws env) (en_turns env) t"
      and out: "record_outcome_of state t' = RecordFinished" by simp_all
    then have "state = Returned" by (simp only: outcome_finished)
    with ended(1) have served: "serve (en_throws env) (init_telemetry frequency (clock_now (en_start_ticks env)))
        (accept_view (en_build env) False (en_events env)) = (responses, None, t)" by simp
    have "\<not> rc_stopped (tm_recorder t)"
      using unstopped_serve [OF unstopped_init, of "en_throws env" frequency "clock_now (en_start_ticks env)"
          "accept_view (en_build env) False (en_events env)"] served
      by (simp add: unstopped_def)
    then have "\<not> rc_stopped (tm_recorder t')"
      by (simp add: t' session_closed_def recorder_loop_stopped recorder_stop_begin_def)
    with out have "pl_worker_error (tm_pipeline t') = None" "rc_worker_error (tm_recorder t') = None"
      unfolding outcome_finished by (blast dest: stop_result_Inr, simp add: recorder_stop_joined_def)
    with served t' show ?thesis by (rule that)
  qed (use session in simp_all)
qed

subsection \<open>From the socket to the analysis\<close>

lemma closed_accepted:
  "rc_accepted (tm_recorder (session_closed throws world t)) = rc_accepted (tm_recorder t)"
  "pl_accepted (tm_pipeline (session_closed throws world t)) = pl_accepted (tm_pipeline t)"
  using recorder_loop_keeps [of world "recorder_stop_begin (tm_recorder t)"]
    worker_loop_keeps [of throws "stop_begin (tm_pipeline t)"]
  by (simp_all add: session_closed_def recorder_stop_begin_def stop_begin_def)

lemma closed_pipeline:
  assumes "pipeline_reachable throws (tm_pipeline t)"
    and "pl_worker_error (tm_pipeline (session_closed throws world t)) = None"
  shows "pl_in_flight (tm_pipeline (session_closed throws world t)) = []"
    and "pl_worker_error (tm_pipeline t) = None"
proof -
  let ?p = "worker_loop throws (stop_begin (tm_pipeline t))"
  have reach: "pipeline_reachable throws (stop_begin (tm_pipeline t))"
    using assms(1) step_stop by (rule rtranclp.rtrancl_into_rtrancl)
  have "pl_stopping (stop_begin (tm_pipeline t))"
    using pipeline_inv_reachable [OF assms(1)] by (auto simp: stop_begin_def pipeline_inv_def)
  then have "pl_worker ?p = WorkerDone"
    using worker_loop_keeps worker_loop_blocked worker_blocked_stopping by blast
  moreover have "pipeline_inv ?p"
    using pipeline_inv_reachable rtranclp_trans [OF reach worker_loop_steps] by blast
  ultimately show "pl_in_flight (tm_pipeline (session_closed throws world t)) = []"
    using assms(2) by (simp add: session_closed_def pipeline_inv_def pl_in_flight_def)
  show "pl_worker_error (tm_pipeline t) = None"
  proof (rule ccontr)
    assume err: "pl_worker_error (tm_pipeline t) \<noteq> None"
    then have "pl_worker_error (stop_begin (tm_pipeline t)) \<noteq> None" by (simp add: stop_begin_def)
    then have "?p = stop_begin (tm_pipeline t)"
      using pipeline_inv_reachable [OF reach] by (rule worker_loop_error_stays)
    with assms(2) err show False by (auto simp: session_closed_def stop_begin_def split: if_splits)
  qed
qed

lemma body_of_stored:
  "map snd (stored_snapshots offset ps) = concat (map body_of_record (map fst ps))"
  by (induction offset ps rule: stored_snapshots.induct) simp_all

lemma bodies_bound:
  assumes "list_all (\<lambda>p. body_of_record p \<noteq> []) ps"
  shows "length ps = length (concat (map body_of_record ps))"
  using assms
proof (induction ps)
  case (Cons p ps)
  then show ?case by (cases p) simp_all
qed simp

lemma in_range_of_body: "body_of_record p \<noteq> [] \<Longrightarrow> record_in_range p"
  by (cases p) simp_all

text \<open>A recorder without an error is flushed by the shutdown, however the loop was left.\<close>

lemma closed_session:
  assumes served: "serve throws (init_telemetry frequency start_tick) es = (responses, err, t)"
    and t': "t' = session_closed throws world t"
    and no_error: "rc_worker_error (tm_recorder t') = None" "\<not> of_bad (rc_timeline (tm_recorder t'))"
    and sizes: "length (recorded_bodies t') < 2 ^ 64" "length (concat (recorded_bodies t')) < 2 ^ 64"
  shows "telemetry_reachable throws frequency start_tick t'"
    and "recorder_ok (tm_recorder t')" "rc_in_flight (tm_recorder t') = []"
    and "list_all record_in_range (rc_accepted (tm_recorder t'))"
    and "length (rc_accepted (tm_recorder t')) < 2 ^ 64"
    and "length (of_contents (rc_raw_stream (tm_recorder t'))) < 2 ^ 64"
proof -
  have reach: "telemetry_reachable throws frequency start_tick t"
    using serve_steps [of throws "init_telemetry frequency start_tick" es] served by simp
  then show reach': "telemetry_reachable throws frequency start_tick t'"
    unfolding t' using session_closed_reached by (rule rtranclp_trans)
  note parts = telemetry_reachable_parts [OF reach] and parts' = telemetry_reachable_parts [OF reach']
  have plain: "unstopped t"
    using unstopped_serve [OF unstopped_init, of throws frequency start_tick es] served by simp
  show ok: "recorder_ok (tm_recorder t')"
    using parts'(1) no_error by (rule recorder_ok_by_flags)
  show flushed: "rc_in_flight (tm_recorder t') = []"
    using recorder_flushed_state(3) [OF parts(1), of world] by (simp add: t' session_closed_def)
  have gsi: "list_all (\<lambda>p. body_of_record p \<noteq> []) (rc_accepted (tm_recorder t'))"
    using plain by (simp add: unstopped_def t' closed_accepted)
  then show "length (rc_accepted (tm_recorder t')) < 2 ^ 64"
    using bodies_bound [OF gsi] sizes(1) by (simp add: recorded_bodies_def)
  have "of_contents (rc_raw_stream (tm_recorder t')) = concat (recorded_bodies t')"
    using flushed_files(1,4) [OF parts'(1) ok flushed]
    by (simp add: session_on_disk_def body_of_stored recorded_bodies_def)
  with sizes(2) show "length (of_contents (rc_raw_stream (tm_recorder t'))) < 2 ^ 64" by simp
  show "list_all record_in_range (rc_accepted (tm_recorder t'))"
    using gsi in_range_of_body by (simp add: list_all_iff)
qed

lemma closed_bodies: "recorded_bodies (session_closed throws world t) = recorded_bodies t"
  by (simp add: recorded_bodies_def closed_accepted)

text \<open>A session that was served and closed without an error.\<close>

lemma served_session_flushed:
  assumes served: "serve throws (init_telemetry frequency start_tick) es = (responses, None, t)"
    and t': "t' = session_closed throws world t"
    and no_error: "pl_worker_error (tm_pipeline t') = None" "rc_worker_error (tm_recorder t') = None"
    and timeline: "\<not> of_bad (rc_timeline (tm_recorder t'))"
    and sizes: "length (posted_bodies es) < 2 ^ 64" "length (concat (posted_bodies es)) < 2 ^ 64"
  shows "telemetry_reachable throws frequency start_tick t'"
    and "recorder_ok (tm_recorder t')" "rc_in_flight (tm_recorder t') = []"
    and "pl_in_flight (tm_pipeline t') = []" "pl_accepted (tm_pipeline t') = recorded_items t'"
    and "list_all record_in_range (rc_accepted (tm_recorder t'))"
    and "length (rc_accepted (tm_recorder t')) < 2 ^ 64"
    and "length (of_contents (rc_raw_stream (tm_recorder t'))) < 2 ^ 64"
    and "recorded_bodies t' = posted_bodies es"
proof -
  show bodies: "recorded_bodies t' = posted_bodies es"
    using server_bodies [OF served]
    by (simp add: t' closed_bodies) (simp add: recorded_bodies_def init_telemetry_def init_recorder_def)
  note closed = closed_session [OF served t' no_error(2) timeline, unfolded bodies, OF sizes]
  show "telemetry_reachable throws frequency start_tick t'"
    and "recorder_ok (tm_recorder t')" "rc_in_flight (tm_recorder t') = []"
    and "list_all record_in_range (rc_accepted (tm_recorder t'))"
    and "length (rc_accepted (tm_recorder t')) < 2 ^ 64"
    and "length (of_contents (rc_raw_stream (tm_recorder t'))) < 2 ^ 64"
    by (rule closed)+
  have reach: "telemetry_reachable throws frequency start_tick t"
    using serve_steps [of throws "init_telemetry frequency start_tick" es] served by simp
  have live: "pl_in_flight (tm_pipeline t') = []" "pl_worker_error (tm_pipeline t) = None"
    using closed_pipeline [OF telemetry_reachable_parts(2) [OF reach]] no_error(1) by (simp_all add: t')
  then show "pl_in_flight (tm_pipeline t') = []" by simp
  have "unstopped t"
    using unstopped_serve [OF unstopped_init, of throws frequency start_tick es] served by simp
  then show "pl_accepted (tm_pipeline t') = recorded_items t'"
    using same_order_reachable [OF reach] live(2)
    by (simp add: same_order_def unstopped_def recorded_items_def t' closed_accepted)
qed

lemma served_session_analyzed:
  assumes "serve throws (init_telemetry frequency start_tick) es = (responses, None, t)"
    and "t' = session_closed throws world t"
    and "pl_worker_error (tm_pipeline t') = None" "rc_worker_error (tm_recorder t') = None"
    and "\<not> of_bad (rc_timeline (tm_recorder t'))"
    and "length (posted_bodies es) < 2 ^ 64" "length (concat (posted_bodies es)) < 2 ^ 64"
  shows "recorded_bodies t' = posted_bodies es
     \<and> (\<exists>an. analyze_session (session_on_disk (tm_recorder t')) = Inr an
          \<and> an_events an = batch_events (pl_calls (tm_pipeline t')))"
  using served_session_flushed [OF assms] replayed_session by blast

lemma closed_at_start:
  "tm_recorder (session_closed throws world (init_telemetry frequency start_tick))
     = (init_recorder frequency start_tick)\<lparr>rc_stopping := True, rc_worker := RecorderDone\<rparr>"
  "tm_pipeline (session_closed throws world (init_telemetry frequency start_tick))
     = init_pipeline\<lparr>pl_stopping := True, pl_worker := WorkerDone\<rparr>"
  by (simp_all add: session_closed_def init_telemetry_def init_recorder_def init_pipeline_def
      recorder_stop_begin_def stop_begin_def recorder_loop.simps worker_loop.simps recorder_turn_def worker_turn_def)

text \<open>
  A server that cannot open its socket, because the port is taken for example, comes after
  the session was made: the command fails, and a session stays behind that \<open>analyze\<close> reads
  without an error and without an event.
\<close>

theorem failed_start_leaves_empty_session:
  assumes "rr_outcome (command_record version edition env argv) = ServerNotStarted e" "headers_written (en_disk env)"
  shows "\<exists>t' an. rr_telemetry (command_record version edition env argv) = Some t'
     \<and> analyze_session (session_on_disk (tm_recorder t')) = Inr an \<and> an_events an = [] \<and> recorded_bodies t' = []"
proof -
  obtain frequency start_tick where
    t': "rr_telemetry (command_record version edition env argv)
      = Some (session_closed (en_throws env) (en_turns env) (init_telemetry frequency start_tick))"
    using not_started_session [OF assms] by blast
  let ?t = "session_closed (en_throws env) (en_turns env) (init_telemetry frequency start_tick)"
  have "recorded_bodies ?t = posted_bodies []
     \<and> (\<exists>an. analyze_session (session_on_disk (tm_recorder ?t)) = Inr an
          \<and> an_events an = batch_events (pl_calls (tm_pipeline ?t)))"
  proof (rule served_session_analyzed [OF _ refl])
    show "serve (en_throws env) (init_telemetry frequency start_tick) [] = ([], None, init_telemetry frequency start_tick)"
      by simp
  qed (simp_all add: closed_at_start init_pipeline_def init_recorder_def opened_def)
  moreover have "batch_events (pl_calls (tm_pipeline ?t)) = []"
    by (simp add: closed_at_start init_pipeline_def batch_events_def)
  ultimately show ?thesis using t' by auto
qed

subsection \<open>A recording\<close>

definition quiet_poll :: poll where
  "quiet_poll = \<lparr>po_ready = 0, po_stop_in_select = False, po_client = invalid_socket, po_stop_in_accept = False,
     po_connection = \<lparr>cn_accepted_tick = 0, cn_chunks = [], cn_body_complete_tick = 0, cn_ack_sent_tick = 0\<rparr>,
     po_peer_waits = False, po_peer_gone = False, po_send_results = []\<rparr>"

definition post_poll :: poll where
  "post_poll = quiet_poll\<lparr>po_ready := 1, po_client := 7, po_send_results := [64],
     po_connection := \<lparr>cn_accepted_tick = 0, cn_chunks = demo_chunks, cn_body_complete_tick = 0, cn_ack_sent_tick = 0\<rparr>\<rparr>"

definition demo_schedule :: "server_event list" where
  "demo_schedule = [Poll quiet_poll, Poll post_poll, PipelineWorks, RecorderWorks demo_turn, StopSignal, Poll quiet_poll]"

definition demo_env :: record_env where
  "demo_env = \<lparr>en_build = PosixBuild, en_clock_queried = True, en_clock_quad = 0, en_start_ticks = 0,
     en_exists = (\<lambda>_. False), en_moments = (\<lambda>_. demo_time), en_disk = good_disk, en_start = good_start,
     en_throws = (\<lambda>_. None), en_turns = (\<lambda>_. demo_turn), en_events = demo_schedule\<rparr>"

definition port_taken :: record_env where
  "port_taken = demo_env\<lparr>en_start := good_start\<lparr>st_bind := -1\<rparr>\<rparr>"

text \<open>A handler that throws at its first call, after which another payload arrives.\<close>

definition match_body :: string where
  "match_body = ''{\"map\":{\"name\":\"m\"}}''"

definition match_poll :: poll where
  "match_poll = post_poll\<lparr>po_connection := \<lparr>cn_accepted_tick = 0,
     cn_chunks = [''POST / HTTP/1.1'' @ crlf @ ''Content-Length: 20'' @ crlf @ crlf @ match_body],
     cn_body_complete_tick = 0, cn_ack_sent_tick = 0\<rparr>\<rparr>"

definition handler_throws :: record_env where
  "handler_throws = demo_env\<lparr>en_throws := (\<lambda>_. Some ''boom''),
     en_events := [Poll match_poll, PipelineWorks, PipelineWorks, Poll match_poll, StopSignal, Poll quiet_poll]\<rparr>"

text \<open>A client that closes early, while a payload of another one is still queued.\<close>

definition early_close :: record_env where
  "early_close = demo_env\<lparr>en_events := [Poll post_poll, Poll gone_poll, StopSignal, Poll quiet_poll]\<rparr>"

definition record_argv :: "string list" where
  "record_argv = [''CSPromator'', ''record'']"

lemma fresh_at_once:
  "\<not> taken (make_session_name (moments 0)) \<Longrightarrow> session_directory taken moments = Some (make_session_name (moments 0))"
  by (simp add: session_directory_def choose_directory.simps)

definition demo_directory :: string where
  "demo_directory = ''sessions/session_20260822_110005''"

text \<open>All three recordings get as far as the server; only the tables of the edition are not evaluated.\<close>

lemma demo_command:
  assumes "env \<in> {demo_env, port_taken, handler_throws}"
  shows "rr_outcome (command_record version edition env record_argv)
      = rr_outcome (record_session env 3010 demo_directory (init_recorder 1000000000 0))"
    and "rr_telemetry (command_record version edition env record_argv)
      = rr_telemetry (record_session env 3010 demo_directory (init_recorder 1000000000 0))"
proof -
  have env: "en_build env = PosixBuild" "en_disk env = good_disk" "en_exists env = (\<lambda>_. False)"
    "en_moments env = (\<lambda>_. demo_time)" "en_start_ticks env = 0"
    using assms by (auto simp: demo_env_def port_taken_def handler_throws_def)
  have args: "record_arguments record_argv = Inr (3010, ''sessions'')" by code_simp
  have name: "path_join PosixBuild ''sessions'' (make_session_name demo_time) = demo_directory" by code_simp
  obtain files where "open_files good_disk (session_application version edition) (clock_info_of PosixBuild 1000000000) 0
      = (files, Inr (init_recorder 1000000000 0))"
    by (simp add: open_files_def good_disk_def of_write_def opened_def init_recorder_def clock_info_of_def Let_def)
  then have "construct_recorder PosixBuild good_disk (\<lambda>_. False) (\<lambda>_. demo_time) ''sessions''
      (session_application version edition) (clock_info_of PosixBuild 1000000000) 0
      = Some (Some demo_directory, files, Inr (init_recorder 1000000000 0))"
    using name by (simp add: construct_recorder_def fresh_at_once) (simp add: good_disk_def)
  then show "rr_outcome (command_record version edition env record_argv)
      = rr_outcome (record_session env 3010 demo_directory (init_recorder 1000000000 0))"
    "rr_telemetry (command_record version edition env record_argv)
      = rr_telemetry (record_session env 3010 demo_directory (init_recorder 1000000000 0))"
    by (simp_all add: command_record_def args env construct_clock_def clock_now_def)
qed

theorem failed_start_leaves_empty_session_witness:
  "\<exists>t' an. rr_telemetry (command_record ''0.0.8'' gsi_edition port_taken record_argv) = Some t'
     \<and> analyze_session (session_on_disk (tm_recorder t')) = Inr an \<and> an_events an = [] \<and> recorded_bodies t' = []"
proof (rule failed_start_leaves_empty_session)
  have "rr_outcome (record_session port_taken 3010 demo_directory (init_recorder 1000000000 0))
      = ServerNotStarted (CannotBind 3010)"
    by code_simp
  then show "rr_outcome (command_record ''0.0.8'' gsi_edition port_taken record_argv) = ServerNotStarted (CannotBind 3010)"
    using demo_command(1) [of port_taken] by simp
  show "headers_written (en_disk port_taken)" by (simp add: port_taken_def demo_env_def)
qed

lemma demo_record:
  "rr_outcome (command_record version edition demo_env record_argv) = RecordFinished"
proof -
  have "rr_outcome (record_session demo_env 3010 demo_directory (init_recorder 1000000000 0)) = RecordFinished"
    by code_simp
  then show ?thesis using demo_command(1) [of demo_env] by simp
qed

definition demo_recorded :: telemetry where
  "demo_recorded = the (rr_telemetry (record_session demo_env 3010 demo_directory (init_recorder 1000000000 0)))"

lemma demo_recorded:
  "rr_telemetry (command_record version edition demo_env record_argv) = Some demo_recorded"
  using outcome_has_session [of version edition demo_env record_argv] demo_record
    demo_command(2) [of demo_env version edition] by (simp add: demo_recorded_def)

text \<open>
  The process dies with what is queued: the payload was acknowledged and numbered, and nothing
  of it is in the files.
\<close>

theorem early_close_loses_queue:
  "(let r = record_session early_close 3010 demo_directory (init_recorder 1000000000 0); t = the (rr_telemetry r)
    in rr_outcome r = ProcessKilled \<and> recorded_bodies t = [''{}''] \<and> of_contents (rc_raw_stream (tm_recorder t)) = [])"
  by code_simp

end
