(* ===== verification/Cli_Facts.thy ===== *)
theory Cli_Facts
  imports Cli Replay_Facts
begin

text \<open>
  What the offline commands promise: the rows that are read back, the tallies of \<open>analyze\<close> and its
  exit code.
\<close>

subsection \<open>The merged stream\<close>

lemma stream_cases:
  assumes "load_replay_stream files = Inr stream"
  obtains gsi supplementary where "load_timeline files = Inr gsi"
    "load_supplementary_timeline files = Inr supplementary"
    "stream = sort_key replay_key (map gsi_item gsi @ map supplementary_item supplementary)"
  using assms by (auto simp: load_replay_stream_def rbind_Inr)

text \<open>A session of schema v2 with a row for each of two payloads.\<close>

definition v2_row :: "u64 \<Rightarrow> string" where
  "v2_row q = join_tsv (map u64_to_string [q, 1, 1, 1, 1, 5 * q, 0, 2])"

definition v2_session :: session_files where
  "v2_session = \<lparr>
     sf_timeline = Some (join_tsv [''sequence'', ''accepted_tick'', ''body_complete_tick'', ''ack_sent_tick'',
       ''persist_complete_tick'', ''relative_us'', ''body_offset'', ''body_bytes''] @ [newline]
       @ v2_row 2 @ [newline] @ v2_row 1 @ [newline]),
     sf_supplementary = None, sf_raw_gsi = Some ''{}'', sf_raw_directory = (\<lambda>_. None)\<rparr>"

definition v2_stream :: "replay_item list" where
  "v2_stream = projr (load_replay_stream v2_session)"

lemma v2_stream: "load_replay_stream v2_session = Inr v2_stream"
proof -
  have "isl (load_replay_stream v2_session) = False" by code_simp
  then show ?thesis by (simp add: v2_stream_def)
qed

subsection \<open>Rows\<close>

text \<open>
  The rows that the recorder writes are read back by the loader field by field: a timeline
  row gives the very record, a supplementary row the record with the source marked as
  \<open>Replay\<close> and the recorded source kept aside.
\<close>

theorem rows_read_back:
  assumes "sr_body_filename rec = []"
    and "counts_in_range (sn_teams (su_snapshot obs))" "valid_team_counts (sn_teams (su_snapshot obs))"
  shows "parse_timeline_row True True (timeline_row rec) = Inr \<lparr>re_record = rec, re_packed_v2 = True\<rparr>
     \<and> parse_supplementary_row (supplementary_row obs) = Inr
         \<lparr>se_record = obs\<lparr>su_snapshot := (su_snapshot obs)\<lparr>sn_source := Replay\<rparr>\<rparr>,
          se_recorded_source = sn_source (su_snapshot obs)\<rparr>"
  using parse_timeline_row_written [OF assms(1)] parse_supplementary_row_written [OF assms(2,3)]
  by (simp add: replayed_def)

definition demo_observation :: supplementary_record where
  "demo_observation = \<lparr>su_ingress_order = 4, su_persist_complete_tick = 6, su_snapshot = demo_snapshot\<rparr>"

theorem rows_read_back_witness:
  "parse_supplementary_row (supplementary_row demo_observation) = Inr
     \<lparr>se_record = demo_observation\<lparr>su_snapshot := demo_snapshot\<lparr>sn_source := Replay\<rparr>\<rparr>,
      se_recorded_source = PanoramaVisibleState\<rparr>"
  using rows_read_back [of empty_snapshot_record demo_observation]
  by (simp add: empty_snapshot_record_def demo_observation_def demo_snapshot_def counts_in_range_def
      in_i32_def valid_team_counts_def)

lemma parse_fields_without_order:
  "parse_timeline_fields packed cols None = Inr rec \<Longrightarrow> sr_ingress_order rec = sr_sequence rec"
  by (auto simp: parse_timeline_fields_def rbind_Inr value_or_def Let_def split: if_splits)

lemma parse_row_format:
  assumes "parse_timeline_row packed has_order line = Inr entry"
  shows "re_packed_v2 entry = packed"
    "\<not> has_order \<Longrightarrow> sr_ingress_order (re_record entry) = sr_sequence (re_record entry)"
  using assms
  by (auto simp: parse_timeline_row_def Let_def rbind_Inr split: if_splits dest: parse_fields_without_order)

lemma map_result_set: "map_result f xs = Inr ys \<Longrightarrow> y \<in> set ys \<Longrightarrow> \<exists>x\<in>set xs. f x = Inr y"
  by (induction xs arbitrary: ys) (auto simp: rbind_Inr)

text \<open>
  Sessions of the older schemas stay readable in their order: when the header of the
  timeline does not begin with the ingress order, every entry is ordered by its sequence
  number, and the header alone decides where the bodies are looked for.
\<close>

theorem older_sessions_ordered_by_sequence:
  assumes "load_timeline files = Inr entries" "sf_timeline files = Some text"
    and "\<not> has_ingress_order (read_header text)" "entry \<in> set entries"
  shows "sr_ingress_order (re_record entry) = sr_sequence (re_record entry)
     \<and> re_packed_v2 entry = is_packed_v2 (read_header text)"
proof -
  have "map_result (parse_timeline_row (is_packed_v2 (read_header text)) False) (read_rows text) = Inr entries"
    using assms(1-3) by (simp add: load_timeline_def Let_def)
  from map_result_set [OF this assms(4)] show ?thesis using parse_row_format by blast
qed

theorem older_sessions_ordered_by_sequence_witness:
  "\<exists>entry. entry \<in> set (projr (load_timeline v2_session))
     \<and> sr_ingress_order (re_record entry) = sr_sequence (re_record entry)"
proof -
  obtain gsi where gsi: "load_timeline v2_session = Inr gsi" using v2_stream by (rule stream_cases)
  have "length (projr (load_timeline v2_session)) = 2" by code_simp
  then have "gsi \<noteq> []" by (auto simp: gsi)
  then have mem: "hd gsi \<in> set gsi" by simp
  have "\<not> has_ingress_order (read_header (the (sf_timeline v2_session)))" by code_simp
  moreover have "sf_timeline v2_session = Some (the (sf_timeline v2_session))" by (simp add: v2_session_def)
  ultimately have "sr_ingress_order (re_record (hd gsi)) = sr_sequence (re_record (hd gsi))"
    using older_sessions_ordered_by_sequence [OF gsi _ _ mem] by blast
  with mem gsi show ?thesis by auto
qed

subsection \<open>analyze\<close>

definition invalid_item :: "session_files \<Rightarrow> replay_item \<Rightarrow> bool" where
  "invalid_item files item =
     (case ri_payload item of
        ReplayGsi entry \<Rightarrow>
          (case load_replay_body files entry of
             Inr body \<Rightarrow> (case parse_json body of Some (JObject _) \<Rightarrow> False | _ \<Rightarrow> True)
           | Inl _ \<Rightarrow> False)
      | ReplaySupplementary _ \<Rightarrow> False)"

lemma payload_valid_json:
  "gs_payload_valid (normalize_gsi body q t) \<longleftrightarrow> (case parse_json body of Some (JObject _) \<Rightarrow> True | _ \<Rightarrow> False)"
  by (auto simp: normalize_gsi_valid_iff split: option.splits json.splits)

lemma analyze_loop_invalid:
  "analyze_loop files an items = Inr an' \<Longrightarrow>
   an_invalid_payloads an' = an_invalid_payloads an + length (filter (invalid_item files) items)"
proof (induction files an items rule: analyze_loop.induct)
  case (2 files an item items)
  from "2.prems" obtain an1 where an1: "analyze_item files an item = Inr an1"
    and rest: "analyze_loop files an1 items = Inr an'" by (auto simp: rbind_Inr)
  have "an_invalid_payloads an1 = an_invalid_payloads an + (if invalid_item files item then 1 else 0)"
  proof (cases "ri_payload item")
    case (ReplayGsi entry)
    with an1 obtain body where "load_replay_body files entry = Inr body"
      "an1 = analyze_gsi an entry body" by (auto simp: analyze_item_def rbind_Inr)
    with ReplayGsi show ?thesis
      by (simp add: invalid_item_def analyze_gsi_def count_events_def Let_def case_prod_beta payload_valid_json
          split: option.splits json.splits)
  next
    case (ReplaySupplementary entry)
    with an1 show ?thesis
      by (auto simp: analyze_item_def analyze_supplementary_def invalid_item_def count_events_def Let_def
          case_prod_beta)
  qed
  with "2.IH" [OF rest] show ?case by simp
qed simp

lemma tally_gsi: "length (filter (\<lambda>i. \<exists>e. ri_payload i = ReplayGsi e) items) = length (filter is_gsi_item items)"
  by (rule arg_cong [of _ _ length], rule filter_cong) (auto simp: is_gsi_item_def split: replay_payload.splits)

lemma tally_supplementary:
  "length (filter (\<lambda>i. \<exists>e. ri_payload i = ReplaySupplementary e) items)
   = length (filter (\<lambda>i. \<not> is_gsi_item i) items)"
  by (rule arg_cong [of _ _ length], rule filter_cong) (auto simp: is_gsi_item_def split: replay_payload.splits)

text \<open>
  C30: The numbers that \<open>analyze\<close> prints are right: every observation is counted as what it is,
  a payload as invalid exactly if it is no JSON object, each type of event as often as it
  occurs, the types are listed in the order of the enumeration, and the exit code is 0 exactly
  if no payload was invalid and 3 otherwise.
\<close>

theorem analyze_counts_everything:
  assumes "analyze_session files = Inr an" "load_replay_stream files = Inr stream"
  shows "an_gsi_snapshots an = length (filter is_gsi_item stream)
     \<and> an_supplementary_snapshots an = length (filter (\<lambda>i. \<not> is_gsi_item i) stream)
     \<and> an_invalid_payloads an = length (filter (invalid_item files) stream)
     \<and> (\<forall>ty. an_counts an ty = length (of_type ty (an_events an)))
     \<and> analyze_exit an = (if list_ex (invalid_item files) stream then 3 else 0)
     \<and> (\<exists>lines. an_lines an = lines
          @ SummaryLine (length stream) (an_gsi_snapshots an) (an_supplementary_snapshots an) (an_invalid_payloads an)
          # map (\<lambda>ty. CountLine (event_type_to_string ty) (an_counts an ty))
              (sorted_list_of_set {ty. an_counts an ty \<noteq> 0}))"
proof -
  obtain an0 where loop: "analyze_loop files init_analysis stream = Inr an0"
    and an: "an = an0\<lparr>an_lines := an_lines an0 @ analyze_summary (length stream) an0\<rparr>"
    using assms by (auto simp: analyze_session_def rbind_Inr)
  have "counts_agree init_analysis" by (simp add: counts_agree_def init_analysis_def)
  with loop have counts: "counts_agree an0" by (rule analyze_loop_counts)
  have "an_invalid_payloads an = length (filter (invalid_item files) stream)"
    using analyze_loop_invalid [OF loop] by (simp add: an init_analysis_def)
  moreover from this have "analyze_exit an = (if list_ex (invalid_item files) stream then 3 else 0)"
    by (auto simp: analyze_exit_def list_ex_iff filter_empty_conv)
  moreover have "an_lines an = an_lines an0
      @ SummaryLine (length stream) (an_gsi_snapshots an) (an_supplementary_snapshots an) (an_invalid_payloads an)
      # map (\<lambda>ty. CountLine (event_type_to_string ty) (an_counts an ty))
          (sorted_list_of_set {ty. an_counts an ty \<noteq> 0})"
    using printed_types [of "an_counts an0"] by (simp add: an analyze_summary_def)
  ultimately show ?thesis
    using analyze_loop_tally [OF loop] counts
    by (simp add: an init_analysis_def tally_gsi tally_supplementary counts_agree_def)
qed

theorem analyze_counts_everything_witness:
  "analyze_exit (projr (analyze_session v2_session)) = 0
   \<and> an_gsi_snapshots (projr (analyze_session v2_session)) = 2"
proof -
  have "isl (analyze_session v2_session) = False" by code_simp
  then obtain an where an: "analyze_session v2_session = Inr an"
    by (cases "analyze_session v2_session") auto
  have "length (filter is_gsi_item v2_stream) = 2" "\<not> list_ex (invalid_item v2_session) v2_stream"
    by code_simp+
  with analyze_counts_everything [OF an v2_stream] show ?thesis by (simp add: an)
qed

end
