(* ===== verification/Program.thy ===== *)
theory Program
  imports Record_Command Cli_Facts
begin

text \<open>
  The program as a whole (\<open>src/main.cpp\<close>): the text of every line, \<open>main\<close> with its exit codes, and
  the signal handler with the life of the object it refers to.
\<close>

subsection \<open>The text of the lines\<close>

fun analyze_line_text :: "analyze_line \<Rightarrow> string" where
  "analyze_line_text (BatchGsiLine sequence order us lifecycle) =
     ''[BATCH GSI] #'' @ u64_to_string sequence @ '' order='' @ u64_to_string order
       @ '' t+'' @ show_ms us @ '' ms'' @ '' lifecycle='' @ lifecycle @ [newline]"
| "analyze_line_text (BatchSupplementLine sequence order us source) =
     ''[BATCH SUPPLEMENT] #'' @ u64_to_string sequence @ '' order='' @ u64_to_string order
       @ '' t+'' @ show_ms us @ '' ms'' @ '' recorded-source='' @ source @ [newline]"
| "analyze_line_text (EventLine description) = ''  '' @ description @ [newline]"
| "analyze_line_text (SummaryLine observations gsi supplementary invalid) =
     [newline] @ ''[ANALYZE] observations='' @ nat_to_string observations @ '' gsi='' @ nat_to_string gsi
       @ '' supplementary='' @ nat_to_string supplementary @ '' invalid='' @ nat_to_string invalid @ [newline]"
| "analyze_line_text (CountLine name n) = ''  '' @ name @ ''='' @ nat_to_string n @ [newline]"

fun replay_line_text :: "replay_line \<Rightarrow> string" where
  "replay_line_text NoObservations = ''[REPLAY] No recorded observations.'' @ [newline]"
| "replay_line_text (ReplayHeader observations gsi supplementary speed) =
     ''[REPLAY] observations='' @ nat_to_string observations @ '' gsi='' @ nat_to_string gsi
       @ '' supplementary='' @ nat_to_string supplementary @ '' speed='' @ show_double_value speed @ ''x'' @ [newline]"
| "replay_line_text (SleepFor us) = []"
| "replay_line_text (ReplayGsiLine sequence order us bytes) =
     ''[REPLAY GSI] #'' @ u64_to_string sequence @ '' order='' @ u64_to_string order
       @ '' t+'' @ show_ms us @ '' ms'' @ '' bytes='' @ u64_to_string bytes @ [newline]"
| "replay_line_text (DumpedBody body) = body @ [newline]"
| "replay_line_text (ReplaySupplementLine sequence order us source ct_alive ct_total t_alive t_total revision) =
     ''[REPLAY SUPPLEMENT] #'' @ u64_to_string sequence @ '' order='' @ u64_to_string order
       @ '' t+'' @ show_ms us @ '' ms'' @ '' recorded-source='' @ source
       @ '' CT='' @ ct_alive @ ''/'' @ ct_total @ '' T='' @ t_alive @ ''/'' @ t_total
       @ (case revision of None \<Rightarrow> [] | Some r \<Rightarrow> '' roster-revision='' @ u64_to_string r) @ [newline]"

definition text_of_lines :: "string list \<Rightarrow> string" where
  "text_of_lines lines = concat (map (\<lambda>l. l @ [newline]) lines)"

subsection \<open>analyze, with what it printed before an exception\<close>

fun analyze_until ::
  "session_files \<Rightarrow> analysis \<Rightarrow> replay_item list \<Rightarrow> analysis \<times> session_error option" where
  "analyze_until files an [] = (an, None)"
| "analyze_until files an (item # items) =
     (case analyze_item files an item of
        Inl e \<Rightarrow> (an, Some e)
      | Inr an' \<Rightarrow> analyze_until files an' items)"

definition analyze_text :: "analyze_line list \<Rightarrow> string" where
  "analyze_text lines = concat (map analyze_line_text lines)"

definition command_analyze :: "(string \<Rightarrow> session_files) \<Rightarrow> string list \<Rightarrow> string \<times> (cli_error + int)" where
  "command_analyze session_at argv =
     (if length argv < 3 then ([], Inl MissingSession)
      else
        (let files = session_at (argv ! 2) in
         case load_replay_stream files of
           Inl e \<Rightarrow> ([], Inl (SessionFailure e))
         | Inr stream \<Rightarrow>
             (case analyze_until files init_analysis stream of
                (an, Some e) \<Rightarrow> (analyze_text (an_lines an), Inl (SessionFailure e))
              | (an, None) \<Rightarrow>
                  (analyze_text (an_lines an @ analyze_summary (length stream) an), Inr (analyze_exit an)))))"

lemma analyze_loop_until:
  "analyze_loop files an items =
     (case analyze_until files an items of (an', None) \<Rightarrow> Inr an' | (an', Some e) \<Rightarrow> Inl e)"
proof (induction files an items rule: analyze_until.induct)
  case (2 files an item items)
  then show ?case by (cases "analyze_item files an item") simp_all
qed simp

text \<open>The exit code of \<open>analyze\<close> is that of the analysis of the session.\<close>

lemma command_analyze_result:
  "snd (command_analyze session_at argv) =
     (if length argv < 3 then Inl MissingSession
      else (case analyze_session (session_at (argv ! 2)) of
              Inl e \<Rightarrow> Inl (SessionFailure e)
            | Inr an \<Rightarrow> Inr (analyze_exit an)))"
  by (auto simp: command_analyze_def analyze_session_def analyze_loop_until rbind_def analyze_exit_def Let_def
      split: sum.splits prod.splits option.splits)

subsection \<open>main\<close>

definition application_version :: string where
  "application_version = ''0.0.8''"

text \<open>
  What \<open>main\<close> depends on: the edition it was built as, the recording's surroundings, the tick that
  \<open>clock\<close> shows, the sessions on disk, and \<open>std::stod\<close>.
\<close>

record main_env =
  mn_kind :: edition_kind
  mn_record :: record_env
  mn_ticks :: int
  mn_session_at :: "string \<Rightarrow> session_files"
  mn_stod :: "string \<Rightarrow> session_error + double_value"

definition current_edition :: "main_env \<Rightarrow> edition_descriptor" where
  "current_edition env = edition_of_kind (mn_kind env)"

text \<open>
  The standard output (without the lines of the handler, which another thread writes) and the
  exit code, \<open>None\<close> while the process runs on or when a signal kills it. Every exception ends in the handler of \<open>main\<close>.
\<close>

definition command_clock :: "main_env \<Rightarrow> string \<times> int option" where
  "command_clock env =
     (let r = mn_record env in
      case construct_clock (en_build r) (en_clock_queried r) (en_clock_quad r) of
        Inl _ \<Rightarrow> ([], Some 2)
      | Inr frequency \<Rightarrow>
          (text_of_lines (clock_lines (clock_info_of (en_build r) frequency) (clock_now (mn_ticks env))), Some 0))"

definition exit_of :: "cli_error + int \<Rightarrow> int option" where
  "exit_of result = (case result of Inl _ \<Rightarrow> Some 2 | Inr code \<Rightarrow> Some code)"

definition main_program :: "main_env \<Rightarrow> string list \<Rightarrow> string \<times> int option" where
  "main_program env argv =
     (case select_command argv of
        UsageCommand code \<Rightarrow> (text_of_lines (usage_lines application_version (current_edition env)), Some code)
      | StatusCommand \<Rightarrow> (text_of_lines (status_lines application_version (current_edition env)), Some 0)
      | RecordCommand \<Rightarrow>
          (let r = command_record application_version (current_edition env) (mn_record env) argv
           in (text_of_lines (rr_lines r), record_exit (rr_outcome r)))
      | ReplayCommand \<Rightarrow>
          (let (lines, result) = command_replay (mn_stod env) (mn_session_at env) argv
           in (concat (map replay_line_text lines), exit_of result))
      | AnalyzeCommand \<Rightarrow>
          (let (text, result) = command_analyze (mn_session_at env) argv in (text, exit_of result))
      | ClockCommand \<Rightarrow> command_clock env)"

lemma replay_exit: "snd (command_replay stod session_at argv) = Inr code \<Longrightarrow> code = 0"
  by (auto simp: command_replay_def Let_def split: if_splits sum.splits prod.splits option.splits)

lemma record_exit_cases: "record_exit outcome \<in> {None, Some 0, Some 2}"
  by (cases outcome) (simp_all add: record_exit_def)

text \<open>
  C31: What the exit code tells: 1 exactly for an unknown command, 3 exactly for an analysis that
  found a payload that is no JSON object, none exactly while \<open>record\<close> runs on (in the loop, in
  \<open>recv\<close>, or in a search for a name that never ends) or was killed by a broken pipe, and 0 or 2 in all other cases.
\<close>

theorem exit_code_meaning:
  "let code = snd (main_program env argv) in
     (code = Some 1 \<longleftrightarrow> select_command argv = UsageCommand 1)
     \<and> (code = Some 3 \<longleftrightarrow> select_command argv = AnalyzeCommand \<and> 3 \<le> length argv
          \<and> (\<exists>an. analyze_session (mn_session_at env (argv ! 2)) = Inr an \<and> an_invalid_payloads an \<noteq> 0))
     \<and> (code = None \<longleftrightarrow> select_command argv = RecordCommand
          \<and> rr_outcome (command_record application_version (current_edition env) (mn_record env) argv)
              \<in> {StillRunning, SearchUnending, ProcessKilled})
     \<and> code \<in> {None, Some 0, Some 1, Some 2, Some 3}"
proof -
  define code where "code = snd (main_program env argv)"
  have usage: "select_command argv = UsageCommand c \<Longrightarrow> c \<in> {0, 1}" for c
    by (auto simp: select_command_def split: if_splits)
  have clock: "snd (command_clock env) \<in> {Some 0, Some 2}"
    by (simp add: command_clock_def Let_def split: sum.split)
  have "(code = Some 1 \<longleftrightarrow> select_command argv = UsageCommand 1)
     \<and> (code = Some 3 \<longleftrightarrow> select_command argv = AnalyzeCommand \<and> 3 \<le> length argv
          \<and> (\<exists>an. analyze_session (mn_session_at env (argv ! 2)) = Inr an \<and> an_invalid_payloads an \<noteq> 0))
     \<and> (code = None \<longleftrightarrow> select_command argv = RecordCommand
          \<and> rr_outcome (command_record application_version (current_edition env) (mn_record env) argv)
              \<in> {StillRunning, SearchUnending, ProcessKilled})
     \<and> code \<in> {None, Some 0, Some 1, Some 2, Some 3}"
  proof (cases "select_command argv")
    case (UsageCommand c)
    with usage [of c] show ?thesis by (auto simp: code_def main_program_def)
  next
    case StatusCommand
    then show ?thesis by (simp add: code_def main_program_def)
  next
    case RecordCommand
    let ?outcome = "rr_outcome (command_record application_version (current_edition env) (mn_record env) argv)"
    have "code = record_exit ?outcome" using RecordCommand by (simp add: code_def main_program_def Let_def)
    moreover have "record_exit ?outcome = None \<longleftrightarrow> ?outcome \<in> {StillRunning, SearchUnending, ProcessKilled}"
      by (cases ?outcome) (simp_all add: record_exit_def)
    ultimately show ?thesis using RecordCommand record_exit_cases [of ?outcome] by auto
  next
    case ReplayCommand
    have "code = exit_of (snd (command_replay (mn_stod env) (mn_session_at env) argv))"
      using ReplayCommand by (simp add: code_def main_program_def case_prod_beta)
    moreover have "exit_of (snd (command_replay (mn_stod env) (mn_session_at env) argv)) \<in> {Some 0, Some 2}"
      using replay_exit [of "mn_stod env" "mn_session_at env" argv]
      by (cases "snd (command_replay (mn_stod env) (mn_session_at env) argv)") (simp_all add: exit_of_def)
    ultimately show ?thesis using ReplayCommand by auto
  next
    case AnalyzeCommand
    have "code = exit_of (snd (command_analyze (mn_session_at env) argv))"
      using AnalyzeCommand by (simp add: code_def main_program_def case_prod_beta)
    with AnalyzeCommand show ?thesis
      by (auto simp: command_analyze_result exit_of_def analyze_exit_def split: sum.splits)
  next
    case ClockCommand
    with clock show ?thesis by (auto simp: code_def main_program_def)
  qed
  then show ?thesis by (simp only: code_def Let_def)
qed

subsection \<open>Signals and the server object\<close>

text \<open>
  The handler reads a global pointer. \<open>command_record\<close> sets it to a local object, installs the
  handler, runs the server and undoes both; an exception of \<open>run\<close> skips the undoing, and the
  object is destroyed before the workers are joined.
\<close>

record signal_state =
  sg_server_alive :: bool
  sg_pointer_set :: bool
  sg_installed :: bool

datatype lifecycle_step =
    ConstructServer
  | SetPointer
  | InstallHandlers
  | RunServer
  | ClearPointer
  | RestoreHandlers
  | JoinWorkers
  | DestroyServer

fun lifecycle :: "lifecycle_step \<Rightarrow> signal_state \<Rightarrow> signal_state" where
  "lifecycle ConstructServer s = s\<lparr>sg_server_alive := True\<rparr>"
| "lifecycle SetPointer s = s\<lparr>sg_pointer_set := True\<rparr>"
| "lifecycle InstallHandlers s = s\<lparr>sg_installed := True\<rparr>"
| "lifecycle RunServer s = s"
| "lifecycle ClearPointer s = s\<lparr>sg_pointer_set := False\<rparr>"
| "lifecycle RestoreHandlers s = s\<lparr>sg_installed := False\<rparr>"
| "lifecycle JoinWorkers s = s"
| "lifecycle DestroyServer s = s\<lparr>sg_server_alive := False\<rparr>"

text \<open>What the command goes through from the construction of the server, by its outcome.\<close>

definition record_steps :: "run_state \<Rightarrow> lifecycle_step list" where
  "record_steps state =
     [ConstructServer, SetPointer, InstallHandlers, RunServer]
     @ (case state of
          Polling \<Rightarrow> []
        | BlockedOn _ \<Rightarrow> []
        | BrokenPipe _ \<Rightarrow> []
        | Returned \<Rightarrow> [ClearPointer, RestoreHandlers, JoinWorkers, DestroyServer]
        | _ \<Rightarrow> [DestroyServer, JoinWorkers])"

fun states_along :: "signal_state \<Rightarrow> lifecycle_step list \<Rightarrow> signal_state list" where
  "states_along s [] = [s]"
| "states_along s (step # steps) = s # states_along (lifecycle step s) steps"

datatype signal_effect = DefaultAction | NoEffect | StopIsRequested | DeadObjectUsed

definition handle_signal :: "signal_state \<Rightarrow> signal_effect" where
  "handle_signal s =
     (if \<not> sg_installed s then DefaultAction
      else if \<not> sg_pointer_set s then NoEffect
      else if sg_server_alive s then StopIsRequested
      else DeadObjectUsed)"

definition no_signals :: signal_state where
  "no_signals = \<lparr>sg_server_alive = False, sg_pointer_set = False, sg_installed = False\<rparr>"

text \<open>
  A signal never reaches a dead server if \<open>run\<close> returns or has not ended, at whatever point of
  the command it arrives; but when \<open>run\<close> throws (the port is taken, or the gate refuses an
  observation) there is a point at which it does: the server is gone, the pointer is still set and the workers are
  being joined.
\<close>

theorem signal_reaches_dead_server:
  "DeadObjectUsed \<in> handle_signal ` set (states_along no_signals (record_steps state))
     \<longleftrightarrow> gate_error state \<noteq> None \<or> (\<exists>e. state = StartFailed e)"
  by (cases state) (auto simp: record_steps_def no_signals_def handle_signal_def)

end
