(* ===== verification/Record_Total.thy ===== *)
theory Record_Total
  imports Program
begin

text \<open>
  Total correctness of \<open>record\<close>: when nothing outside the program fails, a stop request brings the
  process to its regular end, with exit code 0, for every schedule. The invariant of the proof
  is that the two shared objects are open and without an error.
\<close>

subsection \<open>Nothing outside fails\<close>

definition disk_works :: "disk_results \<Rightarrow> bool" where
  "disk_works dr \<longleftrightarrow> dr_root_made dr \<and> dr_directory_made dr \<and> dr_metadata_opens dr \<and> dr_timeline_opens dr
     \<and> dr_supplementary_opens dr \<and> dr_raw_opens dr \<and> dr_thread_starts dr \<and> headers_written dr"

definition sockets_work :: "start_results \<Rightarrow> bool" where
  "sockets_work st \<longleftrightarrow> st_runtime st = 0 \<and> st_socket st \<noteq> invalid_socket \<and> st_bind st = 0 \<and> st_listen st = 0"

text \<open>Every write of the worker succeeds, and no client stays silent or closes before its answer.\<close>

fun calm_event :: "server_event \<Rightarrow> bool" where
  "calm_event StopSignal = True"
| "calm_event (Poll po) = (\<not> po_peer_waits po \<and> \<not> po_peer_gone po)"
| "calm_event (RecorderWorks ti) = writes_succeed ti"
| "calm_event PipelineWorks = True"

subsection \<open>Both objects stay open\<close>

definition healthy :: "telemetry \<Rightarrow> bool" where
  "healthy t \<longleftrightarrow>
     recorder_ok (tm_recorder t) \<and> \<not> rc_stopping (tm_recorder t) \<and> \<not> rc_stopped (tm_recorder t)
     \<and> pl_worker_error (tm_pipeline t) = None \<and> \<not> pl_stopping (tm_pipeline t) \<and> \<not> pl_stopped (tm_pipeline t)"

lemma healthy_init: "healthy (init_telemetry frequency start_tick)"
  by (simp add: healthy_def init_telemetry_def init_pipeline_def init_recorder_def recorder_ok_def opened_def)

lemma healthy_recorder_works:
  assumes "healthy t" "writes_succeed ti"
  shows "healthy (recorder_works_on ti t)"
proof -
  have "recorder_ok r \<and> \<not> rc_stopping r \<and> \<not> rc_stopped r" if turn: "recorder_turn ti (tm_recorder t) = Some r" for r
  proof -
    have ok: "recorder_ok r"
      using recorder_turn_ok [OF turn] assms by (simp add: healthy_def)
    from turn show ?thesis
    proof (cases rule: recorder_turn_cases)
      case (failed pending e r1)
      with ok show ?thesis by (simp add: recorder_ok_def)
    qed (use ok assms(1) in \<open>auto simp: healthy_def persist_frame\<close>)
  qed
  with assms(1) show ?thesis
    by (auto simp: healthy_def recorder_works_on_def split: option.splits)
qed

lemma healthy_pipeline_works:
  assumes "healthy t" "\<And>b. throws b = None"
  shows "healthy (pipeline_works_on throws t)"
proof -
  have "pl_worker_error p = None \<and> \<not> pl_stopping p \<and> \<not> pl_stopped p"
    if "worker_turn throws (tm_pipeline t) = Some p" for p
    using that
  proof (cases rule: worker_turn_cases)
    case (fail item what whats)
    with assms(2) show ?thesis by (simp add: map_filter_def)
  qed (use assms(1) in \<open>auto simp: healthy_def\<close>)
  with assms(1) show ?thesis
    by (auto simp: healthy_def pipeline_works_on_def split: option.splits)
qed

text \<open>The gate refuses nothing.\<close>

lemma healthy_ingress:
  assumes "healthy t"
  obtains rec t' where "ingress_gsi t a b k body = (Inr rec, t')" "healthy t'"
proof -
  let ?p = "tm_pipeline t"
  obtain rec r where r: "enqueue_snapshot (tm_recorder t) a b k body = Inr (rec, r)"
    using assms by (simp add: enqueue_snapshot_def healthy_def recorder_ok_def Let_def)
  note frame = enqueue_snapshot_Inr [OF r]
  have p: "enqueue ?p (sr_sequence rec) (sr_relative_us rec) body = Inr (?p\<lparr>
      pl_queue := pl_queue ?p @ [live_item (RecordSnapshot rec body)],
      pl_accepted := pl_accepted ?p @ [live_item (RecordSnapshot rec body)]\<rparr>)"
    using assms by (simp add: enqueue_def push_item_def healthy_def)
  show ?thesis
    by (rule that) (simp add: ingress_gsi_def r p Let_def, use assms frame in \<open>simp add: healthy_def recorder_ok_def\<close>)
qed

lemma healthy_gate:
  "healthy t \<Longrightarrow> fst (ingress_gsi t a b k body) \<noteq> Inl e \<and> healthy (snd (ingress_gsi t a b k body))"
  by (erule healthy_ingress [where a = a and b = b and k = k and body = body]) simp

lemma healthy_connection:
  assumes "healthy t" "serve_connection t cn = (response, result, t')"
  shows "result \<noteq> Some (Inl e)" "healthy t'"
  using assms healthy_gate [OF assms(1)]
  by (auto simp: serve_connection_def Let_def case_prod_beta split: option.splits if_splits)

subsection \<open>The run\<close>

lemma serve_client_calm:
  assumes "healthy (sv_telemetry sv)" "\<not> po_peer_waits po" "\<not> po_peer_gone po" "serve_client sv po = (outcome, sv')"
  shows "outcome = Polling" "healthy (sv_telemetry sv')"
proof -
  have "outcome = Polling \<and> healthy (sv_telemetry sv')"
  proof (cases rule: serve_client_cases [of sv po])
    case (failed e t body)
    with healthy_connection(1) [OF assms(1)] show ?thesis by blast
  next
    case (queued rec t body)
    with healthy_connection(2) [OF assms(1) queued(2)] assms(4) show ?thesis by auto
  qed (use assms in \<open>auto simp: broken_pipe_def\<close>)
  then show "outcome = Polling" "healthy (sv_telemetry sv')" by simp_all
qed

lemma poll_turn_calm:
  assumes "healthy (sv_telemetry sv)" "\<not> po_peer_waits po" "\<not> po_peer_gone po" "poll_turn sv po = (outcome, sv')"
  shows "outcome \<in> {Polling, Returned}" "healthy (sv_telemetry sv')"
proof -
  have "outcome \<in> {Polling, Returned} \<and> healthy (sv_telemetry sv')"
  proof (cases rule: poll_turn_cases [of sv po])
    case (left sv1)
    with assms(1,4) leave_loop_fields [of sv1] show ?thesis by simp
  next
    case (quiet sv1)
    with assms(1,4) show ?thesis by simp
  next
    case (client sv1)
    with assms serve_client_calm [of sv1 po outcome sv'] show ?thesis by simp
  qed
  then show "outcome \<in> {Polling, Returned}" "healthy (sv_telemetry sv')" by simp_all
qed

lemma run_loop_calm:
  assumes "healthy (sv_telemetry sv)" "list_all calm_event es" "\<And>b. throws b = None"
    and "run_loop throws sv es = (outcome, sv')"
  shows "outcome \<in> {Polling, Returned} \<and> healthy (sv_telemetry sv')"
  using assms
proof (induction throws sv es rule: run_loop.induct)
  case (5 throws sv po es)
  obtain turn sv1 where turn: "poll_turn sv po = (turn, sv1)" by fastforce
  have calm: "\<not> po_peer_waits po" "\<not> po_peer_gone po" using "5.prems"(2) by simp_all
  note one = poll_turn_calm [OF "5.prems"(1) calm turn]
  show ?case
  proof (cases "turn = Polling")
    case True
    with "5.IH" [of turn sv1] turn one "5.prems" show ?thesis by simp
  next
    case False
    with one turn "5.prems"(4) show ?thesis by auto
  qed
qed (simp_all add: healthy_recorder_works healthy_pipeline_works)

subsection \<open>The shutdown\<close>

lemma healthy_closed:
  assumes "healthy t" "\<And>b. throws b = None" "\<And>n. writes_succeed (world n)"
  shows "record_outcome_of Returned (session_closed throws world t) = RecordFinished"
    and "\<not> of_bad (rc_timeline (tm_recorder (session_closed throws world t)))"
proof -
  have "recorder_ok (recorder_loop world (recorder_stop_begin (tm_recorder t)))"
    using assms by (intro recorder_loop_ok) (simp_all add: healthy_def recorder_ok_def recorder_stop_begin_def)
  moreover have "pl_worker_error (worker_loop throws (stop_begin (tm_pipeline t))) = None"
    using worker_loop_no_error [of throws "stop_begin (tm_pipeline t)", OF assms(2)] assms(1)
    by (simp add: healthy_def stop_begin_def)
  ultimately show "record_outcome_of Returned (session_closed throws world t) = RecordFinished"
    "\<not> of_bad (rc_timeline (tm_recorder (session_closed throws world t)))"
    by (simp_all add: outcome_finished session_closed_def stop_result_def recorder_stop_joined_def recorder_ok_def)
qed


lemma run_loop_ends:
  assumes "healthy (sv_telemetry sv)" "\<And>b. throws b = None"
    and "es = before @ StopSignal # between @ Poll po # after" "list_all calm_event es"
    and "run_loop throws sv es = (outcome, sv')"
  shows "outcome = Returned" "healthy (sv_telemetry sv')"
proof -
  note calm = run_loop_calm [OF assms(1,4,2,5)]
  have "ended_or_waiting es outcome"
    using stop_ends_loop [of before between po after throws sv] assms(3,5) by simp
  with calm show "outcome = Returned" "healthy (sv_telemetry sv')" by (auto simp: ended_or_waiting_def)
qed

lemma started_server:
  assumes "sockets_work st"
  obtains sv where "start_server st (construct_server build port directory t) = (None, sv)"
    "sv_telemetry sv = t" "\<not> sv_stop_requested sv"
proof -
  obtain sv where start: "start_server st (construct_server build port directory t) = (None, sv)"
    using assms by (auto simp: start_server_def sockets_work_def construct_server_def Let_def)
  from start_server_fields [OF start] show ?thesis
    by (intro that [OF start]) (simp_all add: construct_server_def)
qed

lemma record_session_ends:
  assumes "sockets_work (en_start env)" "\<And>b. en_throws env b = None" "\<And>n. writes_succeed (en_turns env n)"
    and "en_events env = before @ StopSignal # between @ Poll po # after" "list_all calm_event (en_events env)"
  shows "rr_outcome (record_session env port directory (init_recorder frequency start_tick)) = RecordFinished"
    and "\<exists>t. rr_telemetry (record_session env port directory (init_recorder frequency start_tick)) = Some t
      \<and> \<not> of_bad (rc_timeline (tm_recorder t))"
proof -
  let ?t0 = "init_telemetry frequency start_tick"
  obtain sv where start: "start_server (en_start env) (construct_server (en_build env) port directory ?t0) = (None, sv)"
    and t0: "sv_telemetry sv = ?t0"
    using started_server [OF assms(1)] by blast
  obtain outcome sv' where loop: "run_loop (en_throws env) sv (en_events env) = (outcome, sv')" by fastforce
  have healthy: "healthy (sv_telemetry sv)" by (simp add: t0 healthy_init)
  note ended = run_loop_ends [OF healthy assms(2,4,5) loop]
  have run: "run_server (en_throws env) (en_start env)
      (construct_server (en_build env) port directory \<lparr>tm_recorder = init_recorder frequency start_tick, tm_pipeline = init_pipeline\<rparr>)
      (en_events env) = (Returned, sv')"
    using start loop ended(1) by (simp add: run_server_def init_telemetry_def)
  note closed = healthy_closed [OF ended(2) assms(2,3)]
  show "rr_outcome (record_session env port directory (init_recorder frequency start_tick)) = RecordFinished"
    "\<exists>t. rr_telemetry (record_session env port directory (init_recorder frequency start_tick)) = Some t
      \<and> \<not> of_bad (rc_timeline (tm_recorder t))"
    unfolding record_session_def run Let_def by (simp_all add: closed)
qed

subsection \<open>The command\<close>

text \<open>
  The documented behaviour of everything outside: the clock answers, the file system creates and
  writes, fewer than \<open>2\<^sup>3\<^sup>2\<close> paths exist, the port is free, and no client keeps the server waiting or closes before its answer.
\<close>

definition calm_world :: "record_env \<Rightarrow> bool" where
  "calm_world env \<longleftrightarrow>
     \<not> isl (construct_clock (en_build env) (en_clock_queried env) (en_clock_quad env))
     \<and> disk_works (en_disk env) \<and> sockets_work (en_start env)
     \<and> finite {path. en_exists env path} \<and> card {path. en_exists env path} < 2 ^ 32
     \<and> (\<forall>n. valid_time (en_moments env n)) \<and> (\<forall>n. writes_succeed (en_turns env n))
     \<and> (\<forall>b. en_throws env b = None) \<and> list_all calm_event (en_events env)"

lemma path_join_inject: "path_join build sessions a = path_join build sessions b \<longleftrightarrow> a = b"
  by (auto simp: path_join_def)

lemma directory_found:
  assumes "finite {path. path_exists path}" "card {path. path_exists path} < 2 ^ 32" "\<And>n. valid_time (moments n)"
  shows "\<exists>name. session_directory (\<lambda>name. path_exists (path_join build sessions name)) moments = Some name"
proof -
  let ?names = "{name. path_exists (path_join build sessions name)}"
  have inj: "inj_on (path_join build sessions) ?names" by (simp add: inj_on_def path_join_inject)
  have sub: "path_join build sessions ` ?names \<subseteq> {path. path_exists path}" by auto
  have "card ?names \<le> card {path. path_exists path}"
    using card_mono [OF assms(1) sub] by (simp add: card_image [OF inj])
  moreover have "finite ?names"
    using finite_subset [OF sub assms(1)] inj by (rule finite_imageD)
  ultimately show ?thesis
    using fresh_directory [of "\<lambda>name. path_exists (path_join build sessions name)" moments] assms(2,3) by auto
qed

lemma recorder_constructed:
  assumes "calm_world env"
  obtains directory files where
    "construct_recorder (en_build env) (en_disk env) (en_exists env) (en_moments env) sessions app
       (clock_info_of (en_build env) frequency) start_tick
     = Some (Some directory, files, Inr (init_recorder frequency start_tick))"
proof -
  have disk: "disk_works (en_disk env)" using assms by (simp add: calm_world_def)
  then obtain files r where "open_files (en_disk env) app (clock_info_of (en_build env) frequency) start_tick = (files, Inr r)"
    by (auto simp: open_files_def disk_works_def Let_def)
  moreover from open_files_Inr [OF this] disk
  have "r = init_recorder (ci_frequency (clock_info_of (en_build env) frequency)) start_tick"
    by (simp add: disk_works_def)
  moreover have "ci_frequency (clock_info_of (en_build env) frequency) = frequency"
    by (cases "en_build env") (simp_all add: clock_info_of_def)
  moreover obtain name where
    "session_directory (\<lambda>name. en_exists env (path_join (en_build env) sessions name)) (en_moments env) = Some name"
    using directory_found [of "en_exists env" "en_moments env" "en_build env" sessions] assms
    by (auto simp: calm_world_def)
  ultimately show ?thesis
    using that [of "path_join (en_build env) sessions name" files] disk
    by (simp add: construct_recorder_def disk_works_def)
qed

lemma command_record_ends:
  assumes "record_arguments argv = Inr (port, sessions)" "calm_world env"
    and "en_events env = before @ StopSignal # between @ Poll po # after"
  shows "rr_outcome (command_record version edition env argv) = RecordFinished"
    and "\<exists>t. rr_telemetry (command_record version edition env argv) = Some t \<and> \<not> of_bad (rc_timeline (tm_recorder t))"
proof -
  obtain frequency where clock: "construct_clock (en_build env) (en_clock_queried env) (en_clock_quad env) = Inr frequency"
    using assms(2)
    by (cases "construct_clock (en_build env) (en_clock_queried env) (en_clock_quad env)") (auto simp: calm_world_def)
  obtain directory files where disk: "construct_recorder (en_build env) (en_disk env) (en_exists env) (en_moments env)
      sessions (session_application version edition) (clock_info_of (en_build env) frequency) (clock_now (en_start_ticks env))
      = Some (Some directory, files, Inr (init_recorder frequency (clock_now (en_start_ticks env))))"
    using recorder_constructed [OF assms(2)] by blast
  have world: "sockets_work (en_start env)" "\<And>b. en_throws env b = None" "\<And>n. writes_succeed (en_turns env n)"
    "list_all calm_event (en_events env)" using assms(2) by (auto simp: calm_world_def)
  note session = record_session_ends [OF world(1-3) assms(3) world(4)]
  show "rr_outcome (command_record version edition env argv) = RecordFinished"
    "\<exists>t. rr_telemetry (command_record version edition env argv) = Some t \<and> \<not> of_bad (rc_timeline (tm_recorder t))"
    by (simp_all add: command_record_def assms(1) clock disk session)
qed

subsection \<open>From the socket to the exit codes\<close>

text \<open>A body is counted as invalid by \<open>analyze\<close> if it is no JSON object.\<close>

definition json_object :: "string \<Rightarrow> bool" where
  "json_object body = (case parse_json body of Some (JObject _) \<Rightarrow> True | _ \<Rightarrow> False)"

definition is_event_line :: "analyze_line \<Rightarrow> bool" where
  "is_event_line l = (case l of EventLine _ \<Rightarrow> True | _ \<Rightarrow> False)"

text \<open>The part of the handler's text below its head line.\<close>

definition live_event_text :: "batch \<Rightarrow> string" where
  "live_event_text b = concat (map (\<lambda>e. ''  '' @ describe_event e @ [newline]) (snd b))"

lemma live_text_events:
  "live_text b = (''[LIVE] #'' @ u64_to_string (gs_sequence (fst b)) @ '' t+'' @ show_ms (gs_relative_us (fst b)) @ '' ms'' @ [newline])
     @ live_event_text b"
  by (simp add: live_text_def live_event_text_def)

lemma invalid_items_stored:
  assumes "\<And>rec body. (rec, body) \<in> set (stored_snapshots offset ps) \<Longrightarrow> load_replay_body files (packed_entry rec) = Inr body"
  shows "length (filter (invalid_item files) (replay_items offset ps))
     = length (filter (\<lambda>body. \<not> json_object body) (map snd (stored_snapshots offset ps)))"
  using assms
proof (induction offset ps rule: replay_items.induct)
  case (2 offset rec body now ps)
  let ?entry = "packed_entry (finished_snapshot rec offset now)"
  have "load_replay_body files ?entry = Inr body" using "2.prems" by simp
  then have "invalid_item files (gsi_item ?entry) \<longleftrightarrow> \<not> json_object body"
    by (simp add: invalid_item_def gsi_item_def json_object_def split: option.splits json.splits)
  with "2.IH" "2.prems" show ?case by simp
next
  case (3 offset rec now ps)
  then show ?case by (simp add: invalid_item_def supplementary_item_def)
qed simp

definition lines_agree :: "analysis \<Rightarrow> bool" where
  "lines_agree an \<longleftrightarrow> filter is_event_line (an_lines an) = map (\<lambda>e. EventLine (describe_event e)) (an_events an)"

lemma lines_agree_count:
  "lines_agree an \<Longrightarrow> lines_agree (count_events an es)"
  by (induction es) (simp_all add: lines_agree_def count_events_def is_event_line_def)

lemma lines_agree_item:
  assumes "analyze_item files an item = Inr an'" "lines_agree an"
  shows "lines_agree an'"
proof (cases "ri_payload item")
  case (ReplayGsi entry)
  with assms show ?thesis
    by (auto simp: analyze_item_def rbind_Inr analyze_gsi_def Let_def case_prod_beta
        intro!: lines_agree_count) (auto simp: lines_agree_def is_event_line_def)
next
  case (ReplaySupplementary entry)
  with assms show ?thesis
    by (auto simp: analyze_item_def analyze_supplementary_def Let_def case_prod_beta
        intro!: lines_agree_count) (auto simp: lines_agree_def is_event_line_def)
qed

lemma lines_agree_loop:
  "analyze_loop files an items = Inr an' \<Longrightarrow> lines_agree an \<Longrightarrow> lines_agree an'"
  by (induction files an items rule: analyze_loop.induct) (auto simp: rbind_Inr dest: lines_agree_item)

lemma analyze_session_lines:
  assumes "analyze_session files = Inr an"
  shows "filter is_event_line (an_lines an) = map (\<lambda>e. EventLine (describe_event e)) (an_events an)"
proof -
  obtain stream an0 where loop: "analyze_loop files init_analysis stream = Inr an0"
    and an: "an = an0\<lparr>an_lines := an_lines an0 @ analyze_summary (length stream) an0\<rparr>"
    using assms by (auto simp: analyze_session_def rbind_Inr)
  have "lines_agree an0"
    by (rule lines_agree_loop [OF loop]) (simp add: lines_agree_def init_analysis_def)
  moreover have "filter is_event_line (analyze_summary (length stream) an0) = []"
    by (simp add: analyze_summary_def is_event_line_def filter_map comp_def)
  ultimately show ?thesis by (simp add: an lines_agree_def)
qed

lemma event_lines_text:
  "analyze_text (map (\<lambda>e. EventLine (describe_event e)) (batch_events calls)) = concat (map live_event_text calls)"
  by (induction calls) (simp_all add: analyze_text_def live_event_text_def batch_events_def comp_def)

text \<open>What \<open>analyze\<close> prints is the text of the lines of the analysis.\<close>

lemma command_analyze_text:
  assumes "analyze_session (session_at (argv ! 2)) = Inr an" "3 \<le> length argv"
  shows "command_analyze session_at argv = (analyze_text (an_lines an), Inr (analyze_exit an))"
  using assms
  by (auto simp: command_analyze_def analyze_session_def analyze_loop_until rbind_def analyze_exit_def Let_def
      split: sum.splits prod.splits option.splits)

lemma finished_session:
  assumes "rr_outcome (command_record version edition env argv) = RecordFinished"
    and "rr_telemetry (command_record version edition env argv) = Some t'"
    and "headers_written (en_disk env)" "\<not> of_bad (rc_timeline (tm_recorder t'))"
    and "length (posted_bodies (accept_view (en_build env) False (en_events env))) < 2 ^ 64"
    and "length (concat (posted_bodies (accept_view (en_build env) False (en_events env)))) < 2 ^ 64"
  obtains an where "recorded_bodies t' = posted_bodies (accept_view (en_build env) False (en_events env))"
    "analyze_session (session_on_disk (tm_recorder t')) = Inr an"
    "an_events an = batch_events (pl_calls (tm_pipeline t'))"
    "an_invalid_payloads an
       = length (filter (\<lambda>body. \<not> json_object body) (posted_bodies (accept_view (en_build env) False (en_events env))))"
proof -
  let ?bodies = "posted_bodies (accept_view (en_build env) False (en_events env))"
  obtain frequency start_tick responses t where run:
    "serve (en_throws env) (init_telemetry frequency start_tick) (accept_view (en_build env) False (en_events env)) = (responses, None, t)"
    "t' = session_closed (en_throws env) (en_turns env) t"
    "pl_worker_error (tm_pipeline t') = None" "rc_worker_error (tm_recorder t') = None"
    using command_record_finished [OF assms(1-3)] by blast
  note facts = served_session_flushed [OF run assms(4-6)]
  obtain an where an: "analyze_session (session_on_disk (tm_recorder t')) = Inr an"
    "an_events an = batch_events (pl_calls (tm_pipeline t'))"
    using replayed_session [OF facts(1-8)] by blast
  note rec = telemetry_reachable_parts(1) [OF facts(1)]
  let ?files = "session_on_disk (tm_recorder t')" and ?ps = "rc_persisted (tm_recorder t')"
  obtain an0 where loop: "analyze_loop ?files init_analysis (replay_items 0 ?ps) = Inr an0"
    and an0: "an_invalid_payloads an = an_invalid_payloads an0"
    using an(1) flushed_stream [OF rec facts(2,3,6,7)] by (auto simp: analyze_session_def rbind_Inr)
  have "an_invalid_payloads an = length (filter (\<lambda>body. \<not> json_object body) (map snd (stored_snapshots 0 ?ps)))"
    using analyze_loop_invalid [OF loop] an0
      invalid_items_stored [OF flushed_body [OF rec facts(2,3,8)]]
    by (simp add: init_analysis_def)
  also have "map snd (stored_snapshots 0 ?ps) = ?bodies"
    using flushed_files(1) [OF rec facts(2,3)] facts(9) by (simp add: body_of_stored recorded_bodies_def)
  finally show ?thesis using facts(9) an by (intro that)
qed

text \<open>
  C1: \<open>record\<close> comes to its regular end. If nothing outside fails and no client stays silent or closes early, then
  after a stop request the process ends with exit code 0, for every schedule of connections,
  worker turns and further signals. Everything that was posted before the loop ended is in the session, and
  \<open>analyze\<close> finds in it the events of the live handler.
\<close>

theorem record_finishes:
  assumes "select_command argv = RecordCommand" "record_arguments argv = Inr (port, sessions)"
    and "calm_world (mn_record env)"
    and "en_events (mn_record env) = before @ StopSignal # between @ Poll po # after"
    and "length (posted_bodies (accept_view (en_build (mn_record env)) False (en_events (mn_record env)))) < 2 ^ 64"
    and "length (concat (posted_bodies (accept_view (en_build (mn_record env)) False (en_events (mn_record env))))) < 2 ^ 64"
  shows "snd (main_program env argv) = Some 0
     \<and> (\<exists>t an. rr_telemetry (command_record application_version (current_edition env) (mn_record env) argv) = Some t
          \<and> recorded_bodies t = posted_bodies (accept_view (en_build (mn_record env)) False (en_events (mn_record env)))
          \<and> analyze_session (session_on_disk (tm_recorder t)) = Inr an
          \<and> an_events an = batch_events (pl_calls (tm_pipeline t)))"
proof -
  note ends = command_record_ends [OF assms(2-4), of application_version "current_edition env"]
  obtain t where t: "rr_telemetry (command_record application_version (current_edition env) (mn_record env) argv) = Some t"
    "\<not> of_bad (rc_timeline (tm_recorder t))"
    using ends(2) by blast
  have headers: "headers_written (en_disk (mn_record env))"
    using assms(3) by (simp add: calm_world_def disk_works_def)
  obtain an where "recorded_bodies t = posted_bodies (accept_view (en_build (mn_record env)) False (en_events (mn_record env)))"
    "analyze_session (session_on_disk (tm_recorder t)) = Inr an"
    "an_events an = batch_events (pl_calls (tm_pipeline t))"
    by (rule finished_session [OF ends(1) t(1) headers t(2) assms(5,6)]) blast
  with t(1) have "\<exists>t an. rr_telemetry (command_record application_version (current_edition env) (mn_record env) argv) = Some t
          \<and> recorded_bodies t = posted_bodies (accept_view (en_build (mn_record env)) False (en_events (mn_record env)))
          \<and> analyze_session (session_on_disk (tm_recorder t)) = Inr an
          \<and> an_events an = batch_events (pl_calls (tm_pipeline t))" by blast
  moreover have "snd (main_program env argv) = Some 0"
    by (simp add: main_program_def assms(1) Let_def ends(1) record_exit_def)
  ultimately show ?thesis by blast
qed

text \<open>
  C3: What \<open>analyze\<close> prints of a recorded session. Its event lines are, character for character,
  those that the live handler printed while it was recorded, and its exit code is 0 if every
  posted body was a JSON object and 3 otherwise.
\<close>

theorem analyze_prints_live_lines:
  assumes "rr_outcome (command_record version edition (mn_record env) argv) = RecordFinished"
    and "rr_telemetry (command_record version edition (mn_record env) argv) = Some t"
    and "headers_written (en_disk (mn_record env))" "\<not> of_bad (rc_timeline (tm_recorder t))"
    and "length (posted_bodies (accept_view (en_build (mn_record env)) False (en_events (mn_record env)))) < 2 ^ 64"
    and "length (concat (posted_bodies (accept_view (en_build (mn_record env)) False (en_events (mn_record env))))) < 2 ^ 64"
    and "select_command argv' = AnalyzeCommand" "3 \<le> length argv'"
    and "mn_session_at env (argv' ! 2) = session_on_disk (tm_recorder t)"
  shows "\<exists>lines. main_program env argv' = (analyze_text lines,
         Some (if list_all json_object (posted_bodies (accept_view (en_build (mn_record env)) False (en_events (mn_record env)))) then 0 else 3))
     \<and> analyze_text (filter is_event_line lines) = concat (map live_event_text (pl_calls (tm_pipeline t)))"
proof -
  let ?bodies = "posted_bodies (accept_view (en_build (mn_record env)) False (en_events (mn_record env)))"
  obtain an where an: "analyze_session (mn_session_at env (argv' ! 2)) = Inr an"
    and events: "an_events an = batch_events (pl_calls (tm_pipeline t))"
    and invalid: "an_invalid_payloads an = length (filter (\<lambda>body. \<not> json_object body) ?bodies)"
    by (rule finished_session [OF assms(1-6)]) (simp add: assms(9))
  have "analyze_exit an = (if list_all json_object ?bodies then 0 else 3)"
    by (simp add: analyze_exit_def invalid filter_empty_conv list_all_iff)
  then have "main_program env argv' = (analyze_text (an_lines an), Some (if list_all json_object ?bodies then 0 else 3))"
    using command_analyze_text [of "mn_session_at env" argv', OF an assms(8)] by (simp add: main_program_def assms(7) exit_of_def)
  moreover have "analyze_text (filter is_event_line (an_lines an)) = concat (map live_event_text (pl_calls (tm_pipeline t)))"
    unfolding analyze_session_lines [OF an] events by (rule event_lines_text)
  ultimately show ?thesis by blast
qed

subsection \<open>The recorded session of \<open>Record_Command\<close>\<close>

definition demo_main :: main_env where
  "demo_main = \<lparr>mn_kind = EditionGsi, mn_record = demo_env, mn_ticks = 0,
     mn_session_at = (\<lambda>_. session_on_disk (tm_recorder demo_recorded)), mn_stod = (\<lambda>_. Inl NotANumber)\<rparr>"

lemma demo_calm: "calm_world demo_env"
proof -
  have "list_all calm_event (en_events demo_env)" by code_simp
  moreover have "valid_time demo_time" by (simp add: valid_time_def demo_time_def)
  moreover have "writes_succeed demo_turn" by code_simp
  moreover have "sockets_work good_start" "disk_works good_disk" by code_simp+
  ultimately show ?thesis
    by (simp add: calm_world_def demo_env_def construct_clock_def)
qed

lemma demo_bodies: "posted_bodies (accept_view (en_build demo_env) False (en_events demo_env)) = [''{}'']"
  by code_simp

lemma demo_main_record [simp]:
  "mn_record demo_main = demo_env" "mn_session_at demo_main path = session_on_disk (tm_recorder demo_recorded)"
  by (simp_all add: demo_main_def)

lemma demo_arguments:
  "record_arguments record_argv = Inr (3010, ''sessions'')" "select_command record_argv = RecordCommand"
  by code_simp+

lemma demo_events:
  "en_events demo_env = [Poll quiet_poll, Poll post_poll, PipelineWorks, RecorderWorks demo_turn]
     @ StopSignal # [] @ Poll quiet_poll # []"
  by (simp add: demo_env_def demo_schedule_def)

lemma demo_timeline: "\<not> of_bad (rc_timeline (tm_recorder demo_recorded))"
  using command_record_ends(2) [OF demo_arguments(1) demo_calm demo_events]
  by (simp only: demo_recorded) simp

theorem record_finishes_witness:
  "snd (main_program demo_main record_argv) = Some 0"
proof (rule record_finishes [THEN conjunct1])
  show "en_events (mn_record demo_main) = [Poll quiet_poll, Poll post_poll, PipelineWorks, RecorderWorks demo_turn]
     @ StopSignal # [] @ Poll quiet_poll # []"
    unfolding demo_main_record by (rule demo_events)
qed (simp_all add: demo_arguments demo_calm demo_bodies del: accept_view.simps)

theorem analyze_prints_live_lines_witness:
  "\<exists>lines. main_program demo_main [''CSPromator'', ''analyze'', ''s''] = (analyze_text lines, Some 0)
     \<and> analyze_text (filter is_event_line lines) = concat (map live_event_text (pl_calls (tm_pipeline demo_recorded)))"
proof -
  have "select_command [''CSPromator'', ''analyze'', ''s''] = AnalyzeCommand" by code_simp
  moreover have "list_all json_object [''{}'']" by code_simp
  moreover have "headers_written (en_disk demo_env)" by (simp add: demo_env_def)
  ultimately show ?thesis
    using analyze_prints_live_lines [of "''0.0.8''" gsi_edition demo_main record_argv demo_recorded
        "[''CSPromator'', ''analyze'', ''s'']", unfolded demo_main_record demo_bodies, OF demo_record demo_recorded]
    by (simp add: demo_timeline)
qed

end
