(* ===== verification/Record_Ended.thy ===== *)
theory Record_Ended
  imports Record_Command
begin

text \<open>
  The endings of \<open>record\<close> with an error: an exception of the gate, a handler that throws, a socket
  that cannot be opened. As long as the files themselves could be written, what the recorder has
  accepted is a session that \<open>analyze\<close> reads, and the handler has seen the events of a first part of it.
\<close>

subsection \<open>What was recorded when the loop was left\<close>

lemma ingress_bodies:
  "prefix (recorded_bodies t) (recorded_bodies (snd (ingress_gsi t a b k body)))
   \<and> prefix (recorded_bodies (snd (ingress_gsi t a b k body))) (recorded_bodies t @ [body])"
  by (cases rule: ingress_gsi_cases [of t a b k body])
    (auto simp: recorded_bodies_def dest!: enqueue_snapshot_Inr)

lemma connection_bodies:
  assumes "serve_connection t cn = (response, result, t')"
  shows "prefix (recorded_bodies t') (recorded_bodies t @ posted_bodies [Accepted cn])"
proof (cases "receive_request (cn_chunks cn)")
  case None
  with assms show ?thesis by (simp add: serve_connection_def)
next
  case (Some request)
  show ?thesis
  proof (cases "hr_method request = ''POST''")
    case False
    with Some assms show ?thesis by (simp add: serve_connection_def)
  next
    case True
    with Some assms have "t' = snd (ingress_gsi t (cn_accepted_tick cn) (cn_body_complete_tick cn)
        (cn_ack_sent_tick cn) (hr_body request))"
      by (auto simp: serve_connection_def Let_def case_prod_beta)
    then show ?thesis using Some True ingress_bodies by simp
  qed
qed

lemma serve_bodies_prefix:
  "serve throws t es = (responses, err, t') \<Longrightarrow> prefix (recorded_bodies t') (recorded_bodies t @ posted_bodies es)"
proof (induction throws t es arbitrary: responses rule: serve.induct)
  case (6 throws t cn es)
  obtain response result t1 where one: "serve_connection t cn = (response, result, t1)"
    by (cases "serve_connection t cn") auto
  have split: "posted_bodies (Accepted cn # es) = posted_bodies [Accepted cn] @ posted_bodies es" by simp
  show ?case
  proof (cases "\<exists>e. result = Some (Inl e)")
    case True
    with one "6.prems" have "t' = t1" by auto
    then show ?thesis
      unfolding split using connection_bodies [OF one] by (simp add: prefix_prefix flip: append_assoc)
  next
    case False
    obtain rs err' t2 where rest: "serve throws t1 es = (rs, err', t2)" by (cases "serve throws t1 es") auto
    have ended: "err' = err" "t2 = t'"
      using "6.prems" one rest False by (auto split: option.splits sum.splits)
    have "serve throws t [Accepted cn] = ([response], None, t1)"
      using one False by (auto split: option.splits sum.splits)
    then have bodies: "recorded_bodies t1 = recorded_bodies t @ posted_bodies [Accepted cn]"
      by (rule server_bodies)
    have "prefix (recorded_bodies t') (recorded_bodies t1 @ posted_bodies es)"
    proof (cases result)
      case None
      with "6.IH"(1) one rest ended show ?thesis by simp
    next
      case (Some r)
      with False obtain rec where "result = Some (Inr rec)" by (cases r) auto
      with "6.IH"(2) one rest ended show ?thesis by simp
    qed
    then show ?thesis by (simp only: bodies split append_assoc)
  qed
qed auto

subsection \<open>The session that is left\<close>

text \<open>Every ending of the command, with what had been served before it.\<close>

lemma command_record_ended:
  assumes "rr_telemetry (command_record version edition env argv) = Some t'"
    and "rr_outcome (command_record version edition env argv) \<notin> {StillRunning, ProcessKilled}" "headers_written (en_disk env)"
  obtains frequency start_tick es responses err t where
    "serve (en_throws env) (init_telemetry frequency start_tick) es = (responses, err, t)"
    "t' = session_closed (en_throws env) (en_turns env) t"
    "prefix (recorded_bodies t') (posted_bodies (accept_view (en_build env) False (en_events env)))"
proof -
  obtain port directory frequency where session:
    "rr_outcome (record_session env port directory (init_recorder frequency (clock_now (en_start_ticks env)))) \<notin> {StillRunning, ProcessKilled}"
    "rr_telemetry (record_session env port directory (init_recorder frequency (clock_now (en_start_ticks env)))) = Some t'"
    using command_record_session [OF assms(1,3)] assms(2) by metis
  let ?t0 = "init_telemetry frequency (clock_now (en_start_ticks env))"
  have empty: "recorded_bodies ?t0 = []" by (simp add: recorded_bodies_def init_telemetry_def init_recorder_def)
  show ?thesis
  proof (cases rule: record_session_cases [of env port directory frequency "clock_now (en_start_ticks env)"])
    case (unstarted e)
    have "serve (en_throws env) ?t0 [] = ([], None, ?t0)" by simp
    then show ?thesis
      by (rule that) (use unstarted(2) session(2) in \<open>simp_all add: closed_bodies empty\<close>)
  next
    case (ended state responses t)
    then have t': "t' = session_closed (en_throws env) (en_turns env) t" using session(2) by simp
    have "prefix (recorded_bodies t') (posted_bodies (accept_view (en_build env) False (en_events env)))"
      using serve_bodies_prefix [OF ended(1)] by (simp add: empty t' closed_bodies)
    with ended(1) t' show ?thesis by (rule that)
  qed (use session in simp)
qed

lemma live_events_prefix:
  assumes "telemetry_reachable throws frequency start_tick t"
  shows "prefix (batch_events (pl_calls (tm_pipeline t)))
     (batch_events (fst (run process_item init_processor (recorded_items t))))"
proof -
  have "prefix (pl_handled (tm_pipeline t)) (recorded_items t)"
    using handled_calls(1) [OF assms] same_order_reachable [OF assms] by (auto simp: same_order_def prefix_def)
  then obtain rest where "recorded_items t = pl_handled (tm_pipeline t) @ rest" by (auto simp: prefix_def)
  then show ?thesis
    using handled_calls(2) [OF assms]
    by (simp add: run_append batch_events_def Let_def case_prod_beta)
qed

text \<open>
  C4: A session whose files could be written is readable, also when \<open>record\<close> ended with an error.
  Suppose that \<open>record\<close> ended short of being killed, by a stop request, an exception of the handler,
  an exception of the gate that was none of the recorder's writes, or a socket that could not be opened;
  that the headers were written, that the recorder kept no error of its body and observation writes,
  that the untested timeline writes succeeded as well, and that the sizes fit the 64-bit counters.
  Then \<open>analyze\<close> succeeds on the files, the recorded bodies are a first part of the posted
  ones, and the events the live handler was called with are a first part of those that
  \<open>analyze\<close> finds.
\<close>

theorem ended_session_is_readable:
  assumes "rr_telemetry (command_record version edition env argv) = Some t'"
    and "rr_outcome (command_record version edition env argv) \<notin> {StillRunning, ProcessKilled}" "headers_written (en_disk env)"
    and "rc_worker_error (tm_recorder t') = None" "\<not> of_bad (rc_timeline (tm_recorder t'))"
    and "length (recorded_bodies t') < 2 ^ 64" "length (concat (recorded_bodies t')) < 2 ^ 64"
  shows "prefix (recorded_bodies t') (posted_bodies (accept_view (en_build env) False (en_events env)))
     \<and> (\<exists>an. analyze_session (session_on_disk (tm_recorder t')) = Inr an
          \<and> prefix (batch_events (pl_calls (tm_pipeline t'))) (an_events an))"
proof -
  obtain frequency start_tick es responses err t where
    served: "serve (en_throws env) (init_telemetry frequency start_tick) es = (responses, err, t)"
    and t': "t' = session_closed (en_throws env) (en_turns env) t"
    and bodies: "prefix (recorded_bodies t') (posted_bodies (accept_view (en_build env) False (en_events env)))"
    using command_record_ended [OF assms(1-3)] by blast
  note closed = closed_session [OF served t' assms(4-7)]
  from replayed_recording [OF closed] live_events_prefix [OF closed(1)] bodies show ?thesis by auto
qed

definition demo_thrown :: telemetry where
  "demo_thrown = the (rr_telemetry (record_session handler_throws 3010 demo_directory (init_recorder 1000000000 0)))"

lemma demo_thrown_facts:
  "(let r = record_session handler_throws 3010 demo_directory (init_recorder 1000000000 0); t = the (rr_telemetry r)
    in rr_outcome r = ServerFailed (FromPipeline PipelineStopping) \<and> rr_telemetry r \<noteq> None
       \<and> rc_worker_error (tm_recorder t) = None \<and> \<not> of_bad (rc_timeline (tm_recorder t))
       \<and> recorded_bodies t = [match_body, match_body]
       \<and> map ev_type (batch_events (pl_calls (tm_pipeline t))) = [MatchEntered])"
  by code_simp

theorem ended_session_is_readable_witness:
  "recorded_bodies demo_thrown = [match_body, match_body]
   \<and> (\<exists>an. analyze_session (session_on_disk (tm_recorder demo_thrown)) = Inr an
        \<and> prefix (batch_events (pl_calls (tm_pipeline demo_thrown))) (an_events an)
        \<and> MatchEntered \<in> set (map ev_type (an_events an)))"
proof -
  note facts = demo_thrown_facts [unfolded Let_def, folded demo_thrown_def]
  note command = demo_command [of handler_throws "''0.0.8''" gsi_edition, simplified]
  have "rr_telemetry (command_record ''0.0.8'' gsi_edition handler_throws record_argv) = Some demo_thrown"
    using command(2) facts by (simp add: demo_thrown_def)
  moreover have "rr_outcome (command_record ''0.0.8'' gsi_edition handler_throws record_argv) \<notin> {StillRunning, ProcessKilled}"
    using command(1) facts by simp
  moreover have "headers_written (en_disk handler_throws)" by (simp add: handler_throws_def demo_env_def)
  moreover have "length match_body = 20" by (simp add: match_body_def)
  ultimately obtain an where an: "analyze_session (session_on_disk (tm_recorder demo_thrown)) = Inr an"
    "prefix (batch_events (pl_calls (tm_pipeline demo_thrown))) (an_events an)"
    using ended_session_is_readable [of "''0.0.8''" gsi_edition handler_throws record_argv demo_thrown] facts by auto
  have "MatchEntered \<in> set (map ev_type (batch_events (pl_calls (tm_pipeline demo_thrown))))" using facts by simp
  then have "MatchEntered \<in> set (map ev_type (an_events an))" using set_mono_prefix [OF an(2)] by auto
  with an facts show ?thesis by blast
qed

end
