(* ===== verification/Regressions.thy ===== *)
theory Regressions
  imports Live_Pipeline
begin

text \<open>
  Scenarios of the program's own tests (\<open>src/tests\<close>), run through the model: the payloads and
  observations of a test and the events that it asks for and forbids. They are evaluated in the
  kernel and guard the definitions against a slip of the translation.
\<close>

text \<open>A payload of the tests: mode, map phase, round, the rest of the round, player, team, health,
  kills and headshots of the round.\<close>

definition payload_text ::
  "string \<Rightarrow> string \<Rightarrow> string \<Rightarrow> string \<Rightarrow> string \<Rightarrow> string \<Rightarrow> string \<Rightarrow> string \<Rightarrow> string" where
  "payload_text mode phase map_round round_text player team health kills =
     ''{\"provider\":{\"steamid\":\"LOCAL\"},\"map\":{\"name\":\"de_test\",\"mode\":\"'' @ mode
       @ ''\",\"phase\":\"'' @ phase @ ''\",\"round\":'' @ map_round @ ''},\"round\":{'' @ round_text
       @ ''},\"player\":{\"steamid\":\"'' @ player @ ''\",\"team\":\"'' @ team
       @ ''\",\"state\":{\"health\":'' @ health @ '',\"round_kills\":'' @ kills @ ''}}}''"

definition counts_of :: "u64 \<Rightarrow> u64 \<Rightarrow> i32 \<Rightarrow> i32 \<Rightarrow> i32 \<Rightarrow> i32 \<Rightarrow> u64 \<Rightarrow> pending_item" where
  "counts_of q t ct_alive t_alive ct_total t_total revision =
     PendingSupplementary \<lparr>sn_sequence = q, sn_observed_tick = 0, sn_relative_us = t, sn_roster_revision = Some revision,
       sn_source = Synthetic, sn_teams = \<lparr>tc_ct_alive = Some ct_alive, tc_t_alive = Some t_alive,
         tc_ct_total = Some ct_total, tc_t_total = Some t_total\<rparr>\<rparr>"

definition gsi_of :: "u64 \<Rightarrow> u64 \<Rightarrow> string \<Rightarrow> pending_item" where
  "gsi_of q t body = PendingGsi \<lparr>pp_sequence = q, pp_relative_us = t, pp_body = body\<rparr>"

text \<open>The types of the events of each item, with their values.\<close>

fun item_events :: "processor \<Rightarrow> pending_item list \<Rightarrow> (event_type \<times> i32 option) list list" where
  "item_events pr [] = []"
| "item_events pr (item # items) =
     (let (batches, pr') = process_item pr item
      in map (\<lambda>e. (ev_type e, ev_value e)) (batch_events batches) # item_events pr' items)"

abbreviation "freeze \<equiv> ''\"phase\":\"freezetime\"''"
abbreviation "live \<equiv> ''\"phase\":\"live\"''"

text \<open>\<open>test_competitive_ace_promotes_after_late_supplement\<close> of \<open>semantic_resolver_tests.cpp\<close>.\<close>

lemma competitive_ace_after_late_supplement:
  "item_events init_processor
     [gsi_of 1 1000 (payload_text ''competitive'' ''live'' ''0'' freeze ''LOCAL'' ''CT'' ''100'' ''0''),
      counts_of 1 1500 5 5 5 5 7,
      gsi_of 2 2000 (payload_text ''competitive'' ''live'' ''0'' live ''LOCAL'' ''CT'' ''100'' ''0''),
      gsi_of 3 3000 (payload_text ''competitive'' ''live'' ''0'' live ''LOCAL'' ''CT'' ''100'' ''4''),
      counts_of 2 3100 5 1 5 5 7,
      gsi_of 4 4000 (payload_text ''competitive'' ''live'' ''1'' ''\"phase\":\"over\",\"win_team\":\"CT\"''
        ''LOCAL'' ''CT'' ''100'' ''5''),
      counts_of 3 4100 5 0 5 5 7]
   = [[(MatchEntered, None), (LocalPlayerAcquired, None)], [],
      [(FreezeEnded, None), (RoundStarted, None)], [(PlayerKill, Some 4)], [],
      [(PlayerKill, Some 5), (AceCandidate, Some 5), (RoundEnded, Some 0), (RoundWon, Some 0)],
      [(Ace, Some 5)]]"
  by code_simp

text \<open>\<open>test_roster_revision_blocks_ace_even_if_total_returns\<close>: players came and went.\<close>

lemma roster_revision_blocks_ace:
  "item_events init_processor
     [gsi_of 20 20000 (payload_text ''retakes'' ''live'' ''2'' freeze ''LOCAL'' ''T'' ''100'' ''0''),
      counts_of 20 20500 4 3 4 3 10,
      gsi_of 21 21000 (payload_text ''retakes'' ''live'' ''2'' live ''LOCAL'' ''T'' ''100'' ''0''),
      counts_of 21 22000 5 3 5 3 11,
      counts_of 22 23000 4 3 4 3 12,
      gsi_of 22 24000 (payload_text ''retakes'' ''live'' ''2'' live ''LOCAL'' ''T'' ''100'' ''4''),
      counts_of 23 24100 0 3 4 3 12]
   = [[(MatchEntered, None), (LocalPlayerAcquired, None)], [],
      [(FreezeEnded, None), (RoundStarted, None)], [], [], [(PlayerKill, Some 4), (AceCandidate, Some 4)], []]"
  by code_simp

text \<open>\<open>test_clutch_lifecycle_and_team_balance_context\<close>: one against four, two, and dead.\<close>

lemma clutch_lifecycle:
  "item_events init_processor
     [gsi_of 30 30000 (payload_text ''competitive'' ''live'' ''4'' freeze ''LOCAL'' ''CT'' ''100'' ''0''),
      counts_of 30 30500 5 5 5 5 30,
      gsi_of 31 31000 (payload_text ''competitive'' ''live'' ''4'' live ''LOCAL'' ''CT'' ''100'' ''0''),
      counts_of 31 32000 1 4 5 5 30,
      counts_of 32 33000 1 2 5 5 30,
      gsi_of 32 34000 (payload_text ''competitive'' ''live'' ''4'' live ''LOCAL'' ''CT'' ''0'' ''0'')]
   = [[(MatchEntered, None), (LocalPlayerAcquired, None)], [],
      [(FreezeEnded, None), (RoundStarted, None)], [(ClutchStarted, Some 4)], [(ClutchUpdated, Some 2)],
      [(PlayerDamaged, Some 0), (PlayerDied, None), (ClutchEnded, Some 2)]]"
  by code_simp

text \<open>\<open>stale_supplement_regression_tests.cpp\<close>: counts of the previous round confirm nothing.\<close>

lemma stale_counts_confirm_nothing:
  "item_events init_processor
     [gsi_of 1 1000 (payload_text ''competitive'' ''live'' ''0'' freeze ''LOCAL'' ''CT'' ''100'' ''0''),
      counts_of 1 1500 1 0 5 5 5,
      gsi_of 2 2000 (payload_text ''competitive'' ''live'' ''0'' live ''LOCAL'' ''CT'' ''100'' ''0''),
      gsi_of 3 3000 (payload_text ''competitive'' ''live'' ''0'' live ''LOCAL'' ''CT'' ''100'' ''5''),
      counts_of 2 3100 1 0 5 5 5]
   = [[(MatchEntered, None), (LocalPlayerAcquired, None)], [],
      [(FreezeEnded, None), (RoundStarted, None)], [(PlayerKill, Some 5), (AceCandidate, Some 5)], [(Ace, Some 5)]]"
  by code_simp

end
