(* ===== verification/Stream_Order.thy ===== *)
theory Stream_Order
  imports Record_Replay Recorder_Flush
begin

text \<open>
  What the loaders of \<open>src/session.cpp\<close> make of a session that the recorder has flushed: the merged
  stream is the list of the accepted records in the order of their acceptance, whatever the times
  at which they were observed.
\<close>

text \<open>
  An item of the stream gives a record back. A payload has every field of its record except for
  those that only the worker knows (the offset of the body and the tick of the write), and its body
  can be loaded; an observation has every field except for the tick of the write, is marked as
  replayed, and its own source is kept beside it.
\<close>

fun loads_back :: "session_files \<Rightarrow> pending_record \<Rightarrow> replay_item \<Rightarrow> bool" where
  "loads_back files (RecordSnapshot rec body) item \<longleftrightarrow>
     ri_ingress_order item = sr_ingress_order rec \<and> ri_relative_us item = sr_relative_us rec \<and>
     (case ri_payload item of
        ReplayGsi entry \<Rightarrow>
          (re_record entry)\<lparr>sr_body_offset := sr_body_offset rec,
            sr_persist_complete_tick := sr_persist_complete_tick rec\<rparr> = rec \<and>
          load_replay_body files entry = Inr body
      | ReplaySupplementary entry \<Rightarrow> False)"
| "loads_back files (RecordSupplementary rec) item \<longleftrightarrow>
     ri_ingress_order item = su_ingress_order rec \<and> ri_relative_us item = sn_relative_us (su_snapshot rec) \<and>
     (case ri_payload item of
        ReplayGsi entry \<Rightarrow> False
      | ReplaySupplementary entry \<Rightarrow>
          su_snapshot (se_record entry) = with_source Replay (su_snapshot rec) \<and>
          se_recorded_source entry = sn_source (su_snapshot rec))"

lemma replay_items_load_back:
  assumes "\<And>rec body. (rec, body) \<in> set (stored_snapshots offset ps) \<Longrightarrow>
      load_replay_body files (packed_entry rec) = Inr body"
  shows "list_all2 (loads_back files) (map fst ps) (replay_items offset ps)"
  using assms
proof (induction offset ps rule: replay_items.induct)
  case (2 offset rec body now ps)
  then have "load_replay_body files (packed_entry (finished_snapshot rec offset now)) = Inr body" by simp
  with 2 show ?case by (simp add: gsi_item_def packed_entry_def finished_snapshot_def)
next
  case (3 offset rec now ps)
  then show ?case
    by (simp add: supplementary_item_def replayed_def finished_observation_def with_source_def)
qed simp

fun pending_time :: "pending_record \<Rightarrow> u64" where
  "pending_time (RecordSnapshot rec body) = sr_relative_us rec"
| "pending_time (RecordSupplementary rec) = sn_relative_us (su_snapshot rec)"

lemma loads_back_time: "loads_back files pending item \<Longrightarrow> ri_relative_us item = pending_time pending"
  by (cases pending) simp_all

lemma loads_back_times:
  "list_all2 (loads_back files) ps stream \<Longrightarrow> map ri_relative_us stream = map pending_time ps"
  by (induction rule: list_all2_induct) (simp_all add: loads_back_time)

text \<open>
  C29: The stream of a flushed session is what the recorder accepted, in the order in which
  it did: one item for each record, payloads and observations mixed as they came, numbered
  1, 2, 3, each with its fields, its session time and, for a payload, its body. The order does not
  depend on the session times, which fall when an observation was made before the payload that
  was accepted before it. No write may have failed, the counts must be of type \<open>int\<close> and the
  sizes fit the 64-bit counters.
\<close>

theorem stream_in_accepted_order:
  assumes "recorder_step\<^sup>*\<^sup>* (init_recorder frequency start_tick) r" "recorder_ok r" "rc_in_flight r = []"
    and "list_all record_in_range (rc_accepted r)" "length (rc_accepted r) < 2 ^ 64"
    and "length (of_contents (rc_raw_stream r)) < 2 ^ 64"
  shows "\<exists>stream. load_replay_stream (session_on_disk r) = Inr stream
     \<and> list_all2 (loads_back (session_on_disk r)) (rc_accepted r) stream
     \<and> map ri_ingress_order stream = counting (length (rc_accepted r))"
proof -
  have accepted: "map fst (rc_persisted r) = rc_accepted r" using assms(1-3) by (rule flushed_files(1))
  have "load_replay_stream (session_on_disk r) = Inr (replay_items 0 (rc_persisted r))"
    using assms(1-5) by (rule flushed_stream)
  moreover have "list_all2 (loads_back (session_on_disk r)) (map fst (rc_persisted r)) (replay_items 0 (rc_persisted r))"
    by (rule replay_items_load_back) (rule flushed_body [OF assms(1-3,6)])
  moreover have "map ri_ingress_order (replay_items 0 (rc_persisted r)) = counting (length (rc_accepted r))"
    using numbered_reachable [OF assms(1)] by (simp add: orders_replay_items accepted numbered_def)
  ultimately show ?thesis unfolding accepted by blast
qed

text \<open>A payload at 9 microseconds, then an observation that was made at 0.\<close>

definition late_enqueued :: recorder where
  "late_enqueued = snd (projr (enqueue_observation
     (snd (projr (enqueue_snapshot (init_recorder 1000000000 0) 0 9000 0 ''{}''))) demo_snapshot))"

definition late_flushed :: recorder where
  "late_flushed = recorder_loop (\<lambda>_. demo_turn) (recorder_stop_begin late_enqueued)"

lemma late_reachable: "recorder_step\<^sup>*\<^sup>* (init_recorder 1000000000 0) late_enqueued"
proof -
  define r1 where "r1 = snd (projr (enqueue_snapshot (init_recorder 1000000000 0) 0 9000 0 ''{}''))"
  have "\<not> isl (enqueue_snapshot (init_recorder 1000000000 0) 0 9000 0 ''{}'')" by code_simp
  then have "enqueue_snapshot (init_recorder 1000000000 0) 0 9000 0 ''{}''
      = Inr (fst (projr (enqueue_snapshot (init_recorder 1000000000 0) 0 9000 0 ''{}'')), r1)"
    by (simp add: r1_def)
  then have "recorder_step (init_recorder 1000000000 0) r1" by (rule step_snapshot)
  moreover have "\<not> isl (enqueue_observation r1 demo_snapshot)" unfolding r1_def by code_simp
  then have "enqueue_observation r1 demo_snapshot = Inr (fst (projr (enqueue_observation r1 demo_snapshot)), late_enqueued)"
    by (simp add: late_enqueued_def r1_def)
  then have "recorder_step r1 late_enqueued" by (rule step_observation)
  ultimately show ?thesis by (meson rtranclp.rtrancl_into_rtrancl rtranclp.rtrancl_refl)
qed

theorem stream_in_accepted_order_witness:
  "\<exists>stream. load_replay_stream (session_on_disk late_flushed) = Inr stream
     \<and> list_all2 (loads_back (session_on_disk late_flushed)) (rc_accepted late_flushed) stream
     \<and> map ri_ingress_order stream = counting 2 \<and> map ri_relative_us stream = [9, 0]"
proof -
  note state = recorder_flushed_state [OF late_reachable, of "\<lambda>_. demo_turn", folded late_flushed_def]
  have ok: "recorder_ok late_flushed" by code_simp
  have counts: "list_all record_in_range (rc_accepted late_flushed)"
    unfolding state(4) by (code_simp, simp add: in_i32_def)
  have times: "map pending_time (rc_accepted late_flushed) = [9, 0]"
    unfolding state(4) by code_simp
  have len: "length (rc_accepted late_flushed) = 2" using arg_cong [OF times, of length] by simp
  have raw: "length (of_contents (rc_raw_stream late_flushed)) = 2" by code_simp
  have small: "(2 :: nat) < 2 ^ 64" by simp
  obtain stream where loaded: "load_replay_stream (session_on_disk late_flushed) = Inr stream"
    and given: "list_all2 (loads_back (session_on_disk late_flushed)) (rc_accepted late_flushed) stream"
    and orders: "map ri_ingress_order stream = counting 2"
    using stream_in_accepted_order [OF state(1) ok state(3) counts, unfolded len raw, OF small small] by blast
  have late: "map ri_relative_us stream = [9, 0]" using loads_back_times [OF given] times by (rule trans)
  show ?thesis
    by (rule exI, rule conjI, rule loaded, rule conjI, rule given, rule conjI, rule orders, rule late)
qed

end
