(* ===== verification/Replay_Pacing.thy ===== *)
theory Replay_Pacing
  imports Cli
begin

text \<open>
  The pacing of \<open>replay\<close>: whole numbers below \<open>2\<^sup>5\<^sup>3\<close> pass through \<open>double\<close> unchanged, so at
  speed 1 the pauses add up to the recorded times.
\<close>

lemma scaled_delay_one:
  assumes "unat d < 2 ^ 53"
  shows "scaled_delay (Finite 1) d = Some d"
proof -
  have "fl (of_nat (unat d)) = (of_nat (unat d) :: rat)" using assms by (rule fl_of_nat)
  then have whole: "fl (fl (of_nat (unat d)) / 1) = (of_nat (unat d) :: rat)" by (simp only: div_by_1)
  have "(of_nat (unat d) :: rat) < of_nat (2 ^ 53)" unfolding of_nat_less_iff by (rule assms)
  also have "\<dots> < 2 ^ 64" by simp
  finally have small: "(of_nat (unat d) :: rat) < 2 ^ 64" .
  show ?thesis
    unfolding scaled_delay_def double_value.case whole Let_def if_P [OF small] by (simp only: floor_of_nat) simp
qed

subsection \<open>Pauses and observations\<close>

definition pauses :: "replay_line list \<Rightarrow> u64 list" where
  "pauses lines = List.map_filter (\<lambda>l. case l of SleepFor d \<Rightarrow> d | _ \<Rightarrow> None) lines"

lemma pauses_simps [simp]:
  "pauses [] = []" "pauses (SleepFor (Some d) # ls) = d # pauses ls"
  "pauses (NoObservations # ls) = pauses ls" "pauses (ReplayHeader a b c s # ls) = pauses ls"
  "pauses (l # ls) = (case l of SleepFor (Some d) \<Rightarrow> [d] | _ \<Rightarrow> []) @ pauses ls"
  "pauses (ls @ ms) = pauses ls @ pauses ms"
  by (simp_all add: pauses_def List.map_filter_def split: replay_line.splits option.splits)

lemma show_item_pauses: "pauses (fst (show_item files dump item)) = []"
  by (auto simp: show_item_def Let_def split: replay_payload.splits sum.splits)

lemma show_item_without_dump: "snd (show_item files False item) = None"
  by (auto simp: show_item_def Let_def split: replay_payload.splits)

fun clock_path :: "nat \<Rightarrow> nat list \<Rightarrow> nat list" where
  "clock_path c [] = []"
| "clock_path c (t # ts) = (t - c) # clock_path (max c t) ts"

lemma clock_path_total: "sum_list (take n (clock_path c ts)) + c = fold max (take n ts) c"
proof (induction ts arbitrary: c n)
  case (Cons t ts)
  show ?case
  proof (cases n)
    case (Suc m)
    have "fold max (take m ts) (max c t) = sum_list (take m (clock_path (max c t) ts)) + max c t"
      using Cons.IH [of m "max c t"] by simp
    then show ?thesis using Suc by (simp add: max.commute)
  qed simp
qed simp

lemma replay_rest_pauses:
  assumes "\<forall>i\<in>set items. unat (ri_relative_us i) < 2 ^ 53"
  shows "map unat (pauses (fst (replay_rest files False (Finite 1) clock_us items))) =
       clock_path (unat clock_us) (map (unat \<circ> ri_relative_us) items)
     \<and> snd (replay_rest files False (Finite 1) clock_us items) = None"
  using assms
proof (induction items arbitrary: clock_us)
  case (Cons item items)
  let ?d = "replay_delta clock_us item"
  have d: "unat ?d = unat (ri_relative_us item) - unat clock_us"
    by (auto simp: replay_delta_def unat_sub word_less_nat_alt word_le_nat_alt)
  have "unat (ri_relative_us item) < 2 ^ 53" using Cons.prems by simp
  with d have "unat ?d < 2 ^ 53" by linarith
  then have one: "scaled_delay (Finite 1) ?d = Some ?d" by (rule scaled_delay_one)
  have clock: "unat (replay_clock clock_us item) = max (unat clock_us) (unat (ri_relative_us item))"
    by (auto simp: replay_clock_def word_less_nat_alt)
  show ?case
    using Cons show_item_pauses [of files False item] show_item_without_dump [of files item]
    by (simp add: Let_def case_prod_beta one d clock)
qed simp

text \<open>
  C32: At speed 1 \<open>replay\<close> takes the time of the recording: before the observation number \<open>n\<close> is
  shown, the pauses add up to exactly the latest recorded time seen so far, less the first one.
  An observation recorded late causes no pause and does not turn the clock back. (Times below
  \<open>2\<^sup>5\<^sup>3\<close> microseconds, which is 285 years.)
\<close>

theorem replay_keeps_recorded_time:
  assumes "\<forall>i\<in>set (item # items). unat (ri_relative_us i) < 2 ^ 53"
    and "replay_output files False (Finite 1) (item # items) = (lines, err)" "n \<le> length items"
  shows "err = None \<and> length (pauses lines) = length items
     \<and> sum_list (map unat (take n (pauses lines))) + unat (ri_relative_us item)
        = fold max (map (unat \<circ> ri_relative_us) (take n items)) (unat (ri_relative_us item))"
proof -
  let ?rest = "replay_rest files False (Finite 1) (ri_relative_us item) items"
  note rest = replay_rest_pauses [of items files "ri_relative_us item"]
  have out: "pauses lines = pauses (fst ?rest)" "err = snd ?rest"
    using assms(2) show_item_pauses [of files False item] show_item_without_dump [of files item]
    by (auto simp: replay_output_def Let_def case_prod_beta)
  have path: "map unat (pauses lines) = clock_path (unat (ri_relative_us item)) (map (unat \<circ> ri_relative_us) items)"
    using rest assms(1) out(1) by simp
  have "length (clock_path c ts) = length ts" for c ts by (induction c ts rule: clock_path.induct) simp_all
  then have "length (pauses lines) = length items"
    using arg_cong [OF path, of length] by simp
  then show ?thesis
    using rest assms(1) out(2) clock_path_total [of n "unat (ri_relative_us item)" "map (unat \<circ> ri_relative_us) items"]
    by (simp add: path [symmetric] take_map)
qed

text \<open>
  The pause is defined for every speed that is not absurdly small, and never for the speed \<open>nan\<close>,
  which the test for a positive speed lets through.
\<close>

lemma fl_below: "0 < x \<Longrightarrow> x < 2 powi n \<Longrightarrow> fl x \<le> 2 powi n"
proof -
  assume x: "0 < x" "x < 2 powi n"
  then have "2 powi binary_exponent x < (2 :: rat) powi n" using binary_exponent_bounds(1) [of x] by linarith
  then have "\<not> n \<le> binary_exponent x" using power_int_increasing [of n "binary_exponent x" "2 :: rat"] by auto
  then have "binary_exponent x + 1 \<le> n" by simp
  then have "2 powi (binary_exponent x + 1) \<le> (2 :: rat) powi n" by (rule power_int_increasing) simp
  with fl_binade(2) [OF x(1)] show "fl x \<le> 2 powi n" by linarith
qed

theorem pause_defined:
  assumes "unat d < 2 ^ 53" "1 / 1024 \<le> q"
  shows "scaled_delay (Finite q) d \<noteq> None"
proof -
  have exact: "fl (of_nat (unat d)) = (of_nat (unat d) :: rat)" using assms(1) by (rule fl_of_nat)
  show ?thesis
  proof (cases "unat d = 0")
    case True
    then show ?thesis by (simp add: scaled_delay_def)
  next
    case False
    define m where "m = (of_nat (unat d) :: rat)"
    have "m < of_nat (2 ^ 53)" unfolding m_def of_nat_less_iff by (rule assms(1))
    then have m_small: "m < 2 ^ 53" by simp
    have "0 < unat d" using False by simp
    then have m_pos: "0 < m" unfolding m_def by (simp only: of_nat_0_less_iff)
    note m = m_pos m_small
    have q: "0 < q" using assms(2) by (rule less_le_trans [rotated]) simp
    have "m / q \<le> m / (1 / 1024)" using assms(2) m(1) by (intro divide_left_mono) simp_all
    also have "\<dots> < 2 powi 63" using m(2) by simp
    finally have "fl (m / q) \<le> 2 powi 63" using m(1) q by (intro fl_below) simp_all
    then have "fl (m / q) < 2 ^ 64" by simp
    then show ?thesis unfolding scaled_delay_def double_value.case Let_def exact m_def by simp
  qed
qed

theorem pause_defined_witness: "scaled_delay (Finite 10) 1000 \<noteq> None"
  by (rule pause_defined) simp_all

theorem nan_speed_undefined:
  "stod text = Inr NaN \<Longrightarrow> length argv \<ge> 4 \<Longrightarrow> argv ! 3 = text \<Longrightarrow>
   replay_speed stod argv = Inr NaN \<and> (\<forall>d. scaled_delay NaN d = None)"
  by (simp add: replay_speed_def not_positive_def scaled_delay_def)

theorem nan_speed_undefined_witness:
  "replay_speed (\<lambda>_. Inr NaN) [''CSPromator'', ''replay'', ''s'', ''nan''] = Inr NaN"
  using nan_speed_undefined [of "\<lambda>_. Inr NaN" "''nan''" "[''CSPromator'', ''replay'', ''s'', ''nan'']"] by simp

definition paced_item :: "u64 \<Rightarrow> replay_item" where
  "paced_item t = gsi_item \<lparr>re_record = empty_snapshot_record\<lparr>sr_relative_us := t\<rparr>, re_packed_v2 = True\<rparr>"

definition no_files :: session_files where
  "no_files = \<lparr>sf_timeline = None, sf_supplementary = None, sf_raw_gsi = None, sf_raw_directory = (\<lambda>_. None)\<rparr>"

theorem replay_keeps_recorded_time_witness:
  "sum_list (map unat (pauses (fst (replay_output no_files False (Finite 1) (map paced_item [10, 30, 20, 35]))))) = 25"
proof -
  let ?items = "map paced_item [30, 20, 35]"
  let ?out = "replay_output no_files False (Finite 1) (paced_item 10 # ?items)"
  have times: "ri_relative_us (paced_item t) = t" for t by (simp add: paced_item_def gsi_item_def)
  have bound: "\<forall>i\<in>set (paced_item 10 # ?items). unat (ri_relative_us i) < 2 ^ 53" by (simp add: times)
  have facts: "snd ?out = None \<and> length (pauses (fst ?out)) = length ?items
      \<and> sum_list (map unat (take 3 (pauses (fst ?out)))) + unat (ri_relative_us (paced_item 10))
        = fold max (map (unat \<circ> ri_relative_us) (take 3 ?items)) (unat (ri_relative_us (paced_item 10)))"
    by (rule replay_keeps_recorded_time [OF bound]) simp_all
  then have all: "take 3 (pauses (fst ?out)) = pauses (fst ?out)" by simp
  from facts show ?thesis unfolding all by (simp add: times)
qed

end
