(* ===== verification/Json_Facts.thy ===== *)
theory Json_Facts
  imports Json Session_Text
begin

text \<open>
  What the JSON reader accepts: a reference printer (\<open>render\<close>), whose output the reader turns
  back into the value, the escaping of the session metadata as its inverse on strings, and the
  depth of nesting.
\<close>

subsection \<open>Strings\<close>

text \<open>\<open>json_escape\<close> loses control characters other than line breaks and tabs.\<close>

definition escapable :: "char \<Rightarrow> bool" where
  "escapable c \<longleftrightarrow> (of_char c :: nat) \<ge> 0x20 \<or> c \<in> {newline, CHR 0x0D, tab}"

definition printable_char :: "char \<Rightarrow> char" where
  "printable_char c = (if escapable c then c else CHR ''?'')"

lemma parse_loop_escape_char:
  "parse_string_loop out (json_escape_char c @ r) = parse_string_loop (out @ [printable_char c]) r"
  by (auto simp: json_escape_char_def printable_char_def escapable_def parse_escape_def)

lemma parse_loop_escape:
  "parse_string_loop out (json_escape s @ r) = parse_string_loop (out @ map printable_char s) r"
  by (induction s arbitrary: out) (simp_all add: json_escape_def parse_loop_escape_char)

lemma parse_string_escape:
  "parse_string (quote # json_escape s @ quote # r) = Inr (map printable_char s, r)"
  by (simp add: parse_string_def parse_loop_escape)

text \<open>
  The reader refuses a raw control character, so the reference printer escapes as
  \<open>json_escape\<close> does and writes every other control character with its code.
\<close>

definition hex_digit :: "nat \<Rightarrow> char" where
  "hex_digit n = char_of (if n < 10 then 48 + n else 87 + n)"

definition render_char :: "char \<Rightarrow> string" where
  "render_char c =
     (if escapable c then json_escape_char c
      else [backslash, CHR ''u'', CHR ''0'', CHR ''0'', hex_digit (of_char c div 16), hex_digit (of_char c mod 16)])"

definition render_string :: "string \<Rightarrow> string" where
  "render_string s = quote # concat (map render_char s) @ [quote]"

lemma hex_value_digit: "d < 16 \<Longrightarrow> hex_value (hex_digit d) = Some (of_nat d)"
  by (auto simp: hex_value_def hex_digit_def Let_def)

lemma or_low_nibble: "m < 16 \<Longrightarrow> (16 :: u32) OR of_nat m = of_nat (16 + m)"
proof -
  assume "m < 16"
  then have "m \<in> {0, 1, 2, 3, 4, 5, 6, 7, 8, 9, 10, 11, 12, 13, 14, 15}" unfolding insert_iff empty_iff by arith
  then show ?thesis by (elim insertE emptyE) simp_all
qed

lemma hex4_of_digits:
  assumes "hi < 16" "lo < 16"
  shows "parse_hex4 (CHR ''0'' # CHR ''0'' # hex_digit hi # hex_digit lo # r)
     = Inr (push_bit 4 (of_nat hi) OR of_nat lo, r)"
proof -
  have zero: "hex_value (CHR ''0'') = Some 0" by (simp add: hex_value_def)
  have four: "(4 :: nat) = Suc (Suc (Suc (Suc 0)))" by simp
  show ?thesis
    using assms by (simp only: parse_hex4_def four hex4_loop.simps zero hex_value_digit option.case
        list.size not_less_eq not_less_zero add_0_right push_bit_of_0 or.left_neutral add_Suc_right Suc_less_eq split: if_split) simp
qed

lemma parse_control_code:
  assumes "n < 32"
  shows "parse_escape out (CHR ''u'' # CHR ''0'' # CHR ''0'' # hex_digit (n div 16) # hex_digit (n mod 16) # r)
     = Inr (out @ [char_of n], r)"
proof -
  define w :: u32 where "w = of_nat n"
  have w: "unat w = n" using assms by (simp add: w_def unat_of_nat take_bit_nat_eq_self)
  have "push_bit 4 (of_nat (n div 16)) OR of_nat (n mod 16) = w"
  proof (cases "n < 16")
    case False
    then have "n div 16 = 1" "n mod 16 = n - 16" using assms by (simp_all add: le_mod_geq)
    then show ?thesis using or_low_nibble [of "n - 16"] False assms by (simp add: w_def)
  qed (simp add: w_def)
  then have "parse_hex4 (CHR ''0'' # CHR ''0'' # hex_digit (n div 16) # hex_digit (n mod 16) # r) = Inr (w, r)"
    using hex4_of_digits [of "n div 16" "n mod 16" r] assms by simp
  moreover have "w \<le> 0x7F" "\<not> 0xD800 \<le> w" using w assms by (simp_all add: word_le_nat_alt)
  ultimately show ?thesis
    by (simp add: parse_escape_def parse_unicode_escape_def append_utf8_def byte_of_def w)
qed

lemma parse_loop_render_char:
  "parse_string_loop out (render_char c @ r) = parse_string_loop (out @ [c]) r"
proof (cases "escapable c")
  case True
  then show ?thesis
    by (simp add: render_char_def parse_loop_escape_char printable_char_def)
next
  case False
  then have "of_char c < (32::nat)" by (simp add: escapable_def)
  from parse_control_code [OF this] False show ?thesis by (simp add: render_char_def)
qed

lemma parse_loop_render:
  "parse_string_loop out (concat (map render_char s) @ quote # r) = Inr (out @ s, r)"
  by (induction s arbitrary: out) (simp_all add: parse_loop_render_char)

lemma parse_string_render: "parse_string (render_string s @ r) = Inr (s, r)"
  by (simp add: parse_string_def render_string_def parse_loop_render)

subsection \<open>Numbers\<close>

definition ends_token :: "string \<Rightarrow> bool" where
  "ends_token r \<longleftrightarrow> r = [] \<or> \<not> is_digit (hd r) \<and> hd r \<notin> {CHR ''.'', CHR ''e'', CHR ''E''}"

lemma nat_to_string_zero: "nat_to_string n = CHR ''0'' # cs \<Longrightarrow> n = 0 \<and> cs = []"
proof (induction n arbitrary: cs rule: nat_to_string.induct)
  case (1 n)
  show ?case
  proof (cases "n < 10")
    case True
    have "n = digit_value (digit_char n)" using True by simp
    also have "\<dots> = 0"
      using 1(2) True by (simp add: nat_to_string.simps [of n] digit_value_def)
    finally show ?thesis using 1(2) by (simp add: nat_to_string.simps)
  next
    case False
    with 1(2) obtain ds where "nat_to_string (n div 10) = CHR ''0'' # ds"
      by (cases "nat_to_string (n div 10)") (auto simp: nat_to_string.simps [of n])
    from 1(1) [OF False this] False show ?thesis by linarith
  qed
qed

lemma takeWhile_all_append:
  "\<forall>x\<in>set xs. P x \<Longrightarrow> r = [] \<or> \<not> P (hd r) \<Longrightarrow> dropWhile P (xs @ r) = r"
  by (induction xs) (cases r, auto)

lemma drop_digits: "ends_token r \<Longrightarrow> dropWhile is_digit (nat_to_string n @ r) = r"
  by (rule takeWhile_all_append) (auto simp: ends_token_def nat_to_string_digits)

lemma scan_natural:
  assumes "ends_token r"
  shows "scan_integer (nat_to_string n @ r) = Inr r"
proof -
  obtain c cs where cs: "nat_to_string n = c # cs" by (cases "nat_to_string n") auto
  have digit: "is_digit c" using cs by (rule nat_to_string_hd)
  then have "c \<noteq> CHR ''-''" by auto
  moreover have "cs = []" if "c = CHR ''0''" using nat_to_string_zero cs that by blast
  moreover have "dropWhile is_digit (c # cs @ r) = r"
    using drop_digits [OF assms, of n] cs by simp
  ultimately show ?thesis
    using digit by (auto simp: scan_integer_def cs)
qed

lemma scan_int: "ends_token r \<Longrightarrow> scan_integer (int_to_string i @ r) = Inr r"
proof (cases "i < 0")
  case True
  assume r: "ends_token r"
  obtain c cs where cs: "nat_to_string (nat (- i)) = c # cs" by (cases "nat_to_string (nat (- i))") auto
  then have "c \<noteq> CHR ''-''" using nat_to_string_hd by fastforce
  with scan_natural [OF r, of "nat (- i)"] True cs show ?thesis
    by (simp add: int_to_string_def scan_integer_def)
qed (simp add: int_to_string_def scan_natural)

lemma signed_digits_int: "signed_digits (int_to_string i) = i"
proof -
  have "hd (nat_to_string n) \<noteq> CHR ''-''" for n
    by (cases "nat_to_string n") (auto dest: nat_to_string_hd)
  then show ?thesis by (auto simp: signed_digits_def int_to_string_def)
qed

lemma parse_number_int:
  assumes "ends_token r" "in_i64 i"
  shows "parse_number (int_to_string i @ r) = Inr (JInt i, r)"
proof -
  have "scan_number (int_to_string i @ r) = Inr (False, r)"
    using scan_int [OF assms(1)] assms(1)
    by (auto simp: scan_number_def scan_fraction_def scan_exponent_def ends_token_def)
  then show ?thesis
    using assms(2) by (simp add: parse_number_def signed_digits_int)
qed

text \<open>The scanner looks only at the token and the first character after it.\<close>

lemma split_digits:
  assumes "is_digit c"
  obtains p where "c # s = p @ dropWhile is_digit (c # s)" "p \<noteq> []" "hd p = c"
    "\<And>w. w = [] \<or> \<not> is_digit (hd w) \<Longrightarrow> dropWhile is_digit (p @ w) = w"
proof
  show "c # s = takeWhile is_digit (c # s) @ dropWhile is_digit (c # s)" by simp
  show "takeWhile is_digit (c # s) \<noteq> []" "hd (takeWhile is_digit (c # s)) = c" using assms by auto
  show "dropWhile is_digit (takeWhile is_digit (c # s) @ w) = w" if "w = [] \<or> \<not> is_digit (hd w)" for w
    by (rule takeWhile_all_append) (use that set_takeWhileD in fastforce)+
qed

lemma scan_digits_prefix:
  assumes "is_digit c"
  obtains p where "c # s = p @ dropWhile is_digit (c # s)"
    "\<And>w. w = [] \<or> \<not> is_digit (hd w) \<Longrightarrow> \<exists>q. p @ w = c # q \<and> dropWhile is_digit (c # q) = w"
proof -
  obtain p where p: "c # s = p @ dropWhile is_digit (c # s)" "p \<noteq> []" "hd p = c"
    "\<And>w. w = [] \<or> \<not> is_digit (hd w) \<Longrightarrow> dropWhile is_digit (p @ w) = w"
    by (rule split_digits [OF assms]) blast
  obtain q where "p = c # q" using p(2,3) by (cases p) auto
  then show ?thesis using that p(1,4) by (metis append_Cons)
qed

lemma scan_integer_prefix:
  assumes "scan_integer s = Inr u"
  obtains p c cs where "s = p @ u" "p = c # cs" "c = CHR ''-'' \<or> is_digit c"
    "\<And>w. w = [] \<or> \<not> is_digit (hd w) \<Longrightarrow> scan_integer (p @ w) = Inr w"
proof -
  define sign where "sign = (if s \<noteq> [] \<and> hd s = CHR ''-'' then [CHR ''-''] else [])"
  define t where "t = (if s \<noteq> [] \<and> hd s = CHR ''-'' then tl s else s)"
  have s: "s = sign @ t" by (cases s) (auto simp: sign_def t_def)
  obtain c r where t: "t = c # r" and c: "is_digit c"
    and u: "u = (if c = CHR ''0'' then r else dropWhile is_digit (c # r))"
    using assms by (cases t) (auto simp: scan_integer_def t_def [symmetric] is_digit_def split: if_splits)
  have "\<exists>p. t = p @ u \<and> (\<forall>w. w = [] \<or> \<not> is_digit (hd w) \<longrightarrow> (\<exists>q. p @ w = c # q \<and>
      w = (if c = CHR ''0'' then q else dropWhile is_digit (c # q))))"
  proof (cases "c = CHR ''0''")
    case True
    then show ?thesis using t u by (intro exI [of _ "[c]"]) simp
  next
    case False
    obtain p where "c # r = p @ dropWhile is_digit (c # r)"
      "\<And>w. w = [] \<or> \<not> is_digit (hd w) \<Longrightarrow> \<exists>q. p @ w = c # q \<and> dropWhile is_digit (c # q) = w"
      by (rule scan_digits_prefix [OF c]) blast
    with False t u show ?thesis by (intro exI [of _ p]) metis
  qed
  then obtain p where p: "t = p @ u"
    and w: "\<And>w. w = [] \<or> \<not> is_digit (hd w) \<Longrightarrow> \<exists>q. p @ w = c # q \<and>
      w = (if c = CHR ''0'' then q else dropWhile is_digit (c # q))" by blast
  have minus: "c \<noteq> CHR ''-''" using c by (auto simp: is_digit_def)
  have scan: "scan_integer ((sign @ p) @ w) = Inr w" if ok: "w = [] \<or> \<not> is_digit (hd w)" for w
  proof -
    obtain q where q: "p @ w = c # q" "w = (if c = CHR ''0'' then q else dropWhile is_digit (c # q))"
      using w [OF ok] by blast
    have "scan_integer (sign @ c # q) = Inr (if c = CHR ''0'' then q else dropWhile is_digit (c # q))"
      using c minus by (simp add: scan_integer_def sign_def)
    then show ?thesis using q by (metis append_assoc)
  qed
  obtain q where "p = c # q" using w [of "[]"] by auto
  then obtain d ds where "sign @ p = d # ds" "d = CHR ''-'' \<or> is_digit d"
    using c by (cases "s \<noteq> [] \<and> hd s = CHR ''-''") (auto simp: sign_def)
  then show ?thesis using that [of "sign @ p"] s p scan by auto
qed

lemma scan_fraction_prefix:
  assumes "scan_fraction s = Inr (b, u)"
  obtains p where "s = p @ u" "p = [] \<or> hd p = CHR ''.''"
    "\<And>w. w = [] \<or> \<not> is_digit (hd w) \<and> hd w \<noteq> CHR ''.'' \<Longrightarrow> scan_fraction (p @ w) = Inr (b, w)"
proof (cases "s \<noteq> [] \<and> hd s = CHR ''.''")
  case True
  then obtain s' where s': "s = CHR ''.'' # s'" by (cases s) auto
  obtain d r where t: "s' = d # r" and d: "is_digit d"
    and u: "u = dropWhile is_digit (d # r)" and b: b
    using assms by (cases s') (simp_all add: scan_fraction_def s' split: if_splits)
  have s: "s = CHR ''.'' # d # r" using s' t by simp
  obtain p where p: "d # r = p @ dropWhile is_digit (d # r)"
    "\<And>w. w = [] \<or> \<not> is_digit (hd w) \<Longrightarrow> \<exists>q. p @ w = d # q \<and> dropWhile is_digit (d # q) = w"
    by (rule scan_digits_prefix [OF d]) blast
  have "scan_fraction ((CHR ''.'' # p) @ w) = Inr (b, w)"
    if ok: "w = [] \<or> \<not> is_digit (hd w) \<and> hd w \<noteq> CHR ''.''" for w
  proof -
    obtain q where "p @ w = d # q" "dropWhile is_digit (d # q) = w" using p(2) ok by blast
    then show ?thesis using d b by (simp add: scan_fraction_def)
  qed
  then show ?thesis using that [of "CHR ''.'' # p"] s u p(1) by simp
next
  case False
  then have "u = s" "\<not> b" using assms by (simp_all add: scan_fraction_def split: if_splits)
  then show ?thesis by (intro that [of "[]"]) (auto simp: scan_fraction_def)
qed

lemma scan_exponent_prefix:
  assumes "scan_exponent s = Inr (b, u)"
  obtains p where "s = p @ u" "p = [] \<or> hd p = CHR ''e'' \<or> hd p = CHR ''E''"
    "\<And>w. ends_token w \<Longrightarrow> scan_exponent (p @ w) = Inr (b, w)"
proof (cases "s \<noteq> [] \<and> (hd s = CHR ''e'' \<or> hd s = CHR ''E'')")
  case True
  then obtain e s' where s': "s = e # s'" and e: "e = CHR ''e'' \<or> e = CHR ''E''" by (cases s) auto
  define sign where "sign = (if s' \<noteq> [] \<and> (hd s' = CHR ''+'' \<or> hd s' = CHR ''-'') then [hd s'] else [])"
  define t where "t = (if s' \<noteq> [] \<and> (hd s' = CHR ''+'' \<or> hd s' = CHR ''-'') then tl s' else s')"
  have s'_split: "s' = sign @ t" by (cases s') (auto simp: sign_def t_def)
  have scan: "(case t of [] \<Rightarrow> Inl InvalidExponent
      | d # r \<Rightarrow> if \<not> is_digit d then Inl InvalidExponent
                else Inr (True, dropWhile is_digit (d # r))) = Inr (b, u)"
    using assms e unfolding scan_exponent_def s' t_def list.sel by (simp only: list.distinct not_False_eq_True simp_thms if_True)
  obtain d r where t: "t = d # r" and d: "is_digit d"
    and u: "u = dropWhile is_digit (d # r)" and b: b
    using scan by (auto split: list.splits if_splits)
  obtain p where p: "d # r = p @ dropWhile is_digit (d # r)"
    "\<And>w. w = [] \<or> \<not> is_digit (hd w) \<Longrightarrow> \<exists>q. p @ w = d # q \<and> dropWhile is_digit (d # q) = w"
    by (rule scan_digits_prefix [OF d]) blast
  have plain: "d \<noteq> CHR ''+'' \<and> d \<noteq> CHR ''-''" using d by (auto simp: is_digit_def)
  have "scan_exponent ((e # sign @ p) @ w) = Inr (b, w)" if w: "ends_token w" for w
  proof -
    obtain q where "p @ w = d # q" "dropWhile is_digit (d # q) = w" using p(2) w by (auto simp: ends_token_def)
    then show ?thesis using d e b plain by (auto simp: scan_exponent_def sign_def)
  qed
  then show ?thesis using that [of "e # sign @ p"] s' s'_split t u p(1) e by simp
next
  case False
  then have "u = s" "\<not> b" using assms by (simp_all add: scan_exponent_def split: if_splits)
  then show ?thesis by (intro that [of "[]"]) (auto simp: scan_exponent_def ends_token_def)
qed

lemma scan_number_prefix:
  assumes "scan_number s = Inr (b, u)"
  obtains p c cs where "s = p @ u" "p = c # cs" "c = CHR ''-'' \<or> is_digit c"
    "\<And>w. ends_token w \<Longrightarrow> scan_number (p @ w) = Inr (b, w)"
proof -
  obtain s1 f s2 e where 1: "scan_integer s = Inr s1" and 2: "scan_fraction s1 = Inr (f, s2)"
    and 3: "scan_exponent s2 = Inr (e, u)" and b: "b = (f \<or> e)"
    using assms by (auto simp: scan_number_def split: sum.splits prod.splits)
  obtain p1 c cs where p1: "s = p1 @ s1" "p1 = c # cs" "c = CHR ''-'' \<or> is_digit c"
    "\<And>w. w = [] \<or> \<not> is_digit (hd w) \<Longrightarrow> scan_integer (p1 @ w) = Inr w"
    by (rule scan_integer_prefix [OF 1]) blast
  obtain p2 where p2: "s1 = p2 @ s2" "p2 = [] \<or> hd p2 = CHR ''.''"
    "\<And>w. w = [] \<or> \<not> is_digit (hd w) \<and> hd w \<noteq> CHR ''.'' \<Longrightarrow> scan_fraction (p2 @ w) = Inr (f, w)"
    by (rule scan_fraction_prefix [OF 2]) blast
  obtain p3 where p3: "s2 = p3 @ u" "p3 = [] \<or> hd p3 = CHR ''e'' \<or> hd p3 = CHR ''E''"
    "\<And>w. ends_token w \<Longrightarrow> scan_exponent (p3 @ w) = Inr (e, w)"
    by (rule scan_exponent_prefix [OF 3]) blast
  have "scan_number ((p1 @ p2 @ p3) @ w) = Inr (b, w)" if w: "ends_token w" for w
  proof -
    have 3: "p3 @ w = [] \<or> \<not> is_digit (hd (p3 @ w)) \<and> hd (p3 @ w) \<noteq> CHR ''.''"
      using p3(2) w by (cases p3) (auto simp: ends_token_def is_digit_def)
    then have 2: "p2 @ p3 @ w = [] \<or> \<not> is_digit (hd (p2 @ p3 @ w))"
      using p2(2) by (cases p2) (auto simp: is_digit_def)
    show ?thesis
      using p1(4) [OF 2] p2(3) [OF 3] p3(3) [OF w] b by (simp add: scan_number_def)
  qed
  then show ?thesis using that [of "p1 @ p2 @ p3" c "cs @ p2 @ p3"] p1(1-3) p2(1) p3(1) by simp
qed

lemma parse_number_token:
  assumes "parse_number s = Inr (v, u)"
  obtains p c cs where "s = p @ u" "p = c # cs" "c = CHR ''-'' \<or> is_digit c" "\<forall>t. v = JDouble t \<longrightarrow> t = p"
    "\<And>w. ends_token w \<Longrightarrow> parse_number (p @ w) = Inr (v, w)"
proof -
  obtain b where b: "scan_number s = Inr (b, u)"
    using assms by (auto simp: parse_number_def Let_def split: sum.splits prod.splits if_splits)
  obtain p c cs where p: "s = p @ u" "p = c # cs" "c = CHR ''-'' \<or> is_digit c"
    "\<And>w. ends_token w \<Longrightarrow> scan_number (p @ w) = Inr (b, w)"
    by (rule scan_number_prefix [OF b]) blast
  have "\<forall>t. v = JDouble t \<longrightarrow> t = p"
    using assms b p(1) by (auto simp: parse_number_def Let_def split: if_splits)
  moreover have "parse_number (p @ w) = Inr (v, w)" if "ends_token w" for w
    using assms b p(1) p(4) [OF that] by (auto simp: parse_number_def Let_def split: if_splits)
  ultimately show ?thesis using that p(1-3) by blast
qed

lemma parse_number_result:
  "parse_number s = Inr (v, u) \<Longrightarrow> (\<exists>i. v = JInt i \<and> in_i64 i) \<or> (\<exists>t. v = JDouble t)"
  by (auto simp: parse_number_def Let_def split: sum.splits prod.splits if_splits)

subsection \<open>The reference printer\<close>

definition bracketed :: "char \<Rightarrow> char \<Rightarrow> string list \<Rightarrow> string" where
  "bracketed a b ts =
     a # (case ts of [] \<Rightarrow> [] | t # us \<Rightarrow> t @ concat (map (\<lambda>u. CHR '','' # u) us)) @ [b]"

definition render_member :: "string \<times> string \<Rightarrow> string" where
  "render_member m = render_string (fst m) @ CHR '':'' # snd m"

primrec render :: "json \<Rightarrow> string" where
  "render JNull = ''null''"
| "render (JBool b) = (if b then ''true'' else ''false'')"
| "render (JInt i) = int_to_string i"
| "render (JDouble t) = t"
| "render (JString s) = render_string s"
| "render (JArray vs) = bracketed (CHR ''['') (CHR '']'') (map render vs)"
| "render (JObject kvs) = bracketed (CHR ''{'') (CHR ''}'') (map render_member (map (map_prod id render) kvs))"

text \<open>
  The values of the C++ types: an integer is an \<open>int64_t\<close>, the keys of a \<open>std::map\<close> are
  distinct, and a floating point number is the token of a number that the reader takes for one.
\<close>

primrec wf_json :: "json \<Rightarrow> bool" where
  "wf_json JNull = True"
| "wf_json (JBool b) = True"
| "wf_json (JInt i) = in_i64 i"
| "wf_json (JDouble t) = (parse_number t = Inr (JDouble t, []))"
| "wf_json (JString s) = True"
| "wf_json (JArray vs) = list_all id (map wf_json vs)"
| "wf_json (JObject kvs) =
     (distinct (map fst kvs) \<and> list_all (\<lambda>m. snd m) (map (map_prod id wf_json) kvs))"

lemma double_token:
  assumes "wf_json (JDouble t)"
  obtains c cs where "t = c # cs" "c = CHR ''-'' \<or> is_digit c"
    "\<And>w. ends_token w \<Longrightarrow> parse_number (t @ w) = Inr (JDouble t, w)"
proof -
  have "parse_number t = Inr (JDouble t, [])" using assms by simp
  then show ?thesis
  proof (rule parse_number_token)
    fix p c cs
    assume "t = p @ []" and p: "p = c # cs" "c = CHR ''-'' \<or> is_digit c"
      and scan: "\<And>w. ends_token w \<Longrightarrow> parse_number (p @ w) = Inr (JDouble t, w)"
    then have "t = p" by simp
    show thesis
      by (rule that [OF _ p(2)]) (use p(1) \<open>t = p\<close> scan in simp_all)
  qed
qed

lemma render_start:
  assumes "wf_json v"
  obtains c cs where "render v = c # cs" "\<not> is_ws c" "c \<noteq> CHR '']''" "c \<noteq> CHR ''}''"
proof -
  have digit: "\<not> is_ws c \<and> c \<noteq> CHR '']'' \<and> c \<noteq> CHR ''}''" if "c = CHR ''-'' \<or> is_digit c" for c
    using that by (auto simp: is_digit_def is_ws_def)
  have "\<exists>c cs. render v = c # cs \<and> \<not> is_ws c \<and> c \<noteq> CHR '']'' \<and> c \<noteq> CHR ''}''"
  proof (cases v)
    case (JInt i)
    then show ?thesis
      using digit nat_to_string_hd
      by (cases "nat_to_string (nat \<bar>i\<bar>)") (auto simp: int_to_string_def is_ws_def)
  next
    case (JDouble t)
    then obtain c cs where "t = c # cs" "c = CHR ''-'' \<or> is_digit c"
      using assms by (metis double_token)
    with JDouble digit show ?thesis by auto
  qed (use assms in \<open>auto simp: bracketed_def render_string_def is_ws_def\<close>)
  then show ?thesis using that by blast
qed

lemma skip_ws_render: "wf_json v \<Longrightarrow> skip_ws (render v @ r) = render v @ r"
  by (erule render_start) (simp add: skip_ws_Cons)

lemma consume_render:
  "wf_json v \<Longrightarrow> consume (CHR '']'') (render v @ r) = (False, render v @ r)"
  "wf_json v \<Longrightarrow> consume (CHR ''}'') (render v @ r) = (False, render v @ r)"
  by (erule render_start; simp add: consume_def skip_ws_Cons)+

lemma consume_here [simp]:
  "\<not> is_ws c \<Longrightarrow> consume d (c # r) = (if c = d then (True, r) else (False, c # r))"
  by (simp add: consume_def skip_ws_Cons)

lemma not_ws [simp]:
  "\<not> is_ws (CHR '','')" "\<not> is_ws (CHR '']'')" "\<not> is_ws (CHR ''}'')" "\<not> is_ws (CHR ''['')"
  "\<not> is_ws (CHR ''{'')" "\<not> is_ws (CHR '':'')" "\<not> is_ws quote"
  by (simp_all add: is_ws_def)

lemma skip_ws_render_string [simp]: "skip_ws (render_string s @ r) = render_string s @ r"
  by (simp add: render_string_def skip_ws_Cons)

lemma render_string_start [simp]:
  "render_string s \<noteq> []" "hd (render_string s @ r) = quote" "render_string s @ r \<noteq> []"
  by (simp_all add: render_string_def)

lemma consume_render_string [simp]:
  "consume (CHR ''}'') (render_string s @ r) = (False, render_string s @ r)"
  by (simp add: render_string_def)

lemma ends_token_punctuation [simp]:
  "ends_token (CHR '','' # r)" "ends_token (CHR '']'' # r)" "ends_token (CHR ''}'' # r)" "ends_token []"
  by (simp_all add: ends_token_def is_digit_def)

definition reads_back :: "json \<Rightarrow> bool" where
  "reads_back v \<longleftrightarrow> wf_json v \<and> (\<forall>r. ends_token r \<longrightarrow> parse_value (render v @ r) = Inr (v, r))"

lemma parse_elements_render:
  assumes "\<forall>v\<in>set (v # vs). reads_back v"
  shows "parse_elements acc (render v @ concat (map (\<lambda>u. CHR '','' # u) (map render vs)) @ CHR '']'' # r)
     = Inr (JArray (acc @ v # vs), r)"
  using assms
proof (induction vs arbitrary: acc v)
  case Nil
  then show ?case by (subst parse_elements.simps) (simp add: reads_back_def)
next
  case (Cons w vs)
  then have "parse_elements (acc @ [v]) (render w @ concat (map (\<lambda>u. CHR '','' # u) (map render vs)) @ CHR '']'' # r)
     = Inr (JArray ((acc @ [v]) @ w # vs), r)"
    by (intro Cons.IH) simp
  with Cons.prems show ?case
    by (subst parse_elements.simps) (simp add: reads_back_def)
qed

lemma update_fresh: "k \<notin> fst ` set al \<Longrightarrow> AList.update k v al = al @ [(k, v)]"
  by (induction al) auto

lemma parse_members_render:
  assumes "\<forall>m\<in>set (m # ms). reads_back (snd m)"
    and "distinct (map fst (acc @ m # ms))"
  shows "parse_members acc (render_member (map_prod id render m)
      @ concat (map (\<lambda>u. CHR '','' # u) (map (render_member \<circ> map_prod id render) ms)) @ CHR ''}'' # r)
     = Inr (JObject (acc @ m # ms), r)"
  using assms
proof (induction ms arbitrary: acc m)
  case Nil
  then show ?case
    by (subst parse_members.simps)
      (auto simp: reads_back_def render_member_def parse_string_render update_fresh)
next
  case (Cons n ms)
  then have "parse_members (acc @ [m]) (render_member (map_prod id render n)
      @ concat (map (\<lambda>u. CHR '','' # u) (map (render_member \<circ> map_prod id render) ms)) @ CHR ''}'' # r)
     = Inr (JObject ((acc @ [m]) @ n # ms), r)"
    by (intro Cons.IH) auto
  with Cons.prems show ?case
    by (subst parse_members.simps)
      (auto simp: reads_back_def render_member_def parse_string_render update_fresh)
qed

lemma parse_array_render:
  assumes "\<forall>v\<in>set vs. reads_back v"
  shows "parse_array (bracketed (CHR ''['') (CHR '']'') (map render vs) @ r) = Inr (JArray vs, r)"
proof (cases vs)
  case Nil
  then show ?thesis by (simp add: parse_array.simps bracketed_def skip_ws_Cons)
next
  case (Cons v ws)
  with assms have "wf_json v" by (simp add: reads_back_def)
  with Cons show ?thesis
    using parse_elements_render [of v ws "[]" r] assms
    by (simp add: parse_array.simps bracketed_def consume_render)
qed

lemma parse_object_render:
  assumes "\<forall>m\<in>set kvs. reads_back (snd m)" "distinct (map fst kvs)"
  shows "parse_object (bracketed (CHR ''{'') (CHR ''}'') (map render_member (map (map_prod id render) kvs)) @ r)
     = Inr (JObject kvs, r)"
proof (cases kvs)
  case Nil
  then show ?thesis by (simp add: parse_object.simps bracketed_def skip_ws_Cons)
next
  case (Cons m ms)
  then have "consume (CHR ''}'') (render_member (map_prod id render m) @ u)
      = (False, render_member (map_prod id render m) @ u)" for u
    by (simp add: render_member_def)
  with Cons show ?thesis
    using parse_members_render [of m ms "[]" r] assms
    by (simp add: parse_object.simps bracketed_def)
qed

lemma value_starts [simp]:
  "parse_value (CHR ''['' # r) = parse_array (CHR ''['' # r)"
  "parse_value (CHR ''{'' # r) = parse_object (CHR ''{'' # r)"
  by (simp_all add: parse_value.simps skip_ws_Cons is_ws_def)

lemma parse_value_quote:
  "parse_value (render_string s @ r) =
     (case parse_string (render_string s @ r) of Inl e \<Rightarrow> Inl e | Inr (str, r') \<Rightarrow> Inr (JString str, r'))"
  by (simp add: parse_value.simps render_string_def skip_ws_Cons)

lemma parse_value_number:
  assumes "c = CHR ''-'' \<or> is_digit c"
  shows "parse_value (c # r) = parse_number (c # r)"
proof -
  have "c \<notin> {CHR ''{'', CHR ''['', quote, CHR ''t'', CHR ''f'', CHR ''n''}" "\<not> is_ws c"
    using assms by (auto simp: is_digit_def is_ws_def)
  with assms show ?thesis by (subst parse_value.simps) (simp add: skip_ws_Cons)
qed

lemma reads_back_all: "wf_json v \<Longrightarrow> reads_back v"
proof (induction v)
  case JNull
  show ?case by (simp add: reads_back_def parse_value.simps skip_ws_Cons is_ws_def parse_literal_def)
next
  case (JBool b)
  show ?case by (simp add: reads_back_def parse_value.simps skip_ws_Cons is_ws_def parse_literal_def)
next
  case (JInt i)
  obtain c cs where cs: "int_to_string i = c # cs" by (cases "int_to_string i") auto
  have "c = CHR ''-'' \<or> is_digit c"
    using cs nat_to_string_hd [of "nat i" c cs] by (auto simp: int_to_string_def split: if_splits)
  with cs have "parse_value (int_to_string i @ r) = parse_number (int_to_string i @ r)" for r
    by (simp add: parse_value_number)
  with JInt show ?case by (simp add: reads_back_def parse_number_int)
next
  case (JDouble t)
  obtain c cs where t: "t = c # cs" "c = CHR ''-'' \<or> is_digit c"
    "\<And>w. ends_token w \<Longrightarrow> parse_number (t @ w) = Inr (JDouble t, w)"
    by (rule double_token [OF JDouble]) blast
  then have "parse_value (t @ w) = parse_number (t @ w)" for w by (simp add: parse_value_number)
  with JDouble t(3) show ?case by (simp add: reads_back_def)
next
  case (JString str)
  then show ?case
    by (simp add: reads_back_def parse_value_quote parse_string_render)
next
  case (JArray vs)
  then have "\<forall>v\<in>set vs. reads_back v" by (simp add: list_all_iff)
  note array = parse_array_render [OF this]
  have "parse_value (render (JArray vs) @ r) = parse_array (bracketed (CHR ''['') (CHR '']'') (map render vs) @ r)" for r
    by (simp add: bracketed_def)
  with JArray.prems array show ?case by (simp add: reads_back_def)
next
  case (JObject kvs)
  then have all: "\<forall>m\<in>set kvs. reads_back (snd m)"
    by (fastforce simp: list_all_iff)
  have keys: "distinct (map fst kvs)" using JObject.prems by simp
  have "parse_value (render (JObject kvs) @ r) =
      parse_object (bracketed (CHR ''{'') (CHR ''}'') (map render_member (map (map_prod id render) kvs)) @ r)" for r
    by (simp add: bracketed_def)
  with JObject.prems parse_object_render [OF all keys] show ?case by (simp add: reads_back_def)
qed

lemma document_render:
  assumes "wf_json v"
  shows "parse_document (render v) = Inr v"
proof -
  have "\<forall>r. ends_token r \<longrightarrow> parse_value (render v @ r) = Inr (v, r)"
    using reads_back_all [OF assms] by (simp add: reads_back_def)
  from this [rule_format, of "[]"] have "parse_value (render v) = Inr (v, [])" by simp
  then show ?thesis
    using skip_ws_render [OF assms, of "[]"] by (simp add: parse_document_def)
qed

subsection \<open>Every value of the reader can be printed\<close>

lemma wf_update:
  assumes "wf_json (JObject kvs)" "wf_json v"
  shows "wf_json (JObject (AList.update k v kvs))"
proof -
  have "set (AList.update k v kvs) \<subseteq> insert (k, v) (set kvs)" by (induction kvs) auto
  then show ?thesis
    using assms distinct_update [of kvs k v] by (auto simp: list_all_iff)
qed

lemma parser_wf:
  "parse_value s1 = Inr (v, r) \<Longrightarrow> wf_json v"
  "parse_object s2 = Inr (v, r) \<Longrightarrow> wf_json v"
  "wf_json (JObject kvs) \<Longrightarrow> parse_members kvs s3 = Inr (v, r) \<Longrightarrow> wf_json v"
  "parse_array s4 = Inr (v, r) \<Longrightarrow> wf_json v"
  "wf_json (JArray vs) \<Longrightarrow> parse_elements vs s5 = Inr (v, r) \<Longrightarrow> wf_json v"
proof (induction s1 and s2 and kvs s3 and s4 and vs s5
    arbitrary: v r and v r and v r and v r and v r rule: parse_induct)
  case (1 s)
  have "wf_json v" if "parse_number t = Inr (v, r)" for t
    using that
  proof (rule parse_number_token)
    fix p assume "\<forall>t. v = JDouble t \<longrightarrow> t = p" "\<And>w. ends_token w \<Longrightarrow> parse_number (p @ w) = Inr (v, w)"
    from this(1) this(2) [of "[]"] show "wf_json v"
      using parse_number_result [OF that] by auto
  qed
  with 1(1,2) 1(3) [unfolded parse_value.simps [of s]] show ?case
    by (auto simp: parse_literal_def split: list.splits if_splits sum.splits prod.splits)
next
  case (2 s)
  then show ?case by (auto simp: parse_object.simps split: prod.splits bool.splits)
next
  case (3 kvs s)
  let ?s1 = "skip_ws s"
  obtain key s2 where key: "parse_string ?s1 = Inr (key, s2)" and quoted: "\<not> (?s1 = [] \<or> hd ?s1 \<noteq> quote)"
    using 3(4) by (auto simp: parse_members.simps [of kvs s] Let_def split: if_splits sum.splits)
  obtain s3 where s3: "consume (CHR '':'') s2 = (True, s3)"
    using 3(4) key quoted by (auto simp: parse_members.simps [of kvs s] Let_def split: prod.splits bool.splits)
  obtain w s4 where w: "parse_value s3 = Inr (w, s4)"
    using 3(4) key quoted s3 by (auto simp: parse_members.simps [of kvs s] Let_def split: sum.splits)
  have wf: "wf_json (JObject (AList.update key w kvs))"
    using 3(3) 3(1) [OF refl quoted key refl s3 [symmetric] refl w] by (rule wf_update)
  obtain b s5 where c: "consume (CHR ''}'') s4 = (b, s5)" by fastforce
  show ?case
  proof (cases b)
    case True
    then show ?thesis using 3(4) key quoted s3 w c wf by (auto simp: parse_members.simps [of kvs s] Let_def)
  next
    case False
    with 3(4) key quoted s3 w c obtain s6 where s6: "consume (CHR '','') s5 = (True, s6)"
      and rest: "parse_members (AList.update key w kvs) s6 = Inr (v, r)"
      by (auto simp: parse_members.simps [of kvs s] Let_def split: prod.splits bool.splits)
    from c False have c': "(False, s5) = consume (CHR ''}'') s4" by simp
    show ?thesis
      by (rule 3(2) [OF refl quoted key refl s3 [symmetric] refl w refl refl c' refl s6 [symmetric] refl wf rest])
  qed
next
  case (4 s)
  then show ?case by (auto simp: parse_array.simps split: prod.splits bool.splits)
next
  case (5 vs s)
  obtain w s1 where w: "parse_value s = Inr (w, s1)"
    using 5(4) by (auto simp: parse_elements.simps [of vs s] split: sum.splits)
  obtain b s2 where c: "consume (CHR '']'') s1 = (b, s2)" by fastforce
  have wf: "wf_json (JArray (vs @ [w]))" using 5(1) [OF w] 5(3) by simp
  show ?case
  proof (cases b)
    case True
    then show ?thesis using 5(4) w c wf by (auto simp: parse_elements.simps [of vs s])
  next
    case False
    with 5(4) w c obtain s3 where s3: "consume (CHR '','') s2 = (True, s3)"
      and rest: "parse_elements (vs @ [w]) s3 = Inr (v, r)"
      by (auto simp: parse_elements.simps [of vs s] split: prod.splits bool.splits)
    from c False have c': "(False, s2) = consume (CHR '']'') s1" by simp
    show ?thesis
      by (rule 5(2) [OF w refl c' refl s3 [symmetric] refl wf rest])
  qed
qed

lemma parse_document_wf: "parse_document s = Inr v \<Longrightarrow> wf_json v"
  by (auto simp: parse_document_def split: sum.splits prod.splits if_splits dest: parser_wf(1))

text \<open>
  C20: The reader accepts the printed form of every value and gives back that very value, at any
  depth, with every string, the integers of an \<open>int64_t\<close>, the floating point numbers as their
  tokens and the members of an object in any order. \<open>wf_json\<close> asks for what the C++ types
  give (64-bit integers, distinct keys, tokens that the reader takes for a floating point number)
  and for no more: every value that the reader makes from some text satisfies it, so whatever the
  reader accepts can be printed and read again without loss.
\<close>

theorem json_round_trip:
  "(wf_json v \<longrightarrow> parse_json (render v) = Some v) \<and> (parse_json body = Some v \<longrightarrow> wf_json v)"
  using document_render [of v] parse_document_wf [of body v] by (auto simp: parse_json_def split: sum.splits)

definition demo_value :: json where
  "demo_value = JObject [(''a\"b'', JArray [JInt (- 9223372036854775808), JBool True, JNull]),
     (''c'', JObject [(''d'', JString [newline, CHR 0x5C, CHR 0x08, CHR 0x1F]), (''a'', JDouble ''-1.5e3'')])]"

theorem json_round_trip_witness:
  "wf_json demo_value \<and> parse_json (render demo_value) = Some demo_value"
proof -
  have "wf_json (JDouble ''-1.5e3'')"
    by (simp add: parse_number_def scan_number_def scan_integer_def scan_fraction_def scan_exponent_def
        strtod_is_finite_def strtod_mantissa_def strtod_exponent_def signed_digits_def is_digit_def
        digits_value_def digit_value_def)
  then have "wf_json demo_value" by (simp add: demo_value_def in_i64_def)
  then show ?thesis using json_round_trip [of demo_value "[]"] by blast
qed

fun nested :: "nat \<Rightarrow> json" where
  "nested 0 = JArray []"
| "nested (Suc n) = JArray [nested n]"

lemma nested_rendered: "wf_json (nested n)" "render (nested n) = replicate (Suc n) (CHR ''['') @ replicate (Suc n) (CHR '']'')"
  by (induction n) (simp_all add: bracketed_def replicate_append_same)

text \<open>
  The reader sets no limit to the depth of nesting: one level of recursion is entered for
  every opening bracket of the text, for any number of them, so a payload decides how deep the
  stack of the program grows.
\<close>

theorem nesting_is_unbounded:
  "parse_json (replicate (Suc n) (CHR ''['') @ replicate (Suc n) (CHR '']'')) = Some (nested n)"
  using document_render [OF nested_rendered(1), of n] by (simp add: parse_json_def nested_rendered(2))

text \<open>
  What \<open>json_escape\<close> writes between quotes is a string of the reader's grammar, and reading
  it gives the text back with every other control character replaced by a question mark.
\<close>

theorem escaped_text_reads_back:
  "parse_string (quote # json_escape s @ quote # r) = Inr (map printable_char s, r)"
  by (rule parse_string_escape)

end
