(* ===== verification/Resolver_Properties.thy ===== *)
theory Resolver_Properties
  imports Live_Pipeline Json_Facts
begin

unbundle bit_operations_syntax

text \<open>
  Properties of the normalised state and of the semantic layer that hold over all runs of the
  pipeline: the agreement of the public context with the members, the harmlessness of late
  and invalid observations, the identity gate, and two behaviours at the edge.
\<close>

subsection \<open>The context\<close>

lemma resolver_inv_step: "resolver_inv r \<Longrightarrow> resolver_inv (snd (resolver_step r x))"
  by (cases x) (simp_all add: case_prod_beta process_gsi_inv process_supplementary_inv)

lemma resolver_inv_run: "resolver_inv r \<Longrightarrow> resolver_inv (snd (run resolver_step r xs))"
  by (induction xs arbitrary: r) (simp_all add: Let_def case_prod_beta resolver_inv_step)

lemma process_item_resolver:
  "\<exists>xs. pr_resolver (snd (process_item pr item)) = snd (run resolver_step (pr_resolver pr) xs)"
proof (cases item)
  case (PendingGsi p)
  let ?st = "normalize_gsi (pp_body p) (pp_sequence p) (pp_relative_us p)"
  show ?thesis
  proof (cases "gs_payload_valid ?st")
    case True
    then have "pr_resolver (snd (process_item pr item)) =
        snd (run resolver_step (pr_resolver pr) [GsiInput ?st (fst (process (pr_detector pr) ?st))])"
      using PendingGsi by (simp add: process_item_def Let_def case_prod_beta)
    then show ?thesis by blast
  next
    case False
    then have "pr_resolver (snd (process_item pr item)) = snd (run resolver_step (pr_resolver pr) [])"
      using PendingGsi by (simp add: process_item_def Let_def case_prod_beta)
    then show ?thesis by blast
  qed
next
  case (PendingSupplementary sn)
  then have "pr_resolver (snd (process_item pr item)) =
      snd (run resolver_step (pr_resolver pr) [SupplementInput sn])"
    by (auto simp: process_item_def Let_def case_prod_beta)
  then show ?thesis by blast
qed

lemma resolver_inv_items:
  "resolver_inv (pr_resolver pr) \<Longrightarrow> resolver_inv (pr_resolver (snd (run process_item pr items)))"
proof (induction items arbitrary: pr)
  case (Cons item items)
  obtain xs where "pr_resolver (snd (process_item pr item)) = snd (run resolver_step (pr_resolver pr) xs)"
    using process_item_resolver by blast
  with Cons show ?case by (simp add: Let_def case_prod_beta resolver_inv_run)
qed simp

lemma resolver_inv_pipeline: "resolver_inv (pr_resolver (snd (run process_item init_processor items)))"
  by (rule resolver_inv_items) (simp add: init_processor_def resolver_inv_init)

text \<open>
  C18: Whatever has been submitted, the public context of the resolver is coherent: a clutch is
  shown with its opponents exactly while one runs, and only against at least one; the alive
  difference is that of the two counts; no count is shown that is negative or larger than
  its total; a scored round is active exactly when it is live.
\<close>

theorem context_is_coherent:
  "let r = pr_resolver (snd (run process_item init_processor items)); cx = rs_context r in
     cx_clutch_active cx = (cx_clutch_opponents cx \<noteq> None)
     \<and> cx_clutch_opponents cx = rs_last_clutch_enemy_alive r
     \<and> cx_clutch_opponents cx \<notin> Some ` {..0}
     \<and> cx_alive_delta cx = alive_difference (cx_local_alive cx) (cx_enemy_alive cx)
     \<and> alive_fits_total (cx_local_alive cx) (cx_local_total cx)
     \<and> alive_fits_total (cx_enemy_alive cx) (cx_enemy_total cx)
     \<and> valid_nonnegative (cx_local_alive cx) \<and> valid_nonnegative (cx_enemy_alive cx)
     \<and> (cx_scored_round_active cx = (cx_lifecycle cx = PhaseLiveRound))"
  using resolver_inv_pipeline [of items]
  by (simp add: resolver_inv_def clutch_inv_def context_inv_def Let_def)

subsection \<open>Evidence\<close>

text \<open>What kind of evidence an event claims, and from which sources.\<close>

definition evidenced :: "event \<Rightarrow> bool" where
  "evidenced e \<longleftrightarrow>
     (if ev_type e \<in> semantic_types
      then ev_evidence e = Deterministic \<and> ev_sources e = src_gsi OR src_supplementary
      else if ev_type e = AceCandidate
      then ev_evidence e = ModeAssumption \<and> ev_sources e = src_gsi OR src_mode_rules
      else ev_evidence e = Deterministic \<and> ev_sources e = src_gsi)"

fun evidenced_input :: "resolver_input \<Rightarrow> bool" where
  "evidenced_input (GsiInput st fs) = list_all evidenced fs"
| "evidenced_input (SupplementInput sn) = True"

lemma push_end_clutch_evidenced: "list_all evidenced (fst (push_end_clutch r t))"
  by (simp add: push_end_clutch_def end_clutch_def evidenced_def make_semantic_event_def)

lemma advance_clutch_evidenced: "list_all evidenced (fst (advance_clutch r t n))"
  by (simp add: advance_clutch_def evidenced_def make_semantic_event_def Let_def)

lemma evaluate_clutch_evidenced: "list_all evidenced (fst (evaluate_clutch r t))"
  by (rule evaluate_clutch_cases [of r t]) (auto simp: push_end_clutch_evidenced advance_clutch_evidenced)

lemma evaluate_ace_evidenced: "list_all evidenced (fst (evaluate_ace r t))"
  by (rule evaluate_ace_cases [of r t]) (auto simp: evidenced_def make_semantic_event_def)

lemma fuse_supplement_evidenced: "list_all evidenced (fst (fuse_supplement r sn t))"
  by (simp add: fuse_supplement_def Let_def case_prod_beta evaluate_clutch_evidenced evaluate_ace_evidenced)

lemma process_gsi_evidenced: "list_all evidenced (fst (process_gsi r st fs))"
  by (simp add: process_gsi_def fuse_current_supplement_def close_round_def case_prod_beta
      fuse_supplement_evidenced push_end_clutch_evidenced)

lemma process_supplementary_evidenced: "list_all evidenced (fst (process_supplementary r sn))"
  by (simp add: process_supplementary_def fuse_supplement_evidenced Let_def)

lemma resolver_step_evidenced: "evidenced_input x \<Longrightarrow> list_all evidenced (fst (resolver_step r x))"
  by (cases x) (simp_all add: case_prod_beta process_gsi_evidenced process_supplementary_evidenced)

interpretation semantic: transducer resolver_step resolver_inv evidenced_input evidenced
  by unfold_locales (erule resolver_inv_step, erule resolver_step_evidenced)

lemma factual_evidenced: "list_all evidenced (fst (process d cur))"
  by (auto simp: list_all_iff evidenced_def factual_provenance_def dest!: process_provenance split: if_splits)

lemma resolver_inputs_evidenced: "list_all evidenced_input (resolver_inputs d items)"
  by (induction d items rule: resolver_inputs.induct)
    (auto simp: item_inputs_def Let_def factual_evidenced split: pending_item.splits)

text \<open>
  C22: Every event says truly where it comes from: ACE and the clutch events are deterministic and
  name GSI and the supplementary source, an ACE candidate is a mode assumption from GSI and
  mode rules, and every other event is deterministic and from GSI alone.
\<close>

theorem events_name_their_evidence:
  "list_all evidenced (pipeline_events items)"
  unfolding pipeline_events_resolver
  using semantic.run_inv_out [OF resolver_inv_init resolver_inputs_evidenced] by blast

subsection \<open>Late and invalid observations\<close>

text \<open>
  C19: A supplementary snapshot that is invalid, or older than the last one or than the last
  game state, has no effect at all after any run: no event and no change of the resolver.
\<close>

theorem late_observation_ignored:
  assumes "late_or_invalid (pr_resolver (snd (run process_item init_processor items))) sn"
  shows "process_supplementary (pr_resolver (snd (run process_item init_processor items))) sn =
     ([], pr_resolver (snd (run process_item init_processor items)))"
proof -
  have "supplement_inv (pr_resolver (snd (run process_item init_processor items)))"
    using resolver_inv_pipeline [of items] by (simp add: resolver_inv_def)
  from process_supplementary_cases [OF this] assms show ?thesis by simp
qed

theorem late_observation_ignored_witness:
  "fst (process_supplementary (pr_resolver (snd (run process_item init_processor ace_items))) (ace_snapshot 3 49 1)) = []"
proof -
  have "late_or_invalid (pr_resolver (snd (run process_item init_processor ace_items))) (ace_snapshot 3 49 1)"
    by code_simp
  from late_observation_ignored [OF this] show ?thesis by simp
qed

subsection \<open>The identity gate\<close>

text \<open>
  The states that \<open>normalize_gsi\<close> can return: every member is a value of its C++ type (the
  counters an \<open>int\<close>, the provider's timestamp an \<open>int64_t\<close>), the numbers of the player are
  there only behind the identity gate, and a state of an unreadable payload is empty.
\<close>

definition gate_closed_or_local :: "game_state \<Rightarrow> bool" where
  "gate_closed_or_local st \<longleftrightarrow>
     (gs_local_player_valid st \<or> list_all (\<lambda>x. x = None) (local_stats st)) \<and>
     gs_local_player_valid st = opt_rel (=) (gs_provider_steamid st) (gs_observed_steamid st)"

definition gated_state :: "game_state \<Rightarrow> bool" where
  "gated_state st \<longleftrightarrow>
     wf_state st \<and> pred_option in_i64 (gs_provider_timestamp st) \<and> gate_closed_or_local st \<and>
     (gs_payload_valid st \<or> st = empty_state (gs_sequence st) (gs_relative_us st))"

text \<open>A payload that carries a given state, with \<open>null\<close> for what the state does not know.\<close>

definition opt_string :: "string option \<Rightarrow> json" where
  "opt_string x = (case x of None \<Rightarrow> JNull | Some s \<Rightarrow> JString s)"

definition opt_int :: "int option \<Rightarrow> json" where
  "opt_int x = (case x of None \<Rightarrow> JNull | Some i \<Rightarrow> JInt i)"

definition provider_json :: "game_state \<Rightarrow> json" where
  "provider_json st = JObject [(''steamid'', opt_string (gs_provider_steamid st)),
     (''timestamp'', opt_int (gs_provider_timestamp st))]"

definition score_json :: "i32 option \<Rightarrow> json" where
  "score_json x = JObject [(''score'', opt_int x)]"

definition map_json :: "game_state \<Rightarrow> json" where
  "map_json st = JObject [(''name'', opt_string (gs_map_name st)), (''mode'', opt_string (gs_map_mode st)),
     (''phase'', opt_string (gs_map_phase st)), (''round'', opt_int (gs_map_round st)),
     (''team_ct'', score_json (gs_ct_score st)), (''team_t'', score_json (gs_t_score st))]"

definition round_json :: "game_state \<Rightarrow> json" where
  "round_json st = JObject [(''phase'', opt_string (gs_round_phase st)),
     (''win_team'', opt_string (gs_round_winner st)), (''bomb'', opt_string (gs_bomb_state st))]"

definition stats_json :: "game_state \<Rightarrow> json" where
  "stats_json st = JObject [(''health'', opt_int (gs_health st)), (''armor'', opt_int (gs_armor st)),
     (''money'', opt_int (gs_money st)), (''equip_value'', opt_int (gs_equipment_value st)),
     (''flashed'', opt_int (gs_flashed st)), (''smoked'', opt_int (gs_smoked st)),
     (''burning'', opt_int (gs_burning st)), (''round_kills'', opt_int (gs_round_kills st)),
     (''round_killhs'', opt_int (gs_round_headshot_kills st))]"

definition match_json :: "game_state \<Rightarrow> json" where
  "match_json st = JObject [(''kills'', opt_int (gs_kills st)), (''assists'', opt_int (gs_assists st)),
     (''deaths'', opt_int (gs_deaths st)), (''mvps'', opt_int (gs_mvps st)), (''score'', opt_int (gs_score st))]"

definition player_json :: "game_state \<Rightarrow> json" where
  "player_json st = JObject [(''steamid'', opt_string (gs_observed_steamid st)),
     (''team'', opt_string (gs_player_team st)), (''activity'', opt_string (gs_player_activity st)),
     (''state'', stats_json st), (''match_stats'', match_json st)]"

definition payload_of :: "game_state \<Rightarrow> json" where
  "payload_of st = JObject [(''provider'', provider_json st), (''map'', map_json st),
     (''round'', round_json st), (''player'', player_json st)]"

lemma read_member:
  "read_string (JObject kvs) (k # ks) = (case map_of kvs k of None \<Rightarrow> None | Some v \<Rightarrow> read_string v ks)"
  "read_int (JObject kvs) (k # ks) = (case map_of kvs k of None \<Rightarrow> None | Some v \<Rightarrow> read_int v ks)"
  "read_i64 (JObject kvs) (k # ks) = (case map_of kvs k of None \<Rightarrow> None | Some v \<Rightarrow> read_i64 v ks)"
  by (simp_all add: read_string_def read_int_def read_i64_def json_get_def split: option.splits)

lemma read_opt:
  "read_string (opt_string x) [] = x" "read_int (opt_int y) [] = map_option wrap_i32 y" "read_i64 (opt_int y) [] = y"
  by (simp_all add: read_string_def read_int_def read_i64_def opt_string_def opt_int_def split: option.splits)

lemmas payload_sections =
  payload_of_def provider_json_def map_json_def round_json_def player_json_def stats_json_def match_json_def
  score_json_def

lemma payload_strings:
  "read_string (payload_of st) [''provider'', ''steamid''] = gs_provider_steamid st"
  "read_string (payload_of st) [''map'', ''name''] = gs_map_name st"
  "read_string (payload_of st) [''map'', ''mode''] = gs_map_mode st"
  "read_string (payload_of st) [''map'', ''phase''] = gs_map_phase st"
  "read_string (payload_of st) [''round'', ''phase''] = gs_round_phase st"
  "read_string (payload_of st) [''round'', ''win_team''] = gs_round_winner st"
  "read_string (payload_of st) [''round'', ''bomb''] = gs_bomb_state st"
  "read_string (payload_of st) [''player'', ''steamid''] = gs_observed_steamid st"
  "read_string (payload_of st) [''player'', ''team''] = gs_player_team st"
  "read_string (payload_of st) [''player'', ''activity''] = gs_player_activity st"
  "read_i64 (payload_of st) [''provider'', ''timestamp''] = gs_provider_timestamp st"
  by (simp_all add: payload_sections read_member read_opt)

lemma payload_ints:
  "read_int (payload_of st) [''map'', ''round''] = map_option wrap_i32 (gs_map_round st)"
  "read_int (payload_of st) [''map'', ''team_ct'', ''score''] = map_option wrap_i32 (gs_ct_score st)"
  "read_int (payload_of st) [''map'', ''team_t'', ''score''] = map_option wrap_i32 (gs_t_score st)"
  "read_int (payload_of st) [''player'', ''state'', ''health''] = map_option wrap_i32 (gs_health st)"
  "read_int (payload_of st) [''player'', ''state'', ''armor''] = map_option wrap_i32 (gs_armor st)"
  "read_int (payload_of st) [''player'', ''state'', ''money''] = map_option wrap_i32 (gs_money st)"
  "read_int (payload_of st) [''player'', ''state'', ''equip_value''] = map_option wrap_i32 (gs_equipment_value st)"
  "read_int (payload_of st) [''player'', ''state'', ''flashed''] = map_option wrap_i32 (gs_flashed st)"
  "read_int (payload_of st) [''player'', ''state'', ''smoked''] = map_option wrap_i32 (gs_smoked st)"
  "read_int (payload_of st) [''player'', ''state'', ''burning''] = map_option wrap_i32 (gs_burning st)"
  "read_int (payload_of st) [''player'', ''state'', ''round_kills''] = map_option wrap_i32 (gs_round_kills st)"
  "read_int (payload_of st) [''player'', ''state'', ''round_killhs''] = map_option wrap_i32 (gs_round_headshot_kills st)"
  "read_int (payload_of st) [''player'', ''match_stats'', ''kills''] = map_option wrap_i32 (gs_kills st)"
  "read_int (payload_of st) [''player'', ''match_stats'', ''assists''] = map_option wrap_i32 (gs_assists st)"
  "read_int (payload_of st) [''player'', ''match_stats'', ''deaths''] = map_option wrap_i32 (gs_deaths st)"
  "read_int (payload_of st) [''player'', ''match_stats'', ''mvps''] = map_option wrap_i32 (gs_mvps st)"
  "read_int (payload_of st) [''player'', ''match_stats'', ''score''] = map_option wrap_i32 (gs_score st)"
  by (simp_all add: payload_sections read_member read_opt)

lemma wf_opt_json [simp]: "wf_json (opt_string x)" "wf_json (opt_int y) = pred_option in_i64 y"
  by (simp_all add: opt_string_def opt_int_def split: option.splits)

lemma int_fields_fit:
  assumes "wf_state st"
  shows "list_all (\<lambda>x. map_option wrap_i32 x = x \<and> pred_option in_i64 x) (int_fields st)"
proof -
  have "map_option wrap_i32 x = x \<and> pred_option in_i64 x" if "x \<in> set (int_fields st)" for x
    using assms that by (cases x) (force simp: wf_state_def in_i32_def in_i64_def wrap_i32_id)+
  then show ?thesis by (simp add: list_all_iff)
qed

lemma wf_payload:
  assumes "gated_state st"
  shows "wf_json (payload_of st)"
proof -
  have fit: "list_all (\<lambda>x. map_option wrap_i32 x = x \<and> pred_option in_i64 x) (int_fields st)"
    "pred_option in_i64 (gs_provider_timestamp st)"
    using assms by (simp_all add: gated_state_def int_fields_fit)
  then have sections: "wf_json (provider_json st)" "wf_json (map_json st)" "wf_json (round_json st)"
    "wf_json (stats_json st)" "wf_json (match_json st)"
    by (simp_all add: provider_json_def map_json_def round_json_def stats_json_def match_json_def score_json_def
        int_fields_def local_stats_def)
  then have "wf_json (player_json st)" by (simp add: player_json_def)
  with sections show ?thesis by (simp add: payload_of_def)
qed

lemma normalize_payload:
  assumes "gated_state st" "gs_payload_valid st"
  shows "normalize_root (payload_of st) (gs_sequence st) (gs_relative_us st) = st"
proof -
  have fit: "list_all (\<lambda>x. map_option wrap_i32 x = x \<and> pred_option in_i64 x) (int_fields st)"
    and gate: "gate_closed_or_local st"
    using assms by (simp_all add: gated_state_def int_fields_fit)
  note ints = payload_ints fit [unfolded int_fields_def local_stats_def append.simps list.pred_inject]
  show ?thesis
  proof (cases "gs_local_player_valid st")
    case True
    then have "same_steamid (gs_provider_steamid st) (gs_observed_steamid st)"
      using gate by (simp add: same_steamid_def gate_closed_or_local_def)
    with True show ?thesis
      using assms(2) ints
      by (intro game_state.equality)
        (simp_all add: normalize_root_def with_local_stats_def empty_state_def Let_def payload_strings)
  next
    case False
    then have "\<not> same_steamid (gs_provider_steamid st) (gs_observed_steamid st)"
      and "list_all (\<lambda>x. x = None) (local_stats st)"
      using gate by (simp_all add: same_steamid_def gate_closed_or_local_def)
    with False show ?thesis
      using assms(2) ints
      by (intro game_state.equality)
        (simp_all add: normalize_root_def with_local_stats_def empty_state_def Let_def payload_strings local_stats_def)
  qed
qed

lemma find_path_wf: "wf_json v \<Longrightarrow> find_path v path = Some w \<Longrightarrow> wf_json w"
proof (induction v path rule: find_path.induct)
  case (2 current key keys)
  then obtain u where u: "json_get current key = Some u" "find_path u keys = Some w"
    by (auto split: option.splits)
  from u(1) obtain kvs where "current = JObject kvs" "map_of kvs key = Some u"
    by (cases current) (simp_all add: json_get_def)
  moreover from this(2) have "(key, u) \<in> set kvs" by (rule map_of_SomeD)
  ultimately have "wf_json u" using 2(2) by (auto simp: list_all_iff)
  with 2 u show ?case by blast
qed simp

lemma read_i64_in_i64: "wf_json v \<Longrightarrow> pred_option in_i64 (read_i64 v path)"
  using find_path_wf [of v path "JInt _"] by (auto simp: read_i64_def split: option.splits json.splits)

lemma gated_normalize_gsi: "gated_state (normalize_gsi body q t)"
proof -
  have root: "gated_state (normalize_root root q t)" if "wf_json root" for root
    using wf_normalize_root read_i64_in_i64 [OF that]
    by (simp add: gated_state_def gate_closed_or_local_def)
      (simp add: normalize_root_def with_local_stats_def local_stats_def empty_state_def same_steamid_def Let_def)
  have empty: "gated_state (empty_state q t)"
    by (simp add: gated_state_def gate_closed_or_local_def) (simp add: local_stats_def empty_state_def)
  show ?thesis
    using root empty parse_document_wf
    by (auto simp: normalize_gsi_def parse_json_def split: option.splits json.splits sum.splits)
qed

text \<open>
  C21: The normalised states are exactly the gated ones: whatever text is posted, the counters of the
  state lie in the range of an \<open>int\<close> and the timestamp in that of an \<open>int64_t\<close>, no number of
  a player is taken from a payload that does not name the same Steam identity as provider and as
  observed player (spectated players never reach the event layers), and an unreadable payload
  leaves every member empty. Conversely every gated state is read, member by member, from the
  payload that carries it.
\<close>

theorem normalized_state_is_gated:
  "gated_state (normalize_gsi body sequence relative_us)
   \<and> (gated_state st \<and> gs_payload_valid st \<longrightarrow>
        normalize_gsi (render (payload_of st)) (gs_sequence st) (gs_relative_us st) = st)"
proof (intro conjI impI)
  assume st: "gated_state st \<and> gs_payload_valid st"
  then have "parse_json (render (payload_of st)) = Some (payload_of st)"
    by (simp add: parse_json_def document_render wf_payload)
  then show "normalize_gsi (render (payload_of st)) (gs_sequence st) (gs_relative_us st) = st"
    using normalize_payload st by (simp add: normalize_gsi_def payload_of_def)
qed (rule gated_normalize_gsi)

definition known_state :: game_state where
  "known_state = (empty_state 7 1000)\<lparr>
     gs_payload_valid := True, gs_provider_steamid := Some ''76'', gs_observed_steamid := Some ''76'',
     gs_local_player_valid := True, gs_provider_timestamp := Some 9223372036854775807,
     gs_map_name := Some ''de_dust2'', gs_health := Some 100, gs_round_kills := Some (- 2147483648)\<rparr>"

theorem normalized_state_is_gated_witness:
  "gated_state known_state \<and> normalize_gsi (render (payload_of known_state)) 7 1000 = known_state"
proof -
  have "gated_state known_state"
    by (simp add: gated_state_def wf_state_def int_fields_def local_stats_def gate_closed_or_local_def
        known_state_def empty_state_def in_i32_def in_i64_def)
  moreover have "gs_payload_valid known_state" "gs_sequence known_state = 7" "gs_relative_us known_state = 1000"
    by (simp_all add: known_state_def)
  ultimately show ?thesis using normalized_state_is_gated [of "[]" 1 2 known_state] by metis
qed

subsection \<open>Two edges\<close>

definition kills_json :: "i64 \<Rightarrow> json" where
  "kills_json i = JObject [(''provider'', JObject [(''steamid'', JString ''1'')]),
     (''player'', JObject [(''steamid'', JString ''1''), (''state'', JObject [(''round_kills'', JInt i)])])]"

text \<open>
  A number of a payload that does not fit an \<open>int\<close> is not refused but loses its upper bits:
  for every 64-bit value of the round kills the state holds its low 32 bits as a signed number.
\<close>

theorem large_counters_wrap:
  assumes "in_i64 i"
  shows "gs_round_kills (normalize_gsi (render (kills_json i)) sequence relative_us) = Some (wrap_i32 i)"
proof -
  have "wf_json (kills_json i)" using assms by (simp add: kills_json_def)
  then have "parse_json (render (kills_json i)) = Some (kills_json i)"
    by (simp add: parse_json_def document_render)
  then show ?thesis
    by (simp add: normalize_gsi_def kills_json_def normalize_root_def with_local_stats_def empty_state_def
        read_int_def read_string_def json_get_def same_steamid_def Let_def)
qed

theorem large_counters_wrap_witness:
  "gs_round_kills (normalize_gsi (render (kills_json 4294967298)) 1 2) = Some 2
   \<and> gs_round_kills (normalize_gsi (render (kills_json 2147483648)) 1 2) = Some (- 2147483648)"
  using large_counters_wrap [of 4294967298 1 2] large_counters_wrap [of 2147483648 1 2]
  by (simp add: in_i64_def wrap_i32_def)

definition empty_roster :: "u64 \<Rightarrow> u64 \<Rightarrow> snapshot" where
  "empty_roster q t = (ace_snapshot q t 0)\<lparr>sn_teams :=
     \<lparr>tc_ct_alive = Some 2, tc_t_alive = Some 0, tc_ct_total = Some 2, tc_t_total = Some 0\<rparr>\<rparr>"

definition lonely_items :: "pending_item list" where
  "lonely_items = [
     PendingGsi \<lparr>pp_sequence = 1, pp_relative_us = 10, pp_body = ace_body ''freezetime'' ''0''\<rparr>,
     PendingSupplementary (empty_roster 1 20),
     PendingGsi \<lparr>pp_sequence = 2, pp_relative_us = 30, pp_body = ace_body ''live'' ''0''\<rparr>,
     PendingSupplementary (empty_roster 2 40)]"

text \<open>
  An ACE needs no kill: when the roster shows no enemy at all, the totals, the kills and the
  alive count agree on zero and the round is reported as an ACE of value 0.
\<close>

theorem ace_without_enemies:
  "map ev_type (pipeline_events lonely_items) =
     [MatchEntered, LocalPlayerAcquired, FreezeEnded, RoundStarted, Ace]
   \<and> ev_value (last (pipeline_events lonely_items)) = Some 0"
  by code_simp

end
