(* ===== verification/Spec2Isabelle.thy ===== *)
theory Spec2Isabelle
  imports Record_Total Record_Ended Regressions Session_Directory Cli_Facts Stream_Order Replay_Pacing Resolver_Properties Json_Facts Detector_Facts Edition
begin

text \<open>
  \<^bold>\<open>CSPromator: verification development.\<close>

  \<^bold>\<open>The program.\<close> CSPromator listens for the game state integration (GSI) of Counter-Strike 2.
  A local HTTP server (\<open>src/http_server.cpp\<close>) receives JSON payloads, answers at once and hands
  each body to a gate (\<open>telemetry_ingress.cpp\<close>). Under one mutex the gate gives it to the session
  recorder (\<open>session.cpp\<close>), which numbers it and writes it to disk on a thread of its own, and to
  the live event pipeline (\<open>live_event_pipeline.cpp\<close>), which on a second thread normalises the
  payload (\<open>game_state.cpp\<close>), detects factual events (\<open>event_detector.cpp\<close>) and fuses them with
  supplementary team counts (\<open>supplementary_state.cpp\<close>) into semantic events
  (\<open>semantic_resolver.cpp\<close>). The command line (\<open>main.cpp\<close>) records, replays and analyzes sessions;
  the editions (\<open>edition.cpp\<close>) say which capabilities are active.

  \<^bold>\<open>Which theory models what.\<close> Records carry a prefix for their component; the fields are the
  members of the class or struct.
  \<^item> \<open>Prelude\<close>, \<open>Decimal\<close>, \<open>Console\<close>, \<open>Transducer\<close>, \<open>Fifo_Worker\<close>: shared vocabulary, printed integers and
    \<open>double\<close> values, and the contracts. \<open>transducer\<close>, \<open>simulated\<close> and \<open>monitored\<close> speak of machines that answer an input
    with a list of outputs (an invariant, or an automaton that reads the outputs); \<open>fifo_worker\<close>
    of an object whose clients append to a queue that one thread works off.
  \<^item> \<open>Json\<close> (\<open>JsonParser\<close>), \<open>Game_State\<close> (\<open>normalize_gsi\<close>), \<open>Json_Facts\<close>: parser and normalisation
    with every failure a value; a reference printer whose output the parser inverts, on exactly the
    values that the parser can make (\<open>wf_json\<close>).
  \<^item> \<open>Events\<close>, \<open>Event_Detector\<close>, \<open>Detector_Lifecycle\<close>, \<open>Detector_Facts\<close>: \<open>EventDetector::process\<close> block
    by block; the protocols that its stream obeys and the exact conditions of single events.
  \<^item> \<open>Supplementary\<close>, \<open>Resolver\<close>, \<open>Resolver_Facts\<close>, \<open>Resolver_Protocol\<close>, \<open>Resolver_Evidence\<close>,
    \<open>Resolver_Properties\<close>: team counts, one definition per member function of \<open>SemanticResolver\<close>,
    its invariant, the clutch protocol, one ACE per round, the evidence behind an ACE, and the
    independence of the source label; the exact set of the normalised states.
  \<^item> \<open>Live_Pipeline\<close>: \<open>LiveEventPipeline\<close>. \<open>process_item\<close> is the body of the worker's loop,
    \<open>worker_turn\<close> one turn of the thread, \<open>pipeline_step\<close> any interleaving of clients and worker.
  \<^item> \<open>Clock\<close>: \<open>MonotonicClock\<close> in both builds, and the session time in exact binary64 arithmetic.
  \<^item> \<open>Session_Text\<close>, \<open>Session_Directory\<close>, \<open>Recorder\<close>, \<open>Recorder_Start\<close>, \<open>Recorder_Facts\<close>, \<open>Recorder_Flush\<close>:
    \<open>SessionRecorder\<close> with its constructor, its directory and its files, the abstract contents they
    refine, numbering, shutdown and failed writes.
  \<^item> \<open>Replay\<close>, \<open>Replay_Facts\<close>, \<open>Stream_Order\<close>: the loaders of \<open>session.cpp\<close> for all three schemas; the
    loaded stream is what the recorder accepted, in that order.
  \<^item> \<open>Ingress\<close>: \<open>TelemetryIngress\<close> and the recording session as one step relation.
  \<^item> \<open>Http\<close>: reading a request, the answers, the abstract accept loop with worker turns in between.
  \<^item> \<open>Server_Run\<close>, \<open>Server_Facts\<close>: \<open>GsiHttpServer::run\<close> with every call of the system, the stop flag and
    a trace of what it does to sockets, gate and console; it refines the abstract loop.
  \<^item> \<open>Edition\<close>, \<open>Cli\<close>, \<open>Cli_Facts\<close>, \<open>Replay_Pacing\<close>: editions and the commands.
  \<^item> \<open>Record_Replay\<close>, \<open>Record_Command\<close> and this theory: the composition. The live stream and the
    analysis of the recorded files are the same, from the socket to the last event.
  \<^item> \<open>Program\<close>: \<open>main\<close> with the text of every line and the exit codes, and the signal handler.
  \<^item> \<open>Record_Total\<close>: \<open>record\<close> ends with exit code 0 when nothing outside fails, for every schedule, and
    \<open>analyze\<close> then prints the event lines that the live handler printed. \<open>Record_Ended\<close>: the
    other endings of \<open>record\<close>; if the files could be written, the session is readable and the handler
    has seen the events of a first part of it.
  \<^item> \<open>Regressions\<close>: scenarios of \<open>src/tests\<close>, evaluated on the model.

  \<^bold>\<open>How the code is read.\<close> 64-bit and 8-bit integers are words, so \<open>+\<close> wraps; \<open>int\<close> and \<open>int64_t\<close>
  values are integers, kept in range by explicit wrapping where the code casts. Exceptions are
  the left of a sum. A thread is a phase in the record of its object; a critical section is one
  step. The fields named accepted, handled, persisted and calls are a history that no operation
  reads. Every loop is total: the parsers by the length of the rest, the worker loops by the
  queue, and the search for a directory is a partial function that is proved to return, so no
  fuel is used anywhere. Evaluated witnesses avoid large unary numbers through code
  equations over \<open>int\<close>.

  \<^bold>\<open>Parameters.\<close> The handler of the pipeline is known by when it throws. The file system is the
  contents of the files and, for each write, whether it fails and after how many characters. The
  clock is the ticks it shows, the local time what the system's conversion fills in. A socket is
  the chunks that \<open>recv\<close> returns, whether the client stays afterwards and whether it has closed
  before the answer (which raises \<open>SIGPIPE\<close> on POSIX); a schedule lists the
  results of \<open>select\<close>, \<open>accept\<close> and \<open>send\<close>, the turns of the workers and the signals. \<open>std::stod\<close> is an
  argument of the replay command. Documented behaviour of the standard library (\<open>getline\<close>,
  \<open>stoull\<close>, \<open>stoi\<close>, \<open>from_chars\<close>, \<open>stable_sort\<close>, \<open>strtod\<close> as far as finiteness goes) is defined.

  \<^bold>\<open>Bounds.\<close> The theorems about whole sessions assume fewer than \<open>2\<^sup>6\<^sup>4\<close> records and bytes, the
  range of the counters; the pacing of \<open>replay\<close> assumes times below \<open>2\<^sup>5\<^sup>3\<close> microseconds, the range in
  which \<open>double\<close> is exact; the independence of chunks assumes that the header ends one chunk before
  the limit, and a theorem shows that nearer to the limit it fails. The theorems about whole
  sessions also assume that the headers of the files were written (\<open>headers_written\<close>), which the
  program does not test; \<open>Recorder_Start\<close> says what is left otherwise.

  \<^bold>\<open>Not modelled.\<close> Mutexes, condition variables and threads below the level of critical sections;
  the interleaving of the handler's lines with those of the server on the one standard output;
  the text that \<open>main\<close> writes to the error stream; what an undefined cast yields, and pauses of
  replay of \<open>2\<^sup>6\<^sup>3\<close> microseconds or more, which \<open>std::chrono\<close> would take for negative; the sizes of
  descriptor sets; build files, tests and documents.
\<close>

subsection \<open>Recording and replaying\<close>

text \<open>
  C5: Recording and replaying agree. Take any state of a recording session in which both
  workers have flushed, no write has failed and the pipeline has refused nothing. Then
  \<open>analyze\<close> succeeds on the files of the session, and the events it goes through are exactly
  those of the batches the live handler was called with, in the same order.
\<close>

theorem replay_reproduces_live:
  assumes "telemetry_reachable throws frequency start_tick t"
    and "recorder_ok (tm_recorder t)" "rc_in_flight (tm_recorder t) = []"
    and "pl_in_flight (tm_pipeline t) = []" "pl_accepted (tm_pipeline t) = recorded_items t"
    and "list_all record_in_range (rc_accepted (tm_recorder t))"
    and "length (rc_accepted (tm_recorder t)) < 2 ^ 64"
    and "length (of_contents (rc_raw_stream (tm_recorder t))) < 2 ^ 64"
  shows "\<exists>an. analyze_session (session_on_disk (tm_recorder t)) = Inr an
     \<and> an_events an = batch_events (pl_calls (tm_pipeline t))"
  using assms by (rule replayed_session)

theorem replay_reproduces_live_witness:
  "(\<exists>an. analyze_session (session_on_disk (tm_recorder demo_session)) = Inr an
     \<and> an_events an = batch_events (pl_calls (tm_pipeline demo_session)))
   \<and> map ev_type (batch_events (pl_calls (tm_pipeline demo_session))) = [MatchEntered]"
proof
  show "\<exists>an. analyze_session (session_on_disk (tm_recorder demo_session)) = Inr an
     \<and> an_events an = batch_events (pl_calls (tm_pipeline demo_session))"
  proof (rule replay_reproduces_live [OF demo_reachable])
    show "recorder_ok (tm_recorder demo_session)" by code_simp
    show "rc_in_flight (tm_recorder demo_session) = []" by code_simp
    show "pl_in_flight (tm_pipeline demo_session) = []" by code_simp
    show "pl_accepted (tm_pipeline demo_session) = recorded_items demo_session" by code_simp
    show "list_all record_in_range (rc_accepted (tm_recorder demo_session))"
      by (code_simp, simp add: in_i32_def)
    have "length (rc_accepted (tm_recorder demo_session)) = 2" by code_simp
    then show "length (rc_accepted (tm_recorder demo_session)) < 2 ^ 64" by simp
    have "length (of_contents (rc_raw_stream (tm_recorder demo_session))) = 20" by code_simp
    then show "length (of_contents (rc_raw_stream (tm_recorder demo_session))) < 2 ^ 64" by simp
  qed
  show "map ev_type (batch_events (pl_calls (tm_pipeline demo_session))) = [MatchEntered]" by code_simp
qed

subsection \<open>From the socket to the analysis\<close>

text \<open>
  C2: From the socket to the analysis. If \<open>record\<close> ends without an error, then the bodies of the
  session are those of the POST requests it was sent, \<open>analyze\<close> succeeds on its files, and the
  events it finds are those the live handler printed, whatever the turns of the two workers
  were in between. The sizes must fit the 64-bit counters, and the timeline must have been
  written, for its failure goes unnoticed.
\<close>

theorem recorded_session_is_analyzed:
  assumes "rr_outcome (command_record version edition env argv) = RecordFinished"
    and "rr_telemetry (command_record version edition env argv) = Some t'"
    and "headers_written (en_disk env)" "\<not> of_bad (rc_timeline (tm_recorder t'))"
    and "length (posted_bodies (accept_view (en_build env) False (en_events env))) < 2 ^ 64"
    and "length (concat (posted_bodies (accept_view (en_build env) False (en_events env)))) < 2 ^ 64"
  shows "recorded_bodies t' = posted_bodies (accept_view (en_build env) False (en_events env))
     \<and> (\<exists>an. analyze_session (session_on_disk (tm_recorder t')) = Inr an
          \<and> an_events an = batch_events (pl_calls (tm_pipeline t')))"
proof -
  obtain frequency start_tick responses t where
    "serve (en_throws env) (init_telemetry frequency start_tick) (accept_view (en_build env) False (en_events env)) = (responses, None, t)"
    "t' = session_closed (en_throws env) (en_turns env) t"
    "pl_worker_error (tm_pipeline t') = None" "rc_worker_error (tm_recorder t') = None"
    using command_record_finished [OF assms(1-3)] by blast
  then show ?thesis using assms(4-6) by (rule served_session_analyzed)
qed

theorem recorded_session_is_analyzed_witness:
  "recorded_bodies demo_recorded = posted_bodies (accept_view (en_build demo_env) False (en_events demo_env))
   \<and> (\<exists>an. analyze_session (session_on_disk (tm_recorder demo_recorded)) = Inr an
        \<and> an_events an = batch_events (pl_calls (tm_pipeline demo_recorded)))"
proof (rule recorded_session_is_analyzed [OF demo_record demo_recorded])
  show "headers_written (en_disk demo_env)" by (simp add: demo_env_def)
  show "\<not> of_bad (rc_timeline (tm_recorder demo_recorded))" by code_simp
  have "posted_bodies (accept_view (en_build demo_env) False (en_events demo_env)) = [''{}'']" by code_simp
  then show "length (posted_bodies (accept_view (en_build demo_env) False (en_events demo_env))) < 2 ^ 64"
    "length (concat (posted_bodies (accept_view (en_build demo_env) False (en_events demo_env)))) < 2 ^ 64"
    by simp_all
qed

end
